(* ===== verification/CPrelude.thy ===== *)
theory CPrelude
  imports Main "HOL-Library.Word" "HOL-Library.Sublist"
begin

text \<open>
  What the other theories share: the C types of the sources as words, C strings and the
  functions of the C library the sources call on them (\<open>strncmp\<close>, \<open>strstr\<close>, \<open>rindex\<close>,
  \<open>strtoull\<close>, \<open>strtol\<close>, \<open>atoi\<close>, \<open>fgets\<close>, the conversions of \<open>printf\<close>), process results,
  bytes and byte order, and the collections of rewrite rules the component proofs use.
\<close>

unbundle bit_operations_syntax

named_theorems cap_simps
  \<open>evaluation of predicates on concrete capabilities\<close>

type_synonym u8 = "8 word"
type_synonym u16 = "16 word"
type_synonym u32 = "32 word"
type_synonym u64 = "64 word"

section \<open>Processes\<close>

text \<open>What a command line tool leaves behind: its output streams and its exit status.\<close>

record proc =
  stdout :: string
  stderr :: string
  status :: int

abbreviation exit_ok :: "string \<Rightarrow> proc" where
  "exit_ok out \<equiv> \<lparr>stdout = out, stderr = '''', status = 0\<rparr>"

abbreviation exit_usage :: "string \<Rightarrow> proc" where
  "exit_usage err \<equiv> \<lparr>stdout = '''', stderr = err, status = -1\<rparr>"

abbreviation NL :: char where "NL \<equiv> CHR 0x0A"
abbreviation TAB :: char where "TAB \<equiv> CHR 0x09"
abbreviation NUL :: char where "NUL \<equiv> CHR 0x00"

section \<open>C strings\<close>

text \<open>
  A C string is the list of its characters without the terminating NUL; a pointer into it is
  the suffix that starts there. \<open>strncmp (s, p, strlen p) == 0\<close> says that \<open>p\<close> is a prefix.
\<close>

definition strncmp_eq :: "string \<Rightarrow> string \<Rightarrow> bool" where
  "strncmp_eq s p \<longleftrightarrow> take (length p) s = p"

fun strstr :: "string \<Rightarrow> string \<Rightarrow> string option" where
  "strstr [] p = (if p = [] then Some [] else None)"
| "strstr (c # s) p = (if strncmp_eq (c # s) p then Some (c # s) else strstr s p)"

fun rindex :: "string \<Rightarrow> char \<Rightarrow> string option" where
  "rindex [] x = None"
| "rindex (c # s) x =
     (case rindex s x of Some t \<Rightarrow> Some t
      | None \<Rightarrow> if c = x then Some (c # s) else None)"

text \<open>The part of a path after its last slash, as the tools compute it from \<open>rindex\<close>.\<close>

definition basename :: "string \<Rightarrow> string" where
  "basename path = (case rindex path CHR ''/'' of None \<Rightarrow> path | Some t \<Rightarrow> tl t)"

lemma strncmp_eq_prefix: "strncmp_eq s p \<longleftrightarrow> prefix p s"
  by (auto simp: strncmp_eq_def prefix_def) (metis append_take_drop_id)

lemma strncmp_eq_append [simp]: "strncmp_eq (p @ s) p"
  by (simp add: strncmp_eq_def)

lemma strncmp_eq_same_length: "length n = length p \<Longrightarrow> strncmp_eq (n @ s) p \<longleftrightarrow> n = p"
  by (simp add: strncmp_eq_def)

lemma strstr_iff_sublist: "strstr s p \<noteq> None \<longleftrightarrow> sublist p s"
proof (induction s)
  case Nil
  show ?case by simp
next
  case (Cons c s)
  then show ?case
    by (auto simp: strncmp_eq_prefix sublist_Cons_right)
qed

lemma strstr_Some: "strstr s p = Some t \<Longrightarrow> \<exists>u. s = u @ t \<and> prefix p t"
proof (induction s)
  case Nil
  then show ?case by (simp split: if_splits)
next
  case (Cons c s)
  show ?case
  proof (cases "strncmp_eq (c # s) p")
    case True
    with Cons.prems show ?thesis by (auto simp: strncmp_eq_prefix)
  next
    case False
    with Cons obtain u where "s = u @ t" "prefix p t" by auto
    then have "c # s = (c # u) @ t \<and> prefix p t" by simp
    then show ?thesis by blast
  qed
qed

lemma rindex_None_iff: "rindex s x = None \<longleftrightarrow> x \<notin> set s"
  by (induction s) (auto split: option.splits)

lemma rindex_append_notin:
  "x \<notin> set t \<Longrightarrow> rindex (s @ x # t) x = Some (x # t)"
  by (induction s) (simp_all add: iffD2 [OF rindex_None_iff])

lemma basename_dir: "CHR ''/'' \<notin> set f \<Longrightarrow> basename (d @ CHR ''/'' # f) = f"
  by (simp add: basename_def rindex_append_notin)

lemma basename_plain: "CHR ''/'' \<notin> set f \<Longrightarrow> basename f = f"
  by (simp add: basename_def iffD2 [OF rindex_None_iff])

text \<open>A file name is reached either bare or behind some directory.\<close>

definition path_to :: "string \<Rightarrow> string \<Rightarrow> bool" where
  "path_to path f \<longleftrightarrow> CHR ''/'' \<notin> set f \<and> (path = f \<or> (\<exists>d. path = d @ CHR ''/'' # f))"

lemma basename_path_to: "path_to path f \<Longrightarrow> basename path = f"
  by (auto simp: path_to_def basename_dir basename_plain)

text \<open>
  Where a character occurs once in a string and once in a pattern, an occurrence of the
  pattern puts the two on top of each other.
\<close>

lemma sublist_at_separator:
  assumes "sublist (p @ x # q) (s @ x # t)" and "x \<notin> set s" and "x \<notin> set t"
  shows "suffix p s \<and> prefix q t"
proof -
  from assms(1) obtain a b where "s @ x # t = a @ (p @ x # q) @ b"
    by (auto simp: sublist_def)
  then have eq: "s @ x # t = (a @ p) @ x # (q @ b)" by simp
  with assms(2,3) have "s = a @ p \<and> t = q @ b"
    by (subst (asm) append_Cons_eq_iff) auto
  then show ?thesis by (auto simp: suffix_def)
qed

section \<open>Numbers in text\<close>

definition digit_char :: "nat \<Rightarrow> char" where
  "digit_char d = (if d < 10 then char_of (48 + d) else char_of (87 + d))"

definition digit_val :: "char \<Rightarrow> nat option" where
  "digit_val c =
     (let n = of_char c :: nat in
      if 48 \<le> n \<and> n \<le> 57 then Some (n - 48)
      else if 97 \<le> n \<and> n \<le> 122 then Some (n - 87)
      else if 65 \<le> n \<and> n \<le> 90 then Some (n - 55)
      else None)"

fun show_base :: "nat \<Rightarrow> nat \<Rightarrow> string" where
  "show_base b n =
     (if b < 2 \<or> n < b then [digit_char n]
      else show_base b (n div b) @ [digit_char (n mod b)])"

declare show_base.simps [simp del]

text \<open>Reading stops at the first character that is no digit of the base.\<close>

fun read_base :: "nat \<Rightarrow> nat \<Rightarrow> string \<Rightarrow> nat" where
  "read_base b acc [] = acc"
| "read_base b acc (c # s) =
     (case digit_val c of
        Some d \<Rightarrow> if d < b then read_base b (acc * b + d) s else acc
      | None \<Rightarrow> acc)"

definition is_digit :: "nat \<Rightarrow> char \<Rightarrow> bool" where
  "is_digit b c \<longleftrightarrow> (case digit_val c of Some d \<Rightarrow> d < b | None \<Rightarrow> False)"

definition pad_left :: "nat \<Rightarrow> char \<Rightarrow> string \<Rightarrow> string" where
  "pad_left w c s = replicate (w - length s) c @ s"

text \<open>The conversions \<open>%d\<close>, \<open>%2d\<close>, \<open>%08x\<close> and \<open>%016llx\<close> of \<open>printf\<close>.\<close>

definition fmt_d :: "int \<Rightarrow> string" where
  "fmt_d i = (if i < 0 then CHR ''-'' # show_base 10 (nat (- i)) else show_base 10 (nat i))"

definition fmt_2d :: "int \<Rightarrow> string" where
  "fmt_2d i = pad_left 2 CHR '' '' (fmt_d i)"

definition fmt_08x :: "u32 \<Rightarrow> string" where
  "fmt_08x w = pad_left 8 CHR ''0'' (show_base 16 (unat w))"

definition fmt_016llx :: "u64 \<Rightarrow> string" where
  "fmt_016llx w = pad_left 16 CHR ''0'' (show_base 16 (unat w))"

definition isspace :: "char \<Rightarrow> bool" where
  "isspace c \<longleftrightarrow> c = CHR '' '' \<or> (9 \<le> (of_char c :: nat) \<and> (of_char c :: nat) \<le> 13)"

definition strip_sign :: "string \<Rightarrow> bool \<times> string" where
  "strip_sign s =
     (case s of [] \<Rightarrow> (False, [])
      | c # t \<Rightarrow> if c = CHR ''-'' then (True, t) else if c = CHR ''+'' then (False, t)
                else (False, s))"

definition has_hex_prefix :: "string \<Rightarrow> bool" where
  "has_hex_prefix s \<longleftrightarrow>
     (case s of z # x # d # _ \<Rightarrow>
        z = CHR ''0'' \<and> (x = CHR ''x'' \<or> x = CHR ''X'') \<and> is_digit 16 d
      | _ \<Rightarrow> False)"

text \<open>
  \<open>strtoull (s, NULL, 16)\<close>: blanks, a sign and \<open>0x\<close> are skipped, a value that does not fit
  becomes \<open>ULLONG_MAX\<close>, a minus sign negates in the unsigned type.
\<close>

definition strtoull16 :: "string \<Rightarrow> u64" where
  "strtoull16 s =
     (let (neg, t) = strip_sign (dropWhile isspace s);
          v = read_base 16 0 (if has_hex_prefix t then drop 2 t else t)
      in if v \<ge> 2 ^ 64 then - 1 else if neg then - of_nat v else of_nat v)"

text \<open>\<open>strtol (s, NULL, base)\<close> for a \<open>long\<close> of 64 bits; base 0 lets the prefix decide.\<close>

definition strtol :: "string \<Rightarrow> nat \<Rightarrow> int" where
  "strtol s base =
     (let (neg, t) = strip_sign (dropWhile isspace s);
          hex = (base = 0 \<or> base = 16) \<and> has_hex_prefix t;
          b = (if base \<noteq> 0 then base else if hex then 16
               else if t \<noteq> [] \<and> hd t = CHR ''0'' then 8 else 10);
          v = int (read_base b 0 (if hex then drop 2 t else t))
      in if neg then max (- (2 ^ 63)) (- v) else min (2 ^ 63 - 1) v)"

text \<open>Assignment of a wider value to an \<open>int\<close> of 32 bits.\<close>

definition to_int32 :: "int \<Rightarrow> int" where
  "to_int32 v = sint (word_of_int v :: 32 word)"

definition atoi :: "string \<Rightarrow> int" where
  "atoi s = to_int32 (strtol s 10)"

lemma to_int32_id: "- (2 ^ 31) \<le> v \<Longrightarrow> v < 2 ^ 31 \<Longrightarrow> to_int32 v = v"
  by (simp add: to_int32_def sint_sbintrunc' signed_take_bit_int_eq_self_iff)

lemma to_int32_range: "- (2 ^ 31) \<le> to_int32 v \<and> to_int32 v < 2 ^ 31"
  using sint_range_size [of "word_of_int v :: 32 word"]
  by (simp add: to_int32_def word_size)

lemma of_char_char_of_small: "n < 256 \<Longrightarrow> of_char (char_of n :: char) = (n :: nat)"
  by (simp add: of_char_of)

lemma digit_val_char [simp]: "d < 36 \<Longrightarrow> digit_val (digit_char d) = Some d"
  by (auto simp: digit_val_def digit_char_def of_char_char_of_small Let_def)

lemma is_digit_char [simp]: "b \<le> 36 \<Longrightarrow> d < b \<Longrightarrow> is_digit b (digit_char d)"
  by (simp add: is_digit_def)

lemma digit_char_0: "digit_char 0 = CHR ''0''"
  by code_simp

lemma show_base_nonempty [simp]: "show_base b n \<noteq> []"
  by (subst show_base.simps) simp

lemma show_base_digits:
  "2 \<le> b \<Longrightarrow> b \<le> 36 \<Longrightarrow> list_all (is_digit b) (show_base b n)"
proof (induction b n rule: show_base.induct)
  case (1 b n)
  show ?case
  proof (cases "n < b")
    case True
    with 1 show ?thesis by (subst show_base.simps) simp
  next
    case False
    with 1 have "n mod b < b" and "list_all (is_digit b) (show_base b (n div b))"
      by simp_all
    with False 1 show ?thesis by (subst show_base.simps) simp
  qed
qed

lemma read_base_append:
  "list_all (is_digit b) s \<Longrightarrow> read_base b acc (s @ t) = read_base b (read_base b acc s) t"
  by (induction s arbitrary: acc) (auto simp: is_digit_def split: option.splits)

lemma read_base_stop: "s = [] \<or> \<not> is_digit b (hd s) \<Longrightarrow> read_base b acc s = acc"
  by (cases s) (auto simp: is_digit_def split: option.splits)

lemma read_show_base:
  "2 \<le> b \<Longrightarrow> b \<le> 36 \<Longrightarrow> read_base b 0 (show_base b n) = n"
proof (induction b n rule: show_base.induct)
  case (1 b n)
  show ?case
  proof (cases "n < b")
    case True
    with 1 show ?thesis by (subst show_base.simps) simp
  next
    case False
    with 1 have "n mod b < b" and "n mod b < 36" and "read_base b 0 (show_base b (n div b)) = n div b"
      by (simp_all add: less_le_trans [OF mod_less_divisor])
    with False 1 show ?thesis
      by (subst show_base.simps) (simp add: read_base_append show_base_digits)
  qed
qed

lemma read_base_zeros:
  "2 \<le> b \<Longrightarrow> b \<le> 36 \<Longrightarrow> read_base b 0 (replicate k CHR ''0'' @ s) = read_base b 0 s"
  by (induction k) (simp_all add: digit_char_0 [symmetric])

text \<open>Reading back what a padded conversion printed, up to what follows it.\<close>

lemma read_padded:
  assumes "2 \<le> b" "b \<le> 36" "t = [] \<or> \<not> is_digit b (hd t)"
  shows "read_base b 0 (pad_left w CHR ''0'' (show_base b n) @ t) = n"
  using assms
  by (simp add: pad_left_def read_base_zeros read_base_append show_base_digits
      read_show_base read_base_stop)

lemma show_base_length_le:
  "2 \<le> b \<Longrightarrow> n < b ^ k \<Longrightarrow> 0 < k \<Longrightarrow> length (show_base b n) \<le> k"
proof (induction k arbitrary: n)
  case 0
  then show ?case by simp
next
  case (Suc k)
  show ?case
  proof (cases "n < b")
    case True
    then show ?thesis by (subst show_base.simps) simp
  next
    case False
    with Suc.prems have "k \<noteq> 0" and "n div b < b ^ k"
      by (auto simp: less_mult_imp_div_less mult.commute intro: gr0I)
    with Suc have "length (show_base b (n div b)) \<le> k" by simp
    with False Suc.prems show ?thesis by (subst show_base.simps) simp
  qed
qed

lemma fmt_016llx_length: "length (fmt_016llx w) = 16"
proof -
  have "unat w < 16 ^ 16" using unsigned_less [of w] by simp
  then have "length (show_base 16 (unat w)) \<le> 16"
    by (intro show_base_length_le) auto
  then show ?thesis by (simp add: fmt_016llx_def pad_left_def)
qed

lemma fmt_08x_length: "length (fmt_08x w) = 8"
proof -
  have "unat w < 16 ^ 8" using unsigned_less [of w] by simp
  then have "length (show_base 16 (unat w)) \<le> 8"
    by (intro show_base_length_le) auto
  then show ?thesis by (simp add: fmt_08x_def pad_left_def)
qed

lemma is_digit16_chars:
  "\<not> is_digit 16 CHR ''x''" "\<not> is_digit 16 NL" "\<not> is_digit 16 NUL" "\<not> is_digit 16 CHR '' ''"
  "\<not> is_digit 16 CHR ''-''" "\<not> is_digit 16 CHR ''+''" "\<not> is_digit 16 CHR ''X''"
  by code_simp+

lemma digit_not_space: "is_digit b c \<Longrightarrow> \<not> isspace c"
  by (auto simp: is_digit_def isspace_def digit_val_def Let_def split: option.splits if_splits)

lemma digit_not_sign: "is_digit b c \<Longrightarrow> c \<noteq> CHR ''-'' \<and> c \<noteq> CHR ''+''"
  by (auto simp: is_digit_def digit_val_def Let_def split: option.splits if_splits)

lemma fmt_016llx_digits: "list_all (is_digit 16) (fmt_016llx v)"
proof -
  have "is_digit 16 CHR ''0''" by code_simp
  then show ?thesis
    using show_base_digits [of 16 "unat v"]
    by (auto simp: fmt_016llx_def pad_left_def list_all_iff)
qed

lemma fmt_016llx_set: "\<not> is_digit 16 c \<Longrightarrow> c \<notin> set (fmt_016llx v)"
  using fmt_016llx_digits [of v] by (auto simp: list_all_iff)

lemmas fmt_016llx_chars [simp] = is_digit16_chars [THEN fmt_016llx_set]

lemma strtoull16_fmt:
  assumes "t = [] \<or> \<not> is_digit 16 (hd t)"
  shows "strtoull16 (fmt_016llx v @ t) = v"
proof -
  have "length (fmt_016llx v) = 16" by (rule fmt_016llx_length)
  then obtain c d r where f: "fmt_016llx v = c # d # r"
    by (metis (no_types) length_0_conv list.exhaust length_Cons One_nat_def
        zero_neq_numeral numeral_eq_one_iff semiring_norm(85))
  then have c: "is_digit 16 c" and d: "is_digit 16 d"
    using fmt_016llx_digits [of v] by simp_all
  have dx: "d \<noteq> CHR ''x''" "d \<noteq> CHR ''X''" using d is_digit16_chars by auto
  have "dropWhile isspace (fmt_016llx v @ t) = fmt_016llx v @ t"
    using digit_not_space [OF c] by (simp add: f)
  moreover have "strip_sign (fmt_016llx v @ t) = (False, fmt_016llx v @ t)"
    using digit_not_sign [OF c] by (simp add: f strip_sign_def)
  moreover have "\<not> has_hex_prefix (fmt_016llx v @ t)"
    using dx by (auto simp: f has_hex_prefix_def split: list.splits)
  moreover have "read_base 16 0 (fmt_016llx v @ t) = unat v"
    unfolding fmt_016llx_def using assms by (intro read_padded) auto
  moreover have "unat v < 2 ^ 64" using unsigned_less [of v] by simp
  ultimately show ?thesis by (simp add: strtoull16_def)
qed

lemma strstr_0x: "CHR ''x'' \<notin> set u \<Longrightarrow>
  strstr (u @ CHR ''0'' # CHR ''x'' # r) ''0x'' = Some (CHR ''0'' # CHR ''x'' # r)"
proof (induction u)
  case Nil
  show ?case by (simp add: strncmp_eq_def)
next
  case (Cons c u)
  then show ?case by (cases u) (auto simp: strncmp_eq_def)
qed

lemma is_digit10_chars:
  "\<not> is_digit 10 CHR ''x''" "\<not> is_digit 10 NL" "\<not> is_digit 10 NUL" "\<not> is_digit 10 CHR '' ''"
  "\<not> is_digit 10 CHR ''<''" "\<not> is_digit 10 CHR ''X''"
  by code_simp+

lemma show_base_set:
  "2 \<le> b \<Longrightarrow> b \<le> 36 \<Longrightarrow> \<not> is_digit b c \<Longrightarrow> c \<notin> set (show_base b n)"
  using show_base_digits [of b n] by (auto simp: list_all_iff)

lemma show_base_10_chars [simp]:
  "CHR ''x'' \<notin> set (show_base 10 n)" "NL \<notin> set (show_base 10 n)" "NUL \<notin> set (show_base 10 n)"
  "CHR '' '' \<notin> set (show_base 10 n)" "CHR ''<'' \<notin> set (show_base 10 n)"
  "CHR ''X'' \<notin> set (show_base 10 n)"
  using is_digit10_chars by (simp_all add: show_base_set)

lemma digit_char_nonzero: "0 < d \<Longrightarrow> d < 36 \<Longrightarrow> digit_char d \<noteq> CHR ''0''"
  using digit_val_char [of d] digit_val_char [of 0] by (metis digit_char_0 not_gr0 option.inject zero_less_numeral)

lemma show_base_hd: "0 < n \<Longrightarrow> 2 \<le> b \<Longrightarrow> b \<le> 36 \<Longrightarrow> hd (show_base b n) \<noteq> CHR ''0''"
proof (induction b n rule: show_base.induct)
  case (1 b n)
  show ?case
  proof (cases "n < b")
    case True
    with 1 show ?thesis by (subst show_base.simps) (simp add: digit_char_nonzero)
  next
    case False
    with 1 have "0 < n div b" by (simp add: div_greater_zero_iff)
    with 1 False show ?thesis by (subst show_base.simps) simp
  qed
qed

lemma show_base_small: "n < b \<Longrightarrow> show_base b n = [digit_char n]"
  by (subst show_base.simps) simp

lemma show_base_10_parts:
  obtains c r where "show_base 10 n = c # r" "is_digit 10 c" "\<not> isspace c"
    "c \<noteq> CHR ''-''" "c \<noteq> CHR ''+''" "\<not> has_hex_prefix (show_base 10 n)"
proof -
  obtain c r where cr: "show_base 10 n = c # r"
    using show_base_nonempty by (meson list.exhaust)
  then have d: "is_digit 10 c" using show_base_digits [of 10 n] by simp
  have "CHR ''x'' \<notin> set r" "CHR ''X'' \<notin> set r"
    using show_base_10_chars [of n] unfolding cr by simp_all
  then have "\<not> has_hex_prefix (show_base 10 n)"
    by (auto simp: cr has_hex_prefix_def split: list.splits)
  then show ?thesis
    using that cr d digit_not_space [OF d] digit_not_sign [OF d] by blast
qed

text \<open>Decimal numbers are read back by \<open>strtol\<close>, with leading blanks and in base 0 as well.\<close>

lemma strtol_blanks: "strtol (replicate k CHR '' '' @ s) base = strtol s base"
  by (induction k) (simp_all add: strtol_def isspace_def)

lemma strtol_dec: "n < 2 ^ 63 \<Longrightarrow> base = 10 \<or> base = 0 \<Longrightarrow> strtol (show_base 10 n) base = int n"
proof -
  assume n: "n < 2 ^ 63" and base: "base = 10 \<or> base = 0"
  obtain c r where cr: "show_base 10 n = c # r" and c: "\<not> isspace c" "c \<noteq> CHR ''-''" "c \<noteq> CHR ''+''"
    and hex: "\<not> has_hex_prefix (show_base 10 n)" by (rule show_base_10_parts)
  have strip: "strip_sign (dropWhile isspace (show_base 10 n)) = (False, show_base 10 n)"
    using c by (simp add: cr strip_sign_def)
  have r10: "read_base 10 0 (show_base 10 n) = n" by (simp add: read_show_base)
  have "read_base 8 0 (show_base 10 n) = n" if "c = CHR ''0''"
  proof -
    have "n = 0" using that show_base_hd [of n 10] cr by (cases "n = 0") auto
    moreover have "read_base 8 0 (show_base 10 0) = 0" by code_simp
    ultimately show ?thesis by simp
  qed
  with r10 n base show ?thesis
    unfolding strtol_def strip by (auto simp: hex) (auto simp: cr)
qed

lemma fmt_2d_facts:
  assumes "n < 100"
  shows "length (fmt_2d (int n)) = 2" "NUL \<notin> set (fmt_2d (int n))" "NL \<notin> set (fmt_2d (int n))"
    "CHR ''<'' \<notin> set (fmt_2d (int n))" "strtol (fmt_2d (int n)) 10 = int n"
proof -
  have d: "fmt_d (int n) = show_base 10 n" by (simp add: fmt_d_def)
  have "length (show_base 10 n) \<le> 2" using assms by (intro show_base_length_le) auto
  then show "length (fmt_2d (int n)) = 2" by (simp add: fmt_2d_def pad_left_def d)
  show "strtol (fmt_2d (int n)) 10 = int n"
    using assms strtol_dec [of n 10] by (simp add: fmt_2d_def pad_left_def d strtol_blanks)
qed (simp_all add: fmt_2d_def pad_left_def fmt_d_def)

section \<open>Reading lines\<close>

text \<open>
  \<open>fgets\<close> with a buffer of \<open>size\<close> characters takes at most \<open>size - 1\<close> of them and stops after
  a newline; \<open>chunks\<close> is what a loop of such calls sees until the end of the input.
\<close>

fun take_line :: "nat \<Rightarrow> string \<Rightarrow> string \<times> string" where
  "take_line 0 s = ([], s)"
| "take_line (Suc n) [] = ([], [])"
| "take_line (Suc n) (c # s) =
     (if c = NL then ([c], s) else let (l, r) = take_line n s in (c # l, r))"

lemma take_line_length: "length (snd (take_line n s)) \<le> length s"
  by (induction n s rule: take_line.induct) (auto split: prod.splits)

lemma take_line_shorter: "n \<noteq> 0 \<Longrightarrow> s \<noteq> [] \<Longrightarrow> length (snd (take_line n s)) < length s"
proof (cases n; cases s)
  fix m c t
  assume "n = Suc m" "s = c # t"
  then show ?thesis using take_line_length [of m t] by (auto split: prod.splits)
qed auto

function chunks :: "nat \<Rightarrow> string \<Rightarrow> string list" where
  "chunks n s =
     (if s = [] \<or> n < 2 then []
      else let (l, r) = take_line (n - 1) s in l # chunks n r)"
  by pat_completeness auto
termination
proof (relation "measure (\<lambda>(n, s). length s)", goal_cases)
  case (2 n s x l r)
  then show ?case
    using take_line_shorter [of "n - 1" s] by (auto simp: prod_eq_iff)
qed simp

declare chunks.simps [simp del]

definition is_line :: "nat \<Rightarrow> string \<Rightarrow> bool" where
  "is_line n l \<longleftrightarrow> (\<exists>t. l = t @ [NL] \<and> NL \<notin> set t) \<and> length l < n"

lemma take_line_line: "NL \<notin> set t \<Longrightarrow> length t < n \<Longrightarrow> take_line n (t @ NL # r) = (t @ [NL], r)"
proof (induction t arbitrary: n)
  case Nil
  then show ?case by (cases n) simp_all
next
  case (Cons c t)
  then show ?case by (cases n) auto
qed

lemma chunks_lines: "\<forall>l\<in>set ls. is_line n l \<Longrightarrow> chunks n (concat ls) = ls"
proof (induction ls)
  case Nil
  show ?case by (simp add: chunks.simps)
next
  case (Cons l ls)
  then obtain t where l: "l = t @ [NL]" "NL \<notin> set t" and len: "length l < n"
    by (auto simp: is_line_def)
  then have "take_line (n - 1) (concat (l # ls)) = (l, concat ls)"
    by (simp add: take_line_line)
  with l len Cons show ?case by (subst chunks.simps) simp
qed

definition cstr :: "string \<Rightarrow> string" where
  "cstr s = takeWhile (\<lambda>c. c \<noteq> NUL) s"

lemma cstr_id: "NUL \<notin> set s \<Longrightarrow> cstr s = s"
  by (induction s) (auto simp: cstr_def)

lemma cstr_NUL: "NUL \<notin> set s \<Longrightarrow> cstr (s @ NUL # t) = s"
  by (induction s) (auto simp: cstr_def)

end
