(* ===== verification/BuildTools.thy ===== *)
theory BuildTools
  imports CPrelude
begin

text \<open>
  The two tools the makefiles call to decide how a test is linked (\<open>select_init.c\<close>: the linker
  script and the start-up objects) and for how many cycles it is simulated (\<open>max_cycles.c\<close>),
  both from the file name of the test.
\<close>

section \<open>select_init.c\<close>

datatype build =
  BUILD_UNCACHED | BUILD_CACHED | BUILD_UNCACHED_MULTI | BUILD_CACHED_MULTI

definition select_build :: "string \<Rightarrow> build" where
  "select_build cp =
     (if strstr cp ''_cachedmulti.elf'' \<noteq> None then BUILD_CACHED_MULTI
      else if strstr cp ''_multi.elf'' \<noteq> None then BUILD_UNCACHED_MULTI
      else if strstr cp ''_cached.elf'' \<noteq> None then BUILD_CACHED
      else BUILD_UNCACHED)"

text \<open>The four switch statements, one per class of tests, as the code prints them.\<close>

fun print_raw_mc :: "build \<Rightarrow> string \<Rightarrow> string" where
  "print_raw_mc BUILD_UNCACHED objdir = ''-Traw.ld'' @ [NL]"
| "print_raw_mc BUILD_CACHED objdir = ''-Traw_cached.ld '' @ objdir @ ''/init_cached.o'' @ [NL]"
| "print_raw_mc BUILD_UNCACHED_MULTI objdir = ''-Traw.ld'' @ [NL]"
| "print_raw_mc BUILD_CACHED_MULTI objdir =
     ''-Traw_cached.ld '' @ objdir @ ''/init_cached.o'' @ [NL]"

fun print_raw :: "build \<Rightarrow> string \<Rightarrow> string" where
  "print_raw BUILD_UNCACHED objdir = ''-Traw.ld'' @ [NL]"
| "print_raw BUILD_CACHED objdir = ''-Traw_cached.ld '' @ objdir @ ''/init_cached.o'' @ [NL]"
| "print_raw BUILD_UNCACHED_MULTI objdir =
     ''-Traw_multi.ld '' @ objdir @ ''/init_multi.o'' @ [NL]"
| "print_raw BUILD_CACHED_MULTI objdir =
     ''-Traw_cachedmulti.ld '' @ objdir @ ''/init_multi.o'' @ [NL]"

definition purecap_init_objs :: "string \<Rightarrow> string" where
  "purecap_init_objs objdir =
     objdir @ ''/purecap_init.o '' @ objdir @ ''/purecap_crt_init_globals.o''
       @ '' '' @ objdir @ ''/purecap_lib.o''"

fun print_purecap :: "build \<Rightarrow> string \<Rightarrow> string" where
  "print_purecap BUILD_UNCACHED objdir =
     ''-Ttest_purecap.ld '' @ purecap_init_objs objdir @ [NL]"
| "print_purecap BUILD_CACHED objdir =
     ''-Ttest_purecap_cached.ld '' @ objdir @ ''/purecap_init_cached.o ''
       @ purecap_init_objs objdir @ [NL]"
| "print_purecap BUILD_UNCACHED_MULTI objdir =
     ''-Ttest_purecap.ld '' @ purecap_init_objs objdir @ [NL]"
| "print_purecap BUILD_CACHED_MULTI objdir =
     ''-Ttest_purecap_cached.ld '' @ objdir @ ''/purecap_init_cached.o ''
       @ purecap_init_objs objdir @ [NL]"

fun print_plain :: "build \<Rightarrow> string \<Rightarrow> string" where
  "print_plain BUILD_UNCACHED objdir =
     ''-Ttest.ld '' @ objdir @ ''/init.o '' @ objdir @ ''/lib.o'' @ [NL]"
| "print_plain BUILD_CACHED objdir =
     ''-Ttest_cached.ld '' @ objdir @ ''/init_cached.o '' @ objdir @ ''/init.o ''
       @ objdir @ ''/lib.o'' @ [NL]"
| "print_plain BUILD_UNCACHED_MULTI objdir =
     ''-Ttest.ld '' @ objdir @ ''/init.o '' @ objdir @ ''/lib.o'' @ [NL]"
| "print_plain BUILD_CACHED_MULTI objdir =
     ''-Ttest_cached.ld '' @ objdir @ ''/init_cached.o '' @ objdir @ ''/init.o ''
       @ objdir @ ''/lib.o'' @ [NL]"

text \<open>\<open>main\<close>: the program name (\<open>argv[0]\<close>) and the remaining arguments.\<close>

definition select_init_main :: "string \<Rightarrow> string list \<Rightarrow> proc" where
  "select_init_main prog args =
     (case args of
        [] \<Rightarrow> exit_usage (''Usage: '' @ prog @ '' <filename> [objdir]'' @ [NL])
      | path # rest \<Rightarrow>
          let objdir = (case rest of [] \<Rightarrow> ''obj'' | d # _ \<Rightarrow> d);
              cp = basename path;
              build = select_build cp
          in exit_ok
               (if strncmp_eq cp ''test_raw_mc_'' then print_raw_mc build objdir
                else if strncmp_eq cp ''test_raw_'' then print_raw build objdir
                else if strncmp_eq cp ''test_purecap_'' then print_purecap build objdir
                else print_plain build objdir))"

subsection \<open>What the tool promises: a linker script and a list of objects\<close>

text \<open>
  A test belongs to a class, a build is cached or not and multi-core or not. Only raw tests
  that are not written for several cores have scripts of their own for the multi-core builds;
  every other class falls back to the single-core script.
\<close>

datatype test_class = Raw_mc | Raw | Purecap | Plain

definition test_class_of :: "string \<Rightarrow> test_class" where
  "test_class_of cp =
     (if prefix ''test_raw_mc_'' cp then Raw_mc
      else if prefix ''test_raw_'' cp then Raw
      else if prefix ''test_purecap_'' cp then Purecap
      else Plain)"

definition cached :: "build \<Rightarrow> bool" where
  "cached b \<longleftrightarrow> b = BUILD_CACHED \<or> b = BUILD_CACHED_MULTI"

definition multi :: "build \<Rightarrow> bool" where
  "multi b \<longleftrightarrow> b = BUILD_UNCACHED_MULTI \<or> b = BUILD_CACHED_MULTI"

definition link_script :: "test_class \<Rightarrow> build \<Rightarrow> string" where
  "link_script k b =
     (case k of Raw_mc \<Rightarrow> ''raw'' | Raw \<Rightarrow> ''raw'' | Purecap \<Rightarrow> ''test_purecap'' | Plain \<Rightarrow> ''test'')
     @ (if k = Raw \<and> multi b then (if cached b then ''_cachedmulti'' else ''_multi'')
        else if cached b then ''_cached'' else '''')
     @ ''.ld''"

definition link_objects :: "test_class \<Rightarrow> build \<Rightarrow> string list" where
  "link_objects k b =
     (case k of
        Raw_mc \<Rightarrow> (if cached b then [''init_cached.o''] else [])
      | Raw \<Rightarrow> (if multi b then [''init_multi.o''] else if cached b then [''init_cached.o''] else [])
      | Purecap \<Rightarrow> (if cached b then [''purecap_init_cached.o''] else [])
          @ [''purecap_init.o'', ''purecap_crt_init_globals.o'', ''purecap_lib.o'']
      | Plain \<Rightarrow> (if cached b then [''init_cached.o''] else []) @ [''init.o'', ''lib.o''])"

definition link_line :: "string \<Rightarrow> test_class \<Rightarrow> build \<Rightarrow> string" where
  "link_line objdir k b =
     ''-T'' @ link_script k b
       @ concat (map (\<lambda>obj. '' '' @ objdir @ ''/'' @ obj) (link_objects k b)) @ [NL]"

lemmas link_defs = link_line_def link_script_def link_objects_def cached_def multi_def

lemma print_raw_mc_link: "print_raw_mc b objdir = link_line objdir Raw_mc b"
  by (cases b) (simp_all add: link_defs)

lemma print_raw_link: "print_raw b objdir = link_line objdir Raw b"
  by (cases b) (simp_all add: link_defs)

lemma print_purecap_link: "print_purecap b objdir = link_line objdir Purecap b"
  by (cases b) (simp_all add: link_defs purecap_init_objs_def)

lemma print_plain_link: "print_plain b objdir = link_line objdir Plain b"
  by (cases b) (simp_all add: link_defs)

lemmas print_link = print_raw_mc_link print_raw_link print_purecap_link print_plain_link

subsection \<open>File names and builds\<close>

fun build_suffix :: "build \<Rightarrow> string" where
  "build_suffix BUILD_UNCACHED = ''''"
| "build_suffix BUILD_CACHED = ''_cached''"
| "build_suffix BUILD_UNCACHED_MULTI = ''_multi''"
| "build_suffix BUILD_CACHED_MULTI = ''_cachedmulti''"

definition elf_name :: "string \<Rightarrow> build \<Rightarrow> string" where
  "elf_name test b = test @ build_suffix b @ ''.elf''"

text \<open>A test name has no dot and does not itself end like a build.\<close>

definition test_name :: "string \<Rightarrow> bool" where
  "test_name t \<longleftrightarrow> CHR ''.'' \<notin> set t \<and>
     (\<forall>b. b \<noteq> BUILD_UNCACHED \<longrightarrow> \<not> suffix (build_suffix b) t)"

lemma strstr_elf:
  assumes "CHR ''.'' \<notin> set s"
  shows "strstr (s @ ''.elf'') (p @ ''.elf'') \<noteq> None \<longleftrightarrow> suffix p s"
proof
  assume "strstr (s @ ''.elf'') (p @ ''.elf'') \<noteq> None"
  then have "sublist (p @ CHR ''.'' # ''elf'') (s @ CHR ''.'' # ''elf'')"
    by (simp only: strstr_iff_sublist)
  from sublist_at_separator [OF this assms] show "suffix p s" by simp
next
  assume "suffix p s"
  then have "sublist (p @ ''.elf'') (s @ ''.elf'')"
    by (fastforce simp: suffix_def sublist_def simp del: append_Cons)
  then show "strstr (s @ ''.elf'') (p @ ''.elf'') \<noteq> None"
    by (simp only: strstr_iff_sublist)
qed

lemma select_build_suffix:
  assumes "CHR ''.'' \<notin> set s"
  shows "select_build (s @ ''.elf'') =
     (if suffix ''_cachedmulti'' s then BUILD_CACHED_MULTI
      else if suffix ''_multi'' s then BUILD_UNCACHED_MULTI
      else if suffix ''_cached'' s then BUILD_CACHED else BUILD_UNCACHED)"
  using strstr_elf [OF assms, of "''_cachedmulti''"] strstr_elf [OF assms, of "''_multi''"]
    strstr_elf [OF assms, of "''_cached''"]
  by (simp add: select_build_def)

lemma suffix_rev_Cons: "suffix p s \<longleftrightarrow> prefix (rev p) (rev s)"
  by (simp add: suffix_to_prefix)

text \<open>
  The build is recovered from the file name the makefiles give it: \<open>select_build\<close> on
  \<open>test\<close>, \<open>test_cached\<close>, \<open>test_multi\<close> and \<open>test_cachedmulti\<close> with \<open>.elf\<close> appended answers the
  build the suffix stands for, for every test name without a dot that does not itself end in
  such a suffix.
\<close>

lemma select_build_roundtrip: "test_name t \<Longrightarrow> select_build (elf_name t b) = b"
proof -
  assume t: "test_name t"
  then have dot: "CHR ''.'' \<notin> set (t @ build_suffix b)"
    by (cases b) (auto simp: test_name_def)
  have "\<not> suffix ''_cached'' t" "\<not> suffix ''_multi'' t" "\<not> suffix ''_cachedmulti'' t"
    using t by (auto simp: test_name_def dest: spec [of _ BUILD_CACHED]
        spec [of _ BUILD_UNCACHED_MULTI] spec [of _ BUILD_CACHED_MULTI])
  then show ?thesis
    using select_build_suffix [OF dot]
    by (cases b) (simp_all add: elf_name_def suffix_rev_Cons)
qed

lemma test_tlb_load_name: "test_name ''test_tlb_load''"
proof -
  have "\<not> suffix (build_suffix b) ''test_tlb_load''" if "b \<noteq> BUILD_UNCACHED" for b
    using that by (cases b) (simp_all add: suffix_rev_Cons)
  then show ?thesis by (simp add: test_name_def)
qed

text \<open>
  For any name at all: the build is the first of cached multi-core, multi-core and cached whose suffix,
  followed by \<open>.elf\<close>, occurs in the name.
\<close>

definition names_build :: "string \<Rightarrow> build \<Rightarrow> bool" where
  "names_build f b \<longleftrightarrow> sublist (elf_name '''' b) f"

definition build_of :: "string \<Rightarrow> build" where
  "build_of f =
     (if names_build f BUILD_CACHED_MULTI then BUILD_CACHED_MULTI
      else if names_build f BUILD_UNCACHED_MULTI then BUILD_UNCACHED_MULTI
      else if names_build f BUILD_CACHED then BUILD_CACHED
      else BUILD_UNCACHED)"

lemma select_build_of: "select_build f = build_of f"
  unfolding select_build_def strstr_iff_sublist build_of_def names_build_def elf_name_def by simp

text \<open>
  C12. For every path, \<open>select_init\<close> prints the linker script and the objects that the class of the
  test and the build in its file name ask for, whatever directory the path names, and exits with 0;
  without an object directory the objects are taken from \<open>obj\<close>. For the names the makefiles build
  (\<open>test\<close>, \<open>test_cached\<close>, \<open>test_multi\<close> and \<open>test_cachedmulti\<close> with \<open>.elf\<close> appended, where the
  name of the test has no dot and does not end like a build itself) the build is the one meant.
\<close>

theorem select_init_refines:
  assumes "path_to path f"
  shows "select_init_main prog (path # rest) =
      exit_ok (link_line (if rest = [] then ''obj'' else hd rest) (test_class_of f) (build_of f)) \<and>
    (\<forall>t b. f = elf_name t b \<longrightarrow> test_name t \<longrightarrow> build_of f = b)"
  using assms select_build_roundtrip
  by (auto simp: select_init_main_def basename_path_to Let_def strncmp_eq_prefix test_class_of_def
      print_link select_build_of split: list.split)

theorem select_init_refines_witness:
  "select_init_main ''select_init'' [''tests/tlb/test_tlb_load_cached.elf''] =
     exit_ok (''-Ttest_cached.ld obj/init_cached.o obj/init.o obj/lib.o'' @ [NL])"
proof -
  have f: "''test_tlb_load_cached.elf'' = elf_name ''test_tlb_load'' BUILD_CACHED"
    by (simp add: elf_name_def)
  have path: "path_to ''tests/tlb/test_tlb_load_cached.elf'' ''test_tlb_load_cached.elf''"
    unfolding path_to_def by (rule conjI, simp, rule disjI2, rule exI [of _ "''tests/tlb''"]) simp
  note r = select_init_refines [OF path, of "''select_init''" "[]"]
  have "build_of ''test_tlb_load_cached.elf'' = BUILD_CACHED"
    using conjunct2 [OF r] f test_tlb_load_name by blast
  then have "select_init_main ''select_init'' [''tests/tlb/test_tlb_load_cached.elf''] =
      exit_ok (link_line ''obj'' (test_class_of ''test_tlb_load_cached.elf'') BUILD_CACHED)"
    using conjunct1 [OF r] by (simp only: simp_thms if_True)
  then show ?thesis by (simp add: test_class_of_def link_defs)
qed

section \<open>max_cycles.c\<close>

definition long_tests :: "string list" where
  "long_tests =
     [''test_tlb_exception_fill.log'', ''test_tlb_exception_fill_cached.log'',
      ''test_tlb_exception_fill_multi.log'', ''test_tlb_exception_fill_cachedmulti.log'',
      ''test_cp2_tlb_exception_fill.log'', ''test_cp2_tlb_exception_fill_cached.log'',
      ''test_cp2_tlb_exception_fill_multi.log'', ''test_cp2_tlb_exception_fill_cachedmulti.log'',
      ''test_mc_llsc.log'', ''test_mc_llsc_cached.log'',
      ''test_mc_llsc_multi.log'', ''test_mc_llsc_cachedmulti.log'',
      ''test_mc_llsc_alias.log'', ''test_mc_llsc_alias_cached.log'',
      ''test_mc_llsc_alias_multi.log'', ''test_mc_llsc_alias_cachedmulti.log'',
      ''test_mc_tag_coherence.log'', ''test_mc_tag_coherence_cached.log'',
      ''test_mc_tag_coherence_multi.log'', ''test_mc_tag_coherence_cachedmulti.log'',
      ''test_mc_addr.log'', ''test_mc_addr_cached.log'',
      ''test_mc_addr_multi.log'', ''test_mc_addr_cachedmulti.log'',
      ''test_clang_memcpy.log'', ''test_clang_memcpy_cached.log'',
      ''test_clang_memcpy_multi.log'', ''test_clang_memcpy_cachedmulti.log'',
      ''test_clang_dhrystone_ipc.log'']"

definition max_cycles_main :: "string \<Rightarrow> string list \<Rightarrow> proc" where
  "max_cycles_main prog args =
     (case args of
        test # short # long # _ \<Rightarrow>
          let cp = basename test
          in exit_ok ((if cp \<in> set long_tests then long else short) @ [NL])
      | _ \<Rightarrow> exit_usage (''Usage: '' @ prog
               @ '' <name of test> <cycle count for short test> <cycle count for long test>''
               @ [NL]))"

definition slow_tests :: "string list" where
  "slow_tests = [''test_tlb_exception_fill'', ''test_cp2_tlb_exception_fill'', ''test_mc_llsc'',
     ''test_mc_llsc_alias'', ''test_mc_tag_coherence'', ''test_mc_addr'', ''test_clang_memcpy'']"

lemma long_tests_eq:
  "long_tests = concat (map (\<lambda>t. map (\<lambda>b. t @ build_suffix b @ ''.log'')
     [BUILD_UNCACHED, BUILD_CACHED, BUILD_UNCACHED_MULTI, BUILD_CACHED_MULTI]) slow_tests)
     @ [''test_clang_dhrystone_ipc.log'']"
  by code_simp

lemma ex_build: "(\<exists>b. P b) \<longleftrightarrow>
    (\<exists>b\<in>set [BUILD_UNCACHED, BUILD_CACHED, BUILD_UNCACHED_MULTI, BUILD_CACHED_MULTI]. P b)"
  by (simp, metis build.exhaust)

lemma in_table:
  "f \<in> set (concat (map (\<lambda>t. map (g t) bs) ts) @ [x]) \<longleftrightarrow>
     (\<exists>t\<in>set ts. \<exists>b\<in>set bs. f = g t b) \<or> f = x"
  by auto

lemma in_long_tests:
  "f \<in> set long_tests \<longleftrightarrow>
     (\<exists>t\<in>set slow_tests. \<exists>b. f = t @ build_suffix b @ ''.log'')
     \<or> f = ''test_clang_dhrystone_ipc.log''"
  unfolding long_tests_eq ex_build by (rule in_table)

text \<open>
  \<open>max_cycles\<close> grants the long cycle count to exactly the log files of the slow tests in
  all four builds and to the uncached log of the Dhrystone test, wherever the log lies, and the
  short count to every other log.
\<close>

theorem max_cycles_long:
  "path_to path f \<Longrightarrow>
     stdout (max_cycles_main prog [path, short, long]) =
       (if (\<exists>t\<in>set slow_tests. \<exists>b. f = t @ build_suffix b @ ''.log'')
            \<or> f = ''test_clang_dhrystone_ipc.log''
        then long else short) @ [NL]"
  by (simp only: in_long_tests [symmetric]) (simp add: max_cycles_main_def basename_path_to Let_def)

theorem max_cycles_long_witness:
  "stdout (max_cycles_main ''max_cycles'' [''log/test_mc_addr_multi.log'', ''1000'', ''90000'']) =
     ''90000'' @ [NL]"
proof -
  have "path_to ''log/test_mc_addr_multi.log'' ''test_mc_addr_multi.log''"
    unfolding path_to_def by (rule conjI, simp, rule disjI2, rule exI [of _ "''log''"]) simp
  moreover have "\<exists>t\<in>set slow_tests. \<exists>b. ''test_mc_addr_multi.log'' = t @ build_suffix b @ ''.log''"
    by (rule bexI [of _ "''test_mc_addr''"], rule exI [of _ BUILD_UNCACHED_MULTI])
      (simp_all add: slow_tests_def)
  ultimately show ?thesis by (simp add: max_cycles_long)
qed

end
