(* ===== verification/LogConvert.thy ===== *)
theory LogConvert
  imports CPrelude
begin

text \<open>
  The two filters that turn simulator output into the register dump the test framework reads:
  \<open>gxemultosim.c\<close> for the register listing of gxemul and \<open>l3tosim.c\<close> for the trace of the L3
  model. A filter that reads through a null pointer or in front of its buffer ends in a
  \<open>crash\<close>.
\<close>

datatype crash = Null_pointer | Out_of_bounds

section \<open>gxemultosim.c\<close>

definition reg_names :: "string list" where
  "reg_names =
     [''at = 0x'', ''v0 = 0x'', ''v1 = 0x'', ''a0 = 0x'', ''a1 = 0x'', ''a2 = 0x'', ''a3 = 0x'',
      ''t0 = 0x'', ''t1 = 0x'', ''t2 = 0x'', ''t3 = 0x'', ''t4 = 0x'', ''t5 = 0x'', ''t6 = 0x'',
      ''t7 = 0x'']"

record gx_state =
  gx_pc :: u64
  gx_reg :: "u64 list"

text \<open>
  The loop over the register names. After a match the pointer moves on to the second column,
  and becomes null when there is none; the loop goes on comparing through it.
\<close>

fun gx_scan :: "nat list \<Rightarrow> string option \<Rightarrow> u64 list \<Rightarrow> crash + u64 list" where
  "gx_scan [] cp reg = Inr reg"
| "gx_scan (j # js) None reg = Inl Null_pointer"
| "gx_scan (j # js) (Some cp) reg =
     (if strncmp_eq cp (reg_names ! j)
      then let reg1 = reg[j + 1 := strtoull16 (drop 7 cp)]
           in (case strstr (drop 7 cp) ''0x'' of
                 None \<Rightarrow> gx_scan js None reg1
               | Some c \<Rightarrow> gx_scan js (Some c) (reg1[j + 17 := strtoull16 (drop 2 c)]))
      else gx_scan js (Some cp) reg)"

definition gx_line :: "string \<Rightarrow> gx_state \<Rightarrow> crash + gx_state" where
  "gx_line buff st =
     (if strncmp_eq buff ''cpu0:''
      then let cp = dropWhile (\<lambda>c. c = CHR '' '') (drop 5 buff)
           in if strncmp_eq cp ''pc = 0x'' then Inr (st\<lparr>gx_pc := strtoull16 (drop 7 cp)\<rparr>)
              else if strncmp_eq cp ''s0 = 0x''
              then Inr (st\<lparr>gx_reg := (gx_reg st)[16 := strtoull16 (drop 7 cp)]\<rparr>)
              else (case gx_scan [0..<15] (Some cp) (gx_reg st) of
                      Inl e \<Rightarrow> Inl e
                    | Inr reg \<Rightarrow> Inr (st\<lparr>gx_reg := reg\<rparr>))
      else Inr st)"

fun gx_lines :: "string list \<Rightarrow> string \<Rightarrow> gx_state \<Rightarrow> crash + (string \<times> gx_state)" where
  "gx_lines [] out st = Inr (out, st)"
| "gx_lines (l # ls) out st =
     (case gx_line (cstr l) st of
        Inl e \<Rightarrow> Inl e
      | Inr st' \<Rightarrow> gx_lines ls (out @ cstr l) st')"

definition gx_print_reg :: "nat \<Rightarrow> u64 \<Rightarrow> string" where
  "gx_print_reg i v = ''DEBUG MIPS REG '' @ fmt_2d (int i) @ '' 0x'' @ fmt_016llx v @ [NL]"

definition gx_footer :: "u64 \<Rightarrow> u64 list \<Rightarrow> string" where
  "gx_footer pc reg =
     ''======   Registers   ======'' @ [NL]
     @ ''DEBUG MIPS COREID 0'' @ [NL]
     @ ''DEBUG MIPS PC 0x'' @ fmt_016llx pc @ [NL]
     @ concat (map (\<lambda>i. gx_print_reg i (reg ! i)) [0..<32])"

definition gx_init :: gx_state where
  "gx_init = \<lparr>gx_pc = 0, gx_reg = replicate 32 0\<rparr>"

definition gxemultosim_main :: "string \<Rightarrow> crash + proc" where
  "gxemultosim_main input =
     (case gx_lines (chunks 80 input) '''' gx_init of
        Inl e \<Rightarrow> Inl e
      | Inr (out, st) \<Rightarrow> Inr (exit_ok (out @ gx_footer (gx_pc st) (gx_reg st))))"

subsection \<open>The register listing it reads\<close>

text \<open>
  One line for the program counter, one for \<open>s0\<close>, and fifteen lines with two registers each,
  the second introduced by some text without an \<open>x\<close>.
\<close>

definition gx_col :: "string \<Rightarrow> u64 \<Rightarrow> string" where
  "gx_col name v = ''cpu0:  '' @ name @ fmt_016llx v"

definition gx_pair_line :: "string \<Rightarrow> nat \<Rightarrow> u64 \<Rightarrow> u64 \<Rightarrow> string" where
  "gx_pair_line sep j v w = gx_col (reg_names ! j) v @ sep @ ''0x'' @ fmt_016llx w @ [NL]"

definition gx_pair :: "(nat \<Rightarrow> string) \<Rightarrow> u64 list \<Rightarrow> nat \<Rightarrow> string" where
  "gx_pair sep reg j = gx_pair_line (sep j) j (reg ! (j + 1)) (reg ! (j + 17))"

definition gx_listing :: "(nat \<Rightarrow> string) \<Rightarrow> u64 \<Rightarrow> u64 list \<Rightarrow> string list" where
  "gx_listing sep pc reg =
     (gx_col ''pc = 0x'' pc @ [NL]) # (gx_col ''s0 = 0x'' (reg ! 16) @ [NL])
     # map (gx_pair sep reg) [0..<15]"

definition valid_sep :: "string \<Rightarrow> bool" where
  "valid_sep s \<longleftrightarrow> s \<noteq> [] \<and> \<not> is_digit 16 (hd s) \<and> length s \<le> 20
     \<and> CHR ''x'' \<notin> set s \<and> NL \<notin> set s \<and> NUL \<notin> set s"

lemma gx_scan_skip:
  "\<forall>j\<in>set js. \<not> strncmp_eq cp (reg_names ! j) \<Longrightarrow>
     gx_scan (js @ ks) (Some cp) reg = gx_scan ks (Some cp) reg"
  by (induction js) auto

lemma reg_names_table:
  "length reg_names = 15" "distinct reg_names"
  "list_all (\<lambda>n. length n = 7 \<and> n \<noteq> ''pc = 0x'' \<and> n \<noteq> ''s0 = 0x''
     \<and> hd n \<noteq> CHR ''0'' \<and> hd n \<noteq> CHR '' '') reg_names"
  by code_simp+

lemma reg_name_facts:
  assumes "j < 15"
  shows "length (reg_names ! j) = 7" "reg_names ! j \<noteq> ''pc = 0x''" "reg_names ! j \<noteq> ''s0 = 0x''"
    "hd (reg_names ! j) \<noteq> CHR ''0''" "hd (reg_names ! j) \<noteq> CHR '' ''"
  using assms reg_names_table(1,3) by (simp_all add: list_all_length)

lemma reg_name_inj: "i < 15 \<Longrightarrow> j < 15 \<Longrightarrow> reg_names ! i = reg_names ! j \<longleftrightarrow> i = j"
  using reg_names_table(1,2) by (simp add: nth_eq_iff_index_eq)

lemma no_name_at_0: "j < 15 \<Longrightarrow> \<not> strncmp_eq (CHR ''0'' # s) (reg_names ! j)"
proof -
  assume j: "j < 15"
  then obtain c n where "reg_names ! j = c # n" "c \<noteq> CHR ''0''"
    using reg_name_facts [OF j] by (cases "reg_names ! j") auto
  then show ?thesis by (simp add: strncmp_eq_def)
qed

text \<open>A line of two columns sets the two registers it names and no other.\<close>

lemma gx_scan_pair:
  assumes j: "j < 15" and sep: "valid_sep sep"
  shows "gx_scan [0..<15]
      (Some (reg_names ! j @ fmt_016llx v @ sep @ ''0x'' @ fmt_016llx w @ [NL])) reg
    = Inr (reg[j + 1 := v, j + 17 := w])"
proof -
  let ?cp = "reg_names ! j @ fmt_016llx v @ sep @ ''0x'' @ fmt_016llx w @ [NL]"
  let ?c = "CHR ''0'' # CHR ''x'' # fmt_016llx w @ [NL]"
  have split: "[0..<15] = [0..<j] @ j # ([Suc j..<15] @ [])"
    using j upt_add_eq_append [of 0 j "15 - j"] by (simp add: upt_conv_Cons [of j 15])
  have match: "strncmp_eq ?cp (reg_names ! i) \<longleftrightarrow> i = j" if "i < 15" for i
    using that j reg_name_facts(1) [OF j] reg_name_facts(1) [OF that]
    by (simp only: strncmp_eq_same_length) (auto simp: reg_name_inj)
  have v: "strtoull16 (drop 7 ?cp) = v"
    using sep reg_name_facts(1) [OF j] by (simp add: valid_sep_def strtoull16_fmt)
  have w: "strtoull16 (drop 2 ?c) = w"
    using strtoull16_fmt [of "[NL]" w] is_digit16_chars by simp
  have c: "strstr (drop 7 ?cp) ''0x'' = Some ?c"
    using strstr_0x [of "fmt_016llx v @ sep" "fmt_016llx w @ [NL]"] sep reg_name_facts(1) [OF j]
    by (simp add: valid_sep_def)
  have "gx_scan ([Suc j..<15] @ []) (Some ?c) reg' = gx_scan [] (Some ?c) reg'" for reg'
    by (rule gx_scan_skip) (auto simp: no_name_at_0)
  then show ?thesis
    unfolding split using match j v w c
    by (subst gx_scan_skip) (auto simp: Let_def)
qed

lemma gx_line_pair:
  "j < 15 \<Longrightarrow> valid_sep sep \<Longrightarrow>
     gx_line (gx_pair_line sep j v w) st =
       Inr (st\<lparr>gx_reg := (gx_reg st)[j + 1 := v, j + 17 := w]\<rparr>)"
proof -
  assume j: "j < 15" and sep: "valid_sep sep"
  have drop5: "dropWhile (\<lambda>c. c = CHR '' '') (drop 5 (gx_pair_line sep j v w)) =
      reg_names ! j @ fmt_016llx v @ sep @ ''0x'' @ fmt_016llx w @ [NL]"
    using reg_name_facts [OF j]
    by (cases "reg_names ! j") (auto simp: gx_pair_line_def gx_col_def)
  have "strncmp_eq (gx_pair_line sep j v w) ''cpu0:''"
    by (simp add: gx_pair_line_def gx_col_def strncmp_eq_def)
  then show ?thesis
    using reg_name_facts [OF j]
    by (simp only: gx_line_def drop5 Let_def)
      (simp add: strncmp_eq_same_length gx_scan_pair [OF j sep, simplified])
qed

lemma gx_line_pc: "gx_line (gx_col ''pc = 0x'' v @ [NL]) st = Inr (st\<lparr>gx_pc := v\<rparr>)"
  using strtoull16_fmt [of "[NL]" v]
  by (simp add: gx_line_def gx_col_def strncmp_eq_def Let_def is_digit16_chars)

lemma gx_line_s0:
  "gx_line (gx_col ''s0 = 0x'' v @ [NL]) st = Inr (st\<lparr>gx_reg := (gx_reg st)[16 := v]\<rparr>)"
  using strtoull16_fmt [of "[NL]" v]
  by (simp add: gx_line_def gx_col_def strncmp_eq_def Let_def is_digit16_chars)

definition gx_write_pair :: "u64 list \<Rightarrow> nat \<Rightarrow> u64 list \<Rightarrow> u64 list" where
  "gx_write_pair reg j r = r[j + 1 := reg ! (j + 1), j + 17 := reg ! (j + 17)]"

lemma gx_pair_line_cstr: "j < 15 \<Longrightarrow> valid_sep sep \<Longrightarrow> cstr (gx_pair_line sep j v w) = gx_pair_line sep j v w"
proof (rule cstr_id)
  assume j: "j < 15" and sep: "valid_sep sep"
  have "list_all (\<lambda>n. NUL \<notin> set n) reg_names" by code_simp
  with j have "NUL \<notin> set (reg_names ! j)" by (simp add: list_all_length reg_names_table)
  with sep show "NUL \<notin> set (gx_pair_line sep j v w)"
    by (simp add: gx_pair_line_def gx_col_def valid_sep_def)
qed

lemma gx_lines_pairs:
  assumes "\<forall>j\<in>set js. j < 15 \<and> valid_sep (sep j)"
  shows "gx_lines (map (gx_pair sep reg) js) out st =
    Inr (out @ concat (map (gx_pair sep reg) js),
      st\<lparr>gx_reg := fold (gx_write_pair reg) js (gx_reg st)\<rparr>)"
  using assms
proof (induction js arbitrary: out st)
  case Nil
  show ?case by simp
next
  case (Cons j js)
  then show ?case by (simp add: gx_pair_def gx_pair_line_cstr gx_line_pair gx_write_pair_def)
qed

lemma fold_write_pair_nth:
  "length r = 32 \<Longrightarrow> \<forall>j\<in>set js. j < 15 \<Longrightarrow> i < 32 \<Longrightarrow>
     length (fold (gx_write_pair reg) js r) = 32 \<and>
     fold (gx_write_pair reg) js r ! i =
       (if \<exists>j\<in>set js. i = j + 1 \<or> i = j + 17 then reg ! i else r ! i)"
proof (induction js arbitrary: r)
  case Nil
  then show ?case by simp
next
  case (Cons j js)
  have "length (gx_write_pair reg j r) = 32" using Cons.prems by (simp add: gx_write_pair_def)
  from Cons.IH [OF this] Cons.prems show ?case
    by (auto simp: gx_write_pair_def nth_list_update)
qed

lemma fold_write_all:
  assumes "length reg = 32" "reg ! 0 = 0"
  shows "fold (gx_write_pair reg) [0..<15] ((replicate 32 0)[16 := reg ! 16]) = reg"
proof (rule nth_equalityI)
  let ?r = "(replicate 32 0)[16 := reg ! 16] :: u64 list"
  have *: "length (fold (gx_write_pair reg) [0..<15] ?r) = 32 \<and>
      fold (gx_write_pair reg) [0..<15] ?r ! i =
       (if \<exists>j\<in>set [0..<15]. i = j + 1 \<or> i = j + 17 then reg ! i else ?r ! i)" if "i < 32" for i
    by (rule fold_write_pair_nth) (use that in auto)
  then show "length (fold (gx_write_pair reg) [0..<15] ?r) = length reg"
    using assms(1) by force
  fix i assume "i < length (fold (gx_write_pair reg) [0..<15] ?r)"
  with * assms(1) have i: "i < 32" by force
  have "i = 0 \<or> i = 16 \<or> (\<exists>j\<in>set [0..<15]. i = j + 1 \<or> i = j + 17)"
  proof (cases "i \<le> 16")
    case True
    then show ?thesis by (auto intro: bexI [of _ "i - 1"])
  next
    case False
    with i have "i - 17 \<in> set [0..<15]" "i = (i - 17) + 17" by auto
    then show ?thesis by blast
  qed
  with * [OF i] i assms show "fold (gx_write_pair reg) [0..<15] ?r ! i = reg ! i"
    by (auto simp: nth_list_update)
qed

lemma gx_listing_is_line:
  assumes "\<forall>j<15. valid_sep (sep j)"
  shows "\<forall>l\<in>set (gx_listing sep pc reg). is_line 80 l"
proof -
  have "is_line 80 (gx_pair_line (sep j) j v w)" if j: "j < 15" for j v w
  proof -
    have "list_all (\<lambda>n. NL \<notin> set n) reg_names" by code_simp
    with j have "NL \<notin> set (reg_names ! j)" by (simp add: list_all_length reg_names_table)
    with assms j reg_name_facts(1) [OF j] show ?thesis
      unfolding is_line_def gx_pair_line_def gx_col_def
      by (intro conjI exI [of _ "''cpu0:  '' @ reg_names ! j @ fmt_016llx v @ sep j @ ''0x'' @ fmt_016llx w"])
        (auto simp: valid_sep_def fmt_016llx_length)
  qed
  moreover have "is_line 80 (gx_col ''pc = 0x'' v @ [NL])" "is_line 80 (gx_col ''s0 = 0x'' v @ [NL])" for v
    by (auto simp: is_line_def gx_col_def fmt_016llx_length)
  ultimately show ?thesis by (auto simp: gx_listing_def gx_pair_def)
qed

text \<open>
  C37. Fed the register listing of any program counter and any 32 registers (register 0 being
  zero), \<open>gxemultosim\<close> echoes the listing and then reports exactly that program counter and
  those registers, whatever separates the two columns of a line.
\<close>

theorem gxemultosim_roundtrip:
  assumes "length reg = 32" "reg ! 0 = 0" "\<forall>j<15. valid_sep (sep j)"
  shows "gxemultosim_main (concat (gx_listing sep pc reg)) =
    Inr (exit_ok (concat (gx_listing sep pc reg) @ gx_footer pc reg))"
proof -
  have ch: "chunks 80 (concat (gx_listing sep pc reg)) = gx_listing sep pc reg"
    using gx_listing_is_line [OF assms(3)] by (rule chunks_lines)
  have cs: "cstr (gx_col ''pc = 0x'' v @ [NL]) = gx_col ''pc = 0x'' v @ [NL]"
    "cstr (gx_col ''s0 = 0x'' v @ [NL]) = gx_col ''s0 = 0x'' v @ [NL]" for v
    by (rule cstr_id, simp add: gx_col_def)+
  have "gx_lines (gx_listing sep pc reg) '''' gx_init =
      Inr (concat (gx_listing sep pc reg), \<lparr>gx_pc = pc, gx_reg = reg\<rparr>)"
    using assms(3) fold_write_all [OF assms(1,2)]
    by (simp add: gx_listing_def cs gx_line_pc gx_line_s0 gx_lines_pairs gx_init_def)
  then show ?thesis by (simp add: gxemultosim_main_def ch)
qed

theorem gxemultosim_roundtrip_witness:
  "gxemultosim_main (concat (gx_listing (\<lambda>_. ''   s = '') 7 (0 # replicate 31 5))) =
     Inr (exit_ok (concat (gx_listing (\<lambda>_. ''   s = '') 7 (0 # replicate 31 5))
       @ gx_footer 7 (0 # replicate 31 5)))"
proof -
  have "valid_sep ''   s = ''" using is_digit16_chars by (simp add: valid_sep_def)
  then show ?thesis by (intro gxemultosim_roundtrip) simp_all
qed

text \<open>
  A line that names one of the first fourteen registers and has no second column makes
  the filter read through a null pointer: the pointer that \<open>strstr\<close> returned is compared with
  the remaining register names before anything checks it again.
\<close>

theorem gx_single_column_crashes:
  "j < 14 \<Longrightarrow> gx_line (gx_col (reg_names ! j) v @ [NL]) st = Inl Null_pointer"
proof -
  assume j14: "j < 14"
  then have j: "j < 15" by simp
  let ?cp = "reg_names ! j @ fmt_016llx v @ [NL]"
  have split: "[0..<15] = [0..<j] @ j # Suc j # [Suc (Suc j)..<15]"
    using j14 upt_add_eq_append [of 0 j "15 - j"]
    by (simp add: upt_conv_Cons [of j 15] upt_conv_Cons [of "Suc j" 15])
  have match: "strncmp_eq ?cp (reg_names ! i) \<longleftrightarrow> i = j" if "i < 15" for i
    using that j reg_name_facts(1) [OF j] reg_name_facts(1) [OF that]
    by (simp only: strncmp_eq_same_length) (auto simp: reg_name_inj)
  have "\<not> sublist ''0x'' (drop 7 ?cp)"
    using reg_name_facts(1) [OF j] set_mono_sublist [of "''0x''" "drop 7 ?cp"] by auto
  then have none: "strstr (drop 7 ?cp) ''0x'' = None"
    using strstr_iff_sublist by blast
  have scan: "gx_scan [0..<15] (Some ?cp) reg = Inl Null_pointer" for reg
    unfolding split using match j none
    by (subst gx_scan_skip) (auto simp: Let_def)
  have drop5: "dropWhile (\<lambda>c. c = CHR '' '') (drop 5 (gx_col (reg_names ! j) v @ [NL])) = ?cp"
    using reg_name_facts [OF j] by (cases "reg_names ! j") (auto simp: gx_col_def)
  have "strncmp_eq (gx_col (reg_names ! j) v @ [NL]) ''cpu0:''"
    by (simp add: gx_col_def strncmp_eq_def)
  then show ?thesis
    using reg_name_facts [OF j]
    by (simp only: gx_line_def drop5 Let_def) (simp add: strncmp_eq_same_length scan)
qed

theorem gx_single_column_crashes_witness:
  "gx_line (gx_col ''a0 = 0x'' 1 @ [NL]) gx_init = Inl Null_pointer"
proof -
  have "reg_names ! 3 = ''a0 = 0x''" by (simp add: reg_names_def)
  then show ?thesis using gx_single_column_crashes [of 3 1 gx_init] by simp
qed

section \<open>l3tosim.c\<close>

text \<open>
  The 1023 characters of the buffer are kept, stale ones included: \<open>fgets\<close> overwrites a prefix
  and a terminating NUL, and the code reads at fixed positions behind it.
\<close>

definition strlen_at :: "nat \<Rightarrow> string \<Rightarrow> nat" where
  "strlen_at k buff = length (cstr (drop k buff))"

definition fill_buffer :: "string \<Rightarrow> string \<Rightarrow> string" where
  "fill_buffer chunk buff = chunk @ NUL # drop (length chunk + 1) buff"

record l3_state =
  l3_buff :: string
  l3_core :: int
  l3_out :: string

definition l3_dispatch :: "string \<Rightarrow> l3_state \<Rightarrow> l3_state" where
  "l3_dispatch buff st =
     (let line = cstr buff
      in if strncmp_eq line ''Reg '' \<and> strstr line ''<-'' = None
         then let buff = buff[6 := NUL];
                  reg_num = to_int32 (strtol (cstr (drop 4 buff)) 10)
              in st\<lparr>l3_buff := buff,
                   l3_out := l3_out st @ ''DEBUG MIPS REG '' @ fmt_2d reg_num @ '' 0x''
                     @ cstr (drop 7 buff) @ [NL]\<rparr>
         else if strncmp_eq line ''PC '' \<and> l3_core st = 0
         then st\<lparr>l3_buff := buff,
                l3_out := l3_out st @ ''DEBUG MIPS PC 0x'' @ cstr (drop 7 buff) @ [NL]\<rparr>
         else if strncmp_eq line ''Core = ''
         then let core = to_int32 (strtol (cstr (drop 7 buff)) 0)
              in st\<lparr>l3_buff := buff, l3_core := core,
                   l3_out := l3_out st @ ''DEBUG MIPS COREID '' @ fmt_d core @ [NL]\<rparr>
         else if strncmp_eq line ''DEBUG CAP''
         then st\<lparr>l3_buff := buff, l3_out := l3_out st @ line @ [NL]\<rparr>
         else st\<lparr>l3_buff := buff\<rparr>)"

definition l3_line :: "string \<Rightarrow> l3_state \<Rightarrow> crash + l3_state" where
  "l3_line chunk st =
     (let buff = fill_buffer chunk (l3_buff st);
          len = strlen_at 0 buff
      in if len = 0 then Inl Out_of_bounds
         else if buff ! (len - 1) = NL then Inr (l3_dispatch (buff[len - 1 := NUL]) st)
         else Inr (l3_dispatch buff st))"

fun l3_lines :: "string list \<Rightarrow> l3_state \<Rightarrow> crash + l3_state" where
  "l3_lines [] st = Inr st"
| "l3_lines (l # ls) st = (case l3_line l st of Inl e \<Rightarrow> Inl e | Inr st' \<Rightarrow> l3_lines ls st')"

text \<open>\<open>garbage\<close> is what the uninitialised buffer holds.\<close>

definition l3tosim_main :: "string \<Rightarrow> string \<Rightarrow> crash + proc" where
  "l3tosim_main garbage input =
     (case l3_lines (chunks 1023 input) \<lparr>l3_buff = garbage, l3_core = 0, l3_out = ''''\<rparr> of
        Inl e \<Rightarrow> Inl e
      | Inr st \<Rightarrow> Inr (exit_ok (l3_out st)))"

subsection \<open>The trace it reads\<close>

datatype l3_event =
    Reg_value nat u64
  | Reg_write nat u64
  | Pc_value u64
  | Core_id nat
  | Cap_dump string

fun l3_show :: "l3_event \<Rightarrow> string" where
  "l3_show (Reg_value n v) = ''Reg '' @ fmt_2d (int n) @ '' '' @ fmt_016llx v @ [NL]"
| "l3_show (Reg_write n v) = ''Reg '' @ fmt_2d (int n) @ '' <- '' @ fmt_016llx v @ [NL]"
| "l3_show (Pc_value v) = ''PC     '' @ fmt_016llx v @ [NL]"
| "l3_show (Core_id n) = ''Core = '' @ fmt_d (int n) @ [NL]"
| "l3_show (Cap_dump s) = ''DEBUG CAP'' @ s @ [NL]"

fun l3_valid :: "l3_event \<Rightarrow> bool" where
  "l3_valid (Reg_value n v) \<longleftrightarrow> n < 100"
| "l3_valid (Reg_write n v) \<longleftrightarrow> n < 100"
| "l3_valid (Pc_value v) \<longleftrightarrow> True"
| "l3_valid (Core_id n) \<longleftrightarrow> n < 100"
| "l3_valid (Cap_dump s) \<longleftrightarrow> NL \<notin> set s \<and> NUL \<notin> set s \<and> length s < 1000"

text \<open>What the test framework is to see of a trace, given the current core.\<close>

fun l3_report :: "nat \<Rightarrow> l3_event list \<Rightarrow> string" where
  "l3_report core [] = ''''"
| "l3_report core (Reg_value n v # es) =
     ''DEBUG MIPS REG '' @ fmt_2d (int n) @ '' 0x'' @ fmt_016llx v @ [NL] @ l3_report core es"
| "l3_report core (Reg_write n v # es) = l3_report core es"
| "l3_report core (Pc_value v # es) =
     (if core = 0 then ''DEBUG MIPS PC 0x'' @ fmt_016llx v @ [NL] else '''') @ l3_report core es"
| "l3_report core (Core_id n # es) =
     ''DEBUG MIPS COREID '' @ fmt_d (int n) @ [NL] @ l3_report n es"
| "l3_report core (Cap_dump s # es) = ''DEBUG CAP'' @ s @ [NL] @ l3_report core es"

lemma list_update_at: "length p = k \<Longrightarrow> (p @ c # s)[k := x] = p @ x # s"
  by (auto simp: list_update_append)

text \<open>After the newline of a full line has been cut off, the buffer starts with the line.\<close>

lemma l3_line_newline:
  assumes "t \<noteq> []" "NUL \<notin> set t"
  shows "strlen_at 0 (fill_buffer (t @ [NL]) buff) = Suc (length t)"
    "(fill_buffer (t @ [NL]) buff) ! length t = NL"
    "(fill_buffer (t @ [NL]) buff)[length t := NUL] = t @ NUL # NUL # drop (length t + 2) buff"
proof -
  have "cstr ((t @ [NL]) @ NUL # drop (length t + 2) buff) = t @ [NL]"
    by (rule cstr_NUL) (use assms in simp)
  then show "strlen_at 0 (fill_buffer (t @ [NL]) buff) = Suc (length t)"
    by (simp add: strlen_at_def fill_buffer_def)
qed (simp_all add: fill_buffer_def nth_append list_update_append)

lemma l3_line_eq:
  assumes "t \<noteq> []" "NUL \<notin> set t"
  shows "l3_line (t @ [NL]) st =
    Inr (l3_dispatch (t @ NUL # NUL # drop (length t + 2) (l3_buff st)) st)"
  using l3_line_newline [OF assms, of "l3_buff st"] by (simp add: l3_line_def Let_def)

lemma strstr_None_notin: "x \<in> set p \<Longrightarrow> x \<notin> set s \<Longrightarrow> strstr s p = None"
  using strstr_iff_sublist [of s p] set_mono_sublist [of p s] by auto

lemma l3_dispatch_reg_value:
  assumes "n < 100"
  shows "\<exists>b. l3_dispatch (''Reg '' @ fmt_2d (int n) @ '' '' @ fmt_016llx v @ NUL # r) st =
    st\<lparr>l3_buff := b, l3_out := l3_out st @ ''DEBUG MIPS REG '' @ fmt_2d (int n) @ '' 0x''
      @ fmt_016llx v @ [NL]\<rparr>"
proof -
  let ?d = "fmt_2d (int n)" and ?h = "fmt_016llx v"
  note f = fmt_2d_facts [OF assms]
  let ?t = "''Reg '' @ ?d @ '' '' @ ?h"
  have "\<not> is_digit 16 CHR ''<''" by code_simp
  then have lt: "CHR ''<'' \<notin> set ?t" using f fmt_016llx_set by simp
  have line: "cstr (''Reg '' @ ?d @ '' '' @ ?h @ NUL # r) = ?t"
    using cstr_NUL [of ?t r] f by simp
  have upd: "(''Reg '' @ ?d @ '' '' @ ?h @ NUL # r)[6 := NUL] = ''Reg '' @ ?d @ NUL # ?h @ NUL # r"
    using list_update_at [of "''Reg '' @ ?d" 6] f(1) by simp
  have num: "to_int32 (strtol (cstr (?d @ NUL # ?h @ NUL # r)) 10) = int n"
    using f assms by (simp add: cstr_NUL to_int32_id)
  have "cstr (?h @ NUL # r) = ?h" by (simp add: cstr_NUL)
  moreover have "strstr ?t ''<-'' = None" using lt by (intro strstr_None_notin [of "CHR ''<''"]) simp
  moreover have "strncmp_eq ?t ''Reg ''" by (simp add: strncmp_eq_def)
  ultimately show ?thesis
    unfolding l3_dispatch_def line Let_def upd using f(1) num by (intro exI) simp
qed

lemma l3_dispatch_reg_write:
  assumes "n < 100"
  shows "\<exists>b. l3_dispatch (''Reg '' @ fmt_2d (int n) @ '' <- '' @ fmt_016llx v @ NUL # r) st =
    st\<lparr>l3_buff := b\<rparr>"
proof -
  let ?t = "''Reg '' @ fmt_2d (int n) @ '' <- '' @ fmt_016llx v"
  have line: "cstr (''Reg '' @ fmt_2d (int n) @ '' <- '' @ fmt_016llx v @ NUL # r) = ?t"
    using cstr_NUL [of ?t r] fmt_2d_facts [OF assms] by simp
  have "sublist ''<-'' ?t"
    unfolding sublist_def
    by (rule exI [of _ "''Reg '' @ fmt_2d (int n) @ '' ''"], rule exI [of _ "'' '' @ fmt_016llx v"]) simp
  then have no: "(strstr ?t ''<-'' = None) = False" using strstr_iff_sublist by blast
  show ?thesis
    unfolding l3_dispatch_def line Let_def no
    by (intro exI [of _ "''Reg '' @ fmt_2d (int n) @ '' <- '' @ fmt_016llx v @ NUL # r"])
      (simp add: strncmp_eq_def del: strstr.simps)
qed

lemma l3_dispatch_pc:
  "\<exists>b. l3_dispatch (''PC     '' @ fmt_016llx v @ NUL # r) st =
    st\<lparr>l3_buff := b, l3_out := l3_out st @
      (if l3_core st = 0 then ''DEBUG MIPS PC 0x'' @ fmt_016llx v @ [NL] else '''')\<rparr>"
proof -
  have line: "cstr (''PC     '' @ fmt_016llx v @ NUL # r) = ''PC     '' @ fmt_016llx v"
    using cstr_NUL [of "''PC     '' @ fmt_016llx v" r] by simp
  show ?thesis
    unfolding l3_dispatch_def line Let_def
    by (rule exI [of _ "''PC     '' @ fmt_016llx v @ NUL # r"]) (simp add: strncmp_eq_def cstr_NUL)
qed

lemma l3_dispatch_core:
  assumes "n < 100"
  shows "\<exists>b. l3_dispatch (''Core = '' @ fmt_d (int n) @ NUL # r) st =
    st\<lparr>l3_buff := b, l3_core := int n,
      l3_out := l3_out st @ ''DEBUG MIPS COREID '' @ fmt_d (int n) @ [NL]\<rparr>"
proof -
  have d: "fmt_d (int n) = show_base 10 n" by (simp add: fmt_d_def)
  have line: "cstr (''Core = '' @ show_base 10 n @ NUL # r) = ''Core = '' @ show_base 10 n"
    using cstr_NUL [of "''Core = '' @ show_base 10 n" r] by simp
  have "to_int32 (strtol (show_base 10 n) 0) = int n"
    using assms strtol_dec [of n 0] by (simp add: to_int32_id)
  then show ?thesis
    unfolding l3_dispatch_def d line Let_def
    by (intro exI) (simp add: strncmp_eq_def cstr_NUL d)
qed

lemma l3_dispatch_cap:
  assumes "NUL \<notin> set s"
  shows "\<exists>b. l3_dispatch (''DEBUG CAP'' @ s @ NUL # r) st =
    st\<lparr>l3_buff := b, l3_out := l3_out st @ ''DEBUG CAP'' @ s @ [NL]\<rparr>"
proof -
  have line: "cstr (''DEBUG CAP'' @ s @ NUL # r) = ''DEBUG CAP'' @ s"
    using cstr_NUL [of "''DEBUG CAP'' @ s" r] assms by simp
  show ?thesis
    unfolding l3_dispatch_def line Let_def
    by (intro exI) (simp add: strncmp_eq_def)
qed

fun l3_text :: "l3_event \<Rightarrow> string" where
  "l3_text (Reg_value n v) = ''Reg '' @ fmt_2d (int n) @ '' '' @ fmt_016llx v"
| "l3_text (Reg_write n v) = ''Reg '' @ fmt_2d (int n) @ '' <- '' @ fmt_016llx v"
| "l3_text (Pc_value v) = ''PC     '' @ fmt_016llx v"
| "l3_text (Core_id n) = ''Core = '' @ fmt_d (int n)"
| "l3_text (Cap_dump s) = ''DEBUG CAP'' @ s"

fun l3_next_core :: "nat \<Rightarrow> l3_event \<Rightarrow> nat" where
  "l3_next_core core (Core_id n) = n"
| "l3_next_core core e = core"

lemma l3_report_Cons: "l3_report core (e # es) = l3_report core [e] @ l3_report (l3_next_core core e) es"
  by (cases e) simp_all

lemma l3_show_text: "l3_show e = l3_text e @ [NL]"
  by (cases e) simp_all

lemma l3_text_chars:
  "l3_valid e \<Longrightarrow> l3_text e \<noteq> [] \<and> NUL \<notin> set (l3_text e) \<and> NL \<notin> set (l3_text e)
     \<and> length (l3_text e) < 1022"
proof (cases e)
  case (Core_id n)
  moreover assume "l3_valid e"
  ultimately have "length (show_base 10 n) \<le> 2" by (intro show_base_length_le) auto
  with Core_id show ?thesis by (simp add: fmt_d_def)
qed (auto simp: fmt_2d_facts fmt_016llx_length)

lemma l3_same_core:
  "l3_core st = c \<Longrightarrow> st\<lparr>l3_buff := b, l3_core := c, l3_out := out\<rparr> = st\<lparr>l3_buff := b, l3_out := out\<rparr>"
  "l3_core st = c \<Longrightarrow> st\<lparr>l3_buff := b, l3_core := c\<rparr> = st\<lparr>l3_buff := b\<rparr>"
  by (cases st, simp)+

lemma l3_dispatch_event:
  assumes "l3_valid e" "l3_core st = int core"
  shows "\<exists>b. l3_dispatch (l3_text e @ NUL # r) st =
    st\<lparr>l3_buff := b, l3_core := int (l3_next_core core e),
      l3_out := l3_out st @ l3_report core [e]\<rparr>"
proof (cases e)
  case (Reg_value n v)
  then show ?thesis using l3_dispatch_reg_value [of n v r st] assms by (simp add: l3_same_core)
next
  case (Reg_write n v)
  then show ?thesis using l3_dispatch_reg_write [of n v r st] assms by (simp add: l3_same_core)
next
  case (Pc_value v)
  then show ?thesis using l3_dispatch_pc [of v r st] assms by (simp add: l3_same_core)
next
  case (Core_id n)
  then show ?thesis using l3_dispatch_core [of n r st] assms by (simp add: l3_same_core)
next
  case (Cap_dump s)
  then show ?thesis using l3_dispatch_cap [of s r st] assms by (simp add: l3_same_core)
qed

lemma l3_lines_report:
  "\<forall>e\<in>set es. l3_valid e \<Longrightarrow> l3_core st = int core \<Longrightarrow>
     \<exists>st'. l3_lines (map l3_show es) st = Inr st' \<and> l3_out st' = l3_out st @ l3_report core es"
proof (induction es arbitrary: st core)
  case Nil
  then show ?case by simp
next
  case (Cons e es)
  then have e: "l3_valid e" by simp
  let ?r = "NUL # drop (length (l3_text e) + 2) (l3_buff st)"
  obtain b where b: "l3_dispatch (l3_text e @ NUL # ?r) st =
      st\<lparr>l3_buff := b, l3_core := int (l3_next_core core e),
        l3_out := l3_out st @ l3_report core [e]\<rparr>" (is "_ = ?st")
    using l3_dispatch_event [OF e Cons.prems(2)] by blast
  have "l3_line (l3_show e) st = Inr ?st"
    using l3_line_eq [of "l3_text e" st] l3_text_chars [OF e] b by (simp add: l3_show_text)
  moreover obtain st' where "l3_lines (map l3_show es) ?st = Inr st'"
    "l3_out st' = l3_out ?st @ l3_report (l3_next_core core e) es"
    using Cons.IH [of ?st "l3_next_core core e"] Cons.prems by auto
  ultimately show ?case by (subst l3_report_Cons) simp
qed

text \<open>
  C11. \<open>l3tosim\<close> turns a trace of any length into the report the test framework reads: every
  register value, every core number and every capability dump in order, the program counter of
  core 0 only, and nothing for the register writes; what the buffer held before plays no part.
\<close>

theorem l3tosim_reports:
  assumes "\<forall>e\<in>set es. l3_valid e"
  shows "l3tosim_main garbage (concat (map l3_show es)) = Inr (exit_ok (l3_report 0 es))"
proof -
  have "\<forall>l\<in>set (map l3_show es). is_line 1023 l"
    using assms l3_text_chars by (fastforce simp: is_line_def l3_show_text)
  then have "chunks 1023 (concat (map l3_show es)) = map l3_show es"
    by (rule chunks_lines)
  moreover obtain st where "l3_lines (map l3_show es) \<lparr>l3_buff = garbage, l3_core = 0, l3_out = ''''\<rparr> = Inr st"
    "l3_out st = l3_report 0 es"
    using l3_lines_report [OF assms, of "\<lparr>l3_buff = garbage, l3_core = 0, l3_out = ''''\<rparr>" 0] by auto
  ultimately show ?thesis by (simp add: l3tosim_main_def)
qed

theorem l3tosim_reports_witness:
  "l3tosim_main '''' (concat (map l3_show [Core_id 1, Pc_value 3, Core_id 0, Pc_value 7, Reg_write 4 9])) =
     Inr (exit_ok (''DEBUG MIPS COREID 1'' @ [NL] @ ''DEBUG MIPS COREID 0'' @ [NL]
       @ ''DEBUG MIPS PC 0x0000000000000007'' @ [NL]))"
proof -
  have "l3_report 0 [Core_id 1, Pc_value 3, Core_id 0, Pc_value 7, Reg_write 4 9] =
      ''DEBUG MIPS COREID 1'' @ [NL] @ ''DEBUG MIPS COREID 0'' @ [NL]
       @ ''DEBUG MIPS PC 0x0000000000000007'' @ [NL]"
    by code_simp
  then show ?thesis
    using l3tosim_reports [of "[Core_id 1, Pc_value 3, Core_id 0, Pc_value 7, Reg_write 4 9]" "''''"]
    by simp
qed

end
