(* ===== verification/ByteOrder.thy ===== *)
theory ByteOrder
  imports CPrelude
begin

text \<open>
  Words as bytes, most significant byte first or in the order of a host: what the ELF writer and
  the capability memory share.
\<close>

section \<open>Bytes and words\<close>

definition be_nat :: "u8 list \<Rightarrow> nat" where
  "be_nat bs = foldl (\<lambda>a b. a * 256 + unat b) 0 bs"

definition be_bytes :: "nat \<Rightarrow> 'a::len word \<Rightarrow> u8 list" where
  "be_bytes k w = map (\<lambda>i. word_of_nat (unat w div 256 ^ (k - 1 - i))) [0..<k]"

definition host_bytes :: "bool \<Rightarrow> nat \<Rightarrow> 'a::len word \<Rightarrow> u8 list" where
  "host_bytes le k w = (if le then rev (be_bytes k w) else be_bytes k w)"

definition host_word :: "bool \<Rightarrow> u8 list \<Rightarrow> 'a::len word" where
  "host_word le bs = word_of_nat (be_nat (if le then rev bs else bs))"

lemma length_be_bytes [simp]: "length (be_bytes k w) = k"
  by (simp add: be_bytes_def)

lemma be_nat_snoc: "be_nat (bs @ [b]) = be_nat bs * 256 + unat b"
  by (simp add: be_nat_def)

lemma be_nat_bound: "be_nat bs < 256 ^ length bs"
proof (induction bs rule: rev_induct)
  case Nil
  show ?case by (simp add: be_nat_def)
next
  case (snoc b bs)
  have "unat b < 256" using unsigned_less [of b] by simp
  with snoc show ?case by (simp add: be_nat_snoc)
qed

lemma be_nat_nth:
  "i < length bs \<Longrightarrow> be_nat bs div 256 ^ (length bs - 1 - i) mod 256 = unat (bs ! i)"
proof (induction bs arbitrary: i rule: rev_induct)
  case Nil
  then show ?case by simp
next
  case (snoc b bs)
  have b: "unat b < 256" using unsigned_less [of b] by simp
  show ?case
  proof (cases "i = length bs")
    case True
    with b show ?thesis by (simp add: be_nat_snoc nth_append)
  next
    case False
    with snoc.prems have i: "i < length bs" by simp
    then have "length bs - i = Suc (length bs - 1 - i)" by simp
    with b have "(be_nat bs * 256 + unat b) div 256 ^ (length bs - i) =
        be_nat bs div 256 ^ (length bs - 1 - i)"
      by (simp add: div_mult2_eq)
    with i snoc.IH [OF i] show ?thesis by (simp add: be_nat_snoc nth_append)
  qed
qed

lemma be_bytes_host_word:
  assumes "length bs = k" "LENGTH('a::len) = 8 * k"
  shows "be_bytes k (word_of_nat (be_nat bs) :: 'a word) = bs"
proof (rule nth_equalityI)
  have "be_nat bs < 2 ^ LENGTH('a)"
    using be_nat_bound [of bs] assms by (simp add: power_mult)
  then have u: "unat (word_of_nat (be_nat bs) :: 'a word) = be_nat bs"
    by (simp only: unat_of_nat mod_less)
  fix i assume "i < length (be_bytes k (word_of_nat (be_nat bs) :: 'a word))"
  then have "i < k" by simp
  then have "unat (be_bytes k (word_of_nat (be_nat bs) :: 'a word) ! i) = unat (bs ! i)"
    using be_nat_nth [of i bs] assms(1) by (simp add: be_bytes_def u unat_of_nat [where 'a=8])
  then show "be_bytes k (word_of_nat (be_nat bs) :: 'a word) ! i = bs ! i"
    by (rule word_unat_eq_iff [THEN iffD2])
qed (use assms in simp)

lemma host_bytes_host_word:
  "length bs = k \<Longrightarrow> LENGTH('a::len) = 8 * k \<Longrightarrow> host_bytes le k (host_word le bs :: 'a word) = bs"
  by (simp add: host_bytes_def host_word_def be_bytes_host_word)

lemma be_bytes_inject:
  assumes "LENGTH('a::len) = 8 * k"
  shows "word_of_nat (be_nat (be_bytes k (w::'a word))) = w"
proof -
  have "be_nat (map (\<lambda>i. word_of_nat (n div 256 ^ (j - 1 - i)) :: u8) [0..<j]) = n mod 256 ^ j" for n j
  proof (induction j arbitrary: n)
    case 0
    show ?case by (simp add: be_nat_def)
  next
    case (Suc j)
    have "n div 256 ^ (j - i) = n div 256 div 256 ^ (j - 1 - i)" if "i < j" for i
    proof -
      have "j - i = Suc (j - 1 - i)" using that by simp
      then show ?thesis by (metis div_mult2_eq power_Suc)
    qed
    then have "map (\<lambda>i. word_of_nat (n div 256 ^ (j - i)) :: u8) [0..<j] =
        map (\<lambda>i. word_of_nat (n div 256 div 256 ^ (j - 1 - i))) [0..<j]"
      by (intro map_cong) auto
    then have "be_nat (map (\<lambda>i. word_of_nat (n div 256 ^ (Suc j - 1 - i)) :: u8) [0..<Suc j]) =
        (n div 256) mod 256 ^ j * 256 + n mod 256"
      using Suc [of "n div 256"] by (simp add: be_nat_snoc unat_of_nat del: map_eq_conv)
    also have "\<dots> = n mod 256 ^ Suc j"
      by (simp add: mod_mult2_eq)
    finally show ?case .
  qed
  from this [of "unat w" k] have "be_nat (be_bytes k w) = unat w mod 256 ^ k"
    by (simp add: be_bytes_def)
  also have "256 ^ k = (2::nat) ^ LENGTH('a)" using assms by (simp add: power_mult)
  also have "unat w mod 2 ^ LENGTH('a) = unat w" by (simp add: unsigned_less)
  finally show ?thesis by simp
qed

lemma be_nat_be_bytes:
  assumes "LENGTH('a::len) = 8 * k"
  shows "be_nat (be_bytes k (w::'a word)) = unat w"
proof -
  have "be_nat (be_bytes k w) < 2 ^ LENGTH('a)"
    using be_nat_bound [of "be_bytes k w"] assms by (simp add: power_mult)
  then show ?thesis
    using be_bytes_inject [OF assms, of w] by (metis unat_of_nat mod_less)
qed

end
