(* ===== verification/ElfHdr.thy ===== *)
theory ElfHdr
  imports ByteOrder
begin

text \<open>
  \<open>elfhdr.c\<close>: wraps a raw memory image into a big-endian 64-bit MIPS ELF executable. The byte
  order of the machine the tool runs on is a parameter (\<open>le\<close>: little-endian); the structures of
  \<open>elf.h\<close> are records whose fields are stored in that order, as \<open>fwrite\<close> of a structure does.
\<close>

section \<open>The conversions\<close>

text \<open>\<open>flip64\<close> stores the bytes of its argument, most significant first, and reads them back.\<close>

definition flip64_bytes :: "u64 \<Rightarrow> u8 list" where
  "flip64_bytes x =
     map ucast [drop_bit 56 x AND 0xff, drop_bit 48 x AND 0xff, drop_bit 40 x AND 0xff,
       drop_bit 32 x AND 0xff, drop_bit 24 x AND 0xff, drop_bit 16 x AND 0xff,
       drop_bit 8 x AND 0xff, x AND 0xff]"

definition flip64 :: "bool \<Rightarrow> u64 \<Rightarrow> u64" where
  "flip64 le x = host_word le (flip64_bytes x)"

definition htons :: "bool \<Rightarrow> u16 \<Rightarrow> u16" where
  "htons le x = host_word le (be_bytes 2 x)"

definition htonl :: "bool \<Rightarrow> u32 \<Rightarrow> u32" where
  "htonl le x = host_word le (be_bytes 4 x)"

lemma ucast_and_ff: "(ucast (x AND 0xff) :: u8) = ucast (x :: u64)"
proof -
  have m: "(0xff :: u64) = mask 8" by (simp add: mask_eq_exp_minus_1)
  show ?thesis unfolding m by (auto intro!: bit_word_eqI simp: bit_ucast_iff bit_and_iff bit_mask_iff)
qed

lemma ucast_shift: "(ucast (drop_bit (8 * k) x) :: u8) = word_of_nat (unat (x :: u64) div 256 ^ k)"
proof -
  have "unat (drop_bit (8 * k) x) = drop_bit (8 * k) (unat x)"
    using unsigned_less [of x, where ?'a = nat]
    by (simp add: unsigned_drop_bit_eq take_bit_nat_eq_self)
  also have "\<dots> = unat x div 256 ^ k" by (simp add: drop_bit_eq_div power_mult)
  finally have "unat (ucast (drop_bit (8 * k) x) :: u8) = unat x div 256 ^ k mod 256"
    by (simp add: unsigned_ucast_eq take_bit_eq_mod)
  then show ?thesis by (intro word_unat_eq_iff [THEN iffD2]) (simp add: unat_of_nat)
qed

lemma flip64_bytes_be: "flip64_bytes x = be_bytes 8 x"
proof -
  have "be_bytes 8 x = map (\<lambda>i. ucast (drop_bit (8 * (8 - 1 - i)) x)) [0..<8]"
    by (simp only: be_bytes_def ucast_shift)
  also have "\<dots> = flip64_bytes x"
    by (simp add: flip64_bytes_def ucast_and_ff upt_rec)
  finally show ?thesis by simp
qed

lemma stored_big_endian:
  "host_bytes le 8 (flip64 le x) = be_bytes 8 x"
  "host_bytes le 4 (htonl le y) = be_bytes 4 y"
  "host_bytes le 2 (htons le z) = be_bytes 2 z"
  by (simp_all add: flip64_def htonl_def htons_def host_bytes_host_word flip64_bytes_be)

section \<open>The structures of elf.h\<close>

record Elf64_Ehdr =
  e_ident :: "u8 list"
  e_type :: u16
  e_machine :: u16
  e_version :: u32
  e_entry :: u64
  e_phoff :: u64
  e_shoff :: u64
  e_flags :: u32
  e_ehsize :: u16
  e_phentsize :: u16
  e_phnum :: u16
  e_shentsize :: u16
  e_shnum :: u16
  e_shstrndx :: u16

record Elf64_Phdr =
  p_type :: u32
  p_flags :: u32
  p_offset :: u64
  p_vaddr :: u64
  p_paddr :: u64
  p_filesz :: u64
  p_memsz :: u64
  p_align :: u64

record Elf64_Shdr =
  sh_name :: u32
  sh_type :: u32
  sh_flags :: u64
  sh_addr :: u64
  sh_offset :: u64
  sh_size :: u64
  sh_link :: u32
  sh_info :: u32
  sh_addralign :: u64
  sh_entsize :: u64

definition sizeof_Ehdr :: nat where "sizeof_Ehdr = 64"
definition sizeof_Phdr :: nat where "sizeof_Phdr = 56"
definition sizeof_Shdr :: nat where "sizeof_Shdr = 64"

text \<open>The bytes of a structure in memory, field after field, as \<open>fwrite\<close> copies them.\<close>

definition ehdr_bytes :: "bool \<Rightarrow> Elf64_Ehdr \<Rightarrow> u8 list" where
  "ehdr_bytes le h =
     e_ident h @ host_bytes le 2 (e_type h) @ host_bytes le 2 (e_machine h)
     @ host_bytes le 4 (e_version h) @ host_bytes le 8 (e_entry h) @ host_bytes le 8 (e_phoff h)
     @ host_bytes le 8 (e_shoff h) @ host_bytes le 4 (e_flags h) @ host_bytes le 2 (e_ehsize h)
     @ host_bytes le 2 (e_phentsize h) @ host_bytes le 2 (e_phnum h)
     @ host_bytes le 2 (e_shentsize h) @ host_bytes le 2 (e_shnum h)
     @ host_bytes le 2 (e_shstrndx h)"

definition phdr_bytes :: "bool \<Rightarrow> Elf64_Phdr \<Rightarrow> u8 list" where
  "phdr_bytes le p =
     host_bytes le 4 (p_type p) @ host_bytes le 4 (p_flags p) @ host_bytes le 8 (p_offset p)
     @ host_bytes le 8 (p_vaddr p) @ host_bytes le 8 (p_paddr p) @ host_bytes le 8 (p_filesz p)
     @ host_bytes le 8 (p_memsz p) @ host_bytes le 8 (p_align p)"

definition shdr_bytes :: "bool \<Rightarrow> Elf64_Shdr \<Rightarrow> u8 list" where
  "shdr_bytes le s =
     host_bytes le 4 (sh_name s) @ host_bytes le 4 (sh_type s) @ host_bytes le 8 (sh_flags s)
     @ host_bytes le 8 (sh_addr s) @ host_bytes le 8 (sh_offset s) @ host_bytes le 8 (sh_size s)
     @ host_bytes le 4 (sh_link s) @ host_bytes le 4 (sh_info s)
     @ host_bytes le 8 (sh_addralign s) @ host_bytes le 8 (sh_entsize s)"

text \<open>\<open>memset (&x, 0, sizeof (x))\<close>\<close>

definition zero_Ehdr :: Elf64_Ehdr where
  "zero_Ehdr = \<lparr>e_ident = replicate 16 0, e_type = 0, e_machine = 0, e_version = 0, e_entry = 0,
     e_phoff = 0, e_shoff = 0, e_flags = 0, e_ehsize = 0, e_phentsize = 0, e_phnum = 0,
     e_shentsize = 0, e_shnum = 0, e_shstrndx = 0\<rparr>"

definition zero_Phdr :: Elf64_Phdr where
  "zero_Phdr = \<lparr>p_type = 0, p_flags = 0, p_offset = 0, p_vaddr = 0, p_paddr = 0, p_filesz = 0,
     p_memsz = 0, p_align = 0\<rparr>"

definition zero_Shdr :: Elf64_Shdr where
  "zero_Shdr = \<lparr>sh_name = 0, sh_type = 0, sh_flags = 0, sh_addr = 0, sh_offset = 0, sh_size = 0,
     sh_link = 0, sh_info = 0, sh_addralign = 0, sh_entsize = 0\<rparr>"

section \<open>main\<close>

definition strtab :: "u8 list" where
  "strtab = [0] @ map of_char ''.shstrtab'' @ [0] @ map of_char ''.data'' @ [0]"

definition elf_header :: "bool \<Rightarrow> Elf64_Ehdr" where
  "elf_header le = zero_Ehdr\<lparr>
     e_ident := (replicate 16 0)[0 := 0x7f, 1 := of_char CHR ''E'', 2 := of_char CHR ''L'',
       3 := of_char CHR ''F'', 4 := 2, 5 := 2, 6 := 1],
     e_type := htons le 2,
     e_machine := htons le 8,
     e_version := htonl le 1,
     e_entry := flip64 le 0x9000000040000000,
     e_phoff := flip64 le (of_nat sizeof_Ehdr),
     e_shoff := flip64 le (of_nat (sizeof_Ehdr + sizeof_Phdr)),
     e_flags := htonl le 0x60000001,
     e_ehsize := htons le (of_nat sizeof_Ehdr),
     e_phentsize := htons le (of_nat sizeof_Phdr),
     e_phnum := htons le 1,
     e_shentsize := htons le (of_nat sizeof_Shdr),
     e_shnum := htons le 3,
     e_shstrndx := htons le 2\<rparr>"

definition elf_program :: "bool \<Rightarrow> u64 \<Rightarrow> Elf64_Phdr" where
  "elf_program le st_size = zero_Phdr\<lparr>
     p_type := htonl le 1,
     p_flags := htonl le (4 OR 2 OR 1),
     p_offset := flip64 le 1024,
     p_vaddr := flip64 le 0x9000000040000000,
     p_paddr := flip64 le 0x40000000,
     p_filesz := flip64 le st_size,
     p_memsz := flip64 le st_size,
     p_align := flip64 le 1024\<rparr>"

definition elf_section0 :: "bool \<Rightarrow> Elf64_Shdr" where
  "elf_section0 le = zero_Shdr\<lparr>sh_name := 0, sh_type := htonl le 0, sh_size := flip64 le 0\<rparr>"

definition elf_section1 :: "bool \<Rightarrow> u64 \<Rightarrow> Elf64_Shdr" where
  "elf_section1 le st_size = zero_Shdr\<lparr>
     sh_name := htonl le 11,
     sh_type := htonl le 1,
     sh_flags := flip64 le (1 OR 2 OR 4),
     sh_addr := flip64 le 0x9000000040000000,
     sh_offset := flip64 le 1024,
     sh_size := flip64 le st_size,
     sh_addralign := flip64 le 8\<rparr>"

definition elf_section2 :: "bool \<Rightarrow> Elf64_Shdr" where
  "elf_section2 le = zero_Shdr\<lparr>
     sh_name := htonl le 1,
     sh_type := htonl le 3,
     sh_offset := flip64 le (of_nat (sizeof_Ehdr + sizeof_Phdr + 3 * sizeof_Shdr)),
     sh_size := flip64 le (of_nat (length strtab)),
     sh_entsize := flip64 le 0\<rparr>"

text \<open>A write at a position behind the end of the file leaves zeros in the gap.\<close>

definition write_at :: "nat \<Rightarrow> u8 list \<Rightarrow> u8 list \<Rightarrow> u8 list" where
  "write_at pos bs file =
     (if bs = [] then file
      else take pos (file @ replicate (pos - length file) 0) @ bs @ drop (pos + length bs) file)"

text \<open>
  \<open>fgetc\<close> answers \<open>EOF\<close> behind the last byte, which \<open>fputc\<close> writes as \<open>0xff\<close>. The counter of the
  loop is an \<open>int\<close>: the byte with the number \<open>INT_MAX\<close> can be copied, but incrementing the counter
  after it overflows, which C leaves undefined.
\<close>

datatype elf_error = Counter_overflow

definition INT_MAX :: int where "INT_MAX = 2 ^ 31 - 1"

definition fgetc_fputc :: "int \<Rightarrow> u8 list \<Rightarrow> u8" where
  "fgetc_fputc i content = (if nat i < length content then content ! nat i else 0xff)"

function copied :: "int \<Rightarrow> int \<Rightarrow> u8 list \<Rightarrow> elf_error + u8 list" where
  "copied i st_size content =
     (if i < st_size
      then (if i = INT_MAX then Inl Counter_overflow
            else map_sum id ((#) (fgetc_fputc i content)) (copied (i + 1) st_size content))
      else Inr [])"
  by pat_completeness auto
termination by (relation "measure (\<lambda>(i, st_size, content). nat (st_size - i))") auto

declare copied.simps [simp del]

lemma copied_short:
  assumes "0 \<le> i" "st_size \<le> INT_MAX"
  shows "copied i st_size content = Inr (map (\<lambda>j. fgetc_fputc (int j) content) [nat i..<nat st_size])"
  using assms
proof (induction i st_size content rule: copied.induct)
  case (1 i st_size content)
  show ?case
  proof (cases "i < st_size")
    case True
    then have "[nat i..<nat st_size] = nat i # [nat (i + 1)..<nat st_size]"
      using 1(2) by (simp add: upt_conv_Cons nat_add_distrib)
    then show ?thesis
      using 1 True by (subst copied.simps) simp
  next
    case False
    then show ?thesis using 1(2) by (subst copied.simps) simp
  qed
qed

lemma copied_long:
  "i \<le> INT_MAX \<Longrightarrow> INT_MAX < st_size \<Longrightarrow> copied i st_size content = Inl Counter_overflow"
proof (induction i st_size content rule: copied.induct)
  case (1 i st_size content)
  then show ?case by (subst copied.simps) auto
qed

definition elf_file :: "bool \<Rightarrow> nat \<Rightarrow> u8 list \<Rightarrow> elf_error + u8 list" where
  "elf_file le st_size content =
     (let n = of_nat st_size;
          headers = ehdr_bytes le (elf_header le) @ phdr_bytes le (elf_program le n)
            @ shdr_bytes le (elf_section0 le) @ shdr_bytes le (elf_section1 le n)
            @ shdr_bytes le (elf_section2 le) @ strtab
      in map_sum id (\<lambda>bytes. write_at 1024 bytes headers) (copied 0 (int st_size) content))"

text \<open>
  The environment: what \<open>stat\<close> answers for the input, its content if it opens, and whether the
  output opens. The result is the process and the output file, if one was written, or the overflow of
  the counter.
\<close>

definition elfhdr_main ::
  "bool \<Rightarrow> string list \<Rightarrow> nat option \<Rightarrow> u8 list option \<Rightarrow> bool \<Rightarrow>
   elf_error + proc \<times> u8 list option" where
  "elfhdr_main le args stat_size input out_opens =
     (case args of
        fname_in # fname_out # _ \<Rightarrow>
          (case stat_size of
             None \<Rightarrow> Inr (exit_usage (''Couldn't fstat '' @ fname_in @ [NL]), None)
           | Some st_size \<Rightarrow>
               (case input of
                  None \<Rightarrow> Inr (exit_usage (''Couldn't open '' @ fname_in @ [NL]), None)
                | Some content \<Rightarrow>
                    if \<not> out_opens
                    then Inr (exit_usage (''Couldn't open '' @ fname_out @ [NL]), None)
                    else map_sum id (\<lambda>f. (exit_ok '''', Some f)) (elf_file le st_size content)))
      | _ \<Rightarrow> Inr (exit_usage (''Usage: elfhdr <input file> <output file>'' @ [NL]), None))"

section \<open>Reading the file back\<close>

text \<open>An independent reader of big-endian ELF files: the loadable segment and the sections.\<close>

definition read_be :: "nat \<Rightarrow> nat \<Rightarrow> u8 list \<Rightarrow> nat option" where
  "read_be k off f = (if off + k \<le> length f then Some (be_nat (take k (drop off f))) else None)"

definition load_elf :: "u8 list \<Rightarrow> (nat \<times> nat \<times> u8 list) option" where
  "load_elf f =
     (if take 7 f \<noteq> [0x7f, 0x45, 0x4c, 0x46, 2, 2, 1] then None
      else Option.bind (read_be 8 24 f) (\<lambda>entry.
        Option.bind (read_be 8 32 f) (\<lambda>phoff.
        Option.bind (read_be 4 phoff f) (\<lambda>ptype.
        Option.bind (read_be 8 (phoff + 8) f) (\<lambda>off.
        Option.bind (read_be 8 (phoff + 16) f) (\<lambda>vaddr.
        Option.bind (read_be 8 (phoff + 32) f) (\<lambda>filesz.
          if ptype = 1 \<and> off + filesz \<le> length f
          then Some (entry, vaddr, take filesz (drop off f)) else None)))))))"

definition section_field :: "nat \<Rightarrow> nat \<Rightarrow> nat \<Rightarrow> u8 list \<Rightarrow> nat option" where
  "section_field i k off f =
     Option.bind (read_be 8 40 f) (\<lambda>shoff. Option.bind (read_be 2 60 f) (\<lambda>shnum.
       if i < shnum then read_be k (shoff + 64 * i + off) f else None))"

definition section_name :: "nat \<Rightarrow> u8 list \<Rightarrow> u8 list option" where
  "section_name i f =
     Option.bind (read_be 2 62 f) (\<lambda>shstrndx.
     Option.bind (section_field shstrndx 8 24 f) (\<lambda>strings.
     Option.bind (section_field i 4 0 f) (\<lambda>name.
       Some (takeWhile (\<lambda>b. b \<noteq> 0) (drop (strings + name) f)))))"

definition section_data :: "nat \<Rightarrow> u8 list \<Rightarrow> u8 list option" where
  "section_data i f =
     Option.bind (section_field i 8 24 f) (\<lambda>off. Option.bind (section_field i 8 32 f) (\<lambda>len.
       Some (take len (drop off f))))"

text \<open>The header part of the file, independent of the machine that wrote it.\<close>

definition elf_headers :: "u64 \<Rightarrow> u8 list" where
  "elf_headers n =
     [0x7f, 0x45, 0x4c, 0x46, 2, 2, 1] @ replicate 9 0
     @ be_bytes 2 (2 :: u16) @ be_bytes 2 (8 :: u16) @ be_bytes 4 (1 :: u32)
     @ be_bytes 8 (0x9000000040000000 :: u64) @ be_bytes 8 (64 :: u64) @ be_bytes 8 (120 :: u64)
     @ be_bytes 4 (0x60000001 :: u32) @ be_bytes 2 (64 :: u16) @ be_bytes 2 (56 :: u16)
     @ be_bytes 2 (1 :: u16) @ be_bytes 2 (64 :: u16) @ be_bytes 2 (3 :: u16) @ be_bytes 2 (2 :: u16)
     @ be_bytes 4 (1 :: u32) @ be_bytes 4 (7 :: u32) @ be_bytes 8 (1024 :: u64)
     @ be_bytes 8 (0x9000000040000000 :: u64) @ be_bytes 8 (0x40000000 :: u64)
     @ be_bytes 8 n @ be_bytes 8 n @ be_bytes 8 (1024 :: u64)
     @ replicate 4 0 @ replicate 4 0 @ replicate 8 0 @ replicate 8 0 @ replicate 8 0
     @ replicate 8 0 @ replicate 4 0 @ replicate 4 0 @ replicate 8 0 @ replicate 8 0
     @ be_bytes 4 (11 :: u32) @ be_bytes 4 (1 :: u32) @ be_bytes 8 (7 :: u64)
     @ be_bytes 8 (0x9000000040000000 :: u64) @ be_bytes 8 (1024 :: u64) @ be_bytes 8 n
     @ replicate 4 0 @ replicate 4 0 @ be_bytes 8 (8 :: u64) @ replicate 8 0
     @ be_bytes 4 (1 :: u32) @ be_bytes 4 (3 :: u32) @ replicate 8 0 @ replicate 8 0
     @ be_bytes 8 (312 :: u64) @ be_bytes 8 (17 :: u64)
     @ replicate 4 0 @ replicate 4 0 @ replicate 8 0 @ replicate 8 0
     @ [0, 0x2e, 0x73, 0x68, 0x73, 0x74, 0x72, 0x74, 0x61, 0x62, 0, 0x2e, 0x64, 0x61, 0x74, 0x61, 0]"

lemma be_bytes_0: "be_bytes k (0 :: 'a::len word) = replicate k 0"
  by (rule nth_equalityI) (simp_all add: be_bytes_def)

lemma zero_fields: "host_bytes le k (0 :: 'a::len word) = replicate k 0"
  by (simp add: host_bytes_def be_bytes_0)

lemma strtab_bytes:
  "strtab = [0, 0x2e, 0x73, 0x68, 0x73, 0x74, 0x72, 0x74, 0x61, 0x62, 0, 0x2e, 0x64, 0x61, 0x74, 0x61, 0]"
  by (simp add: strtab_def)

lemma length_elf_headers: "length (elf_headers n) = 329"
  by (simp add: elf_headers_def)

lemmas elf_structs = ehdr_bytes_def phdr_bytes_def shdr_bytes_def elf_header_def elf_program_def
  elf_section0_def elf_section1_def elf_section2_def zero_Ehdr_def zero_Phdr_def zero_Shdr_def
  sizeof_Ehdr_def sizeof_Phdr_def sizeof_Shdr_def

lemma elf_ident:
  "(replicate 16 (0 :: u8))[0 := 0x7f, 1 := of_char CHR ''E'', 2 := of_char CHR ''L'',
     3 := of_char CHR ''F'', 4 := 2, 5 := 2, 6 := 1]
   = [0x7f, 0x45, 0x4c, 0x46, 2, 2, 1] @ replicate 9 0"
  by (simp add: eval_nat_numeral)

lemma elf_parts:
  "ehdr_bytes le (elf_header le) @ phdr_bytes le (elf_program le n)
     @ shdr_bytes le (elf_section0 le) @ shdr_bytes le (elf_section1 le n)
     @ shdr_bytes le (elf_section2 le) @ strtab = elf_headers n"
  unfolding elf_structs elf_headers_def elf_ident strtab_bytes
  by (simp add: stored_big_endian zero_fields be_bytes_0)

lemma elf_file_eq:
  assumes "content \<noteq> []" "length content < 2 ^ 31"
  shows "elf_file le (length content) content =
    Inr (elf_headers (of_nat (length content)) @ replicate 695 0 @ content)"
proof -
  have "map (\<lambda>j. fgetc_fputc (int j) content) [0..<length content] = content"
    by (rule nth_equalityI) (simp_all add: fgetc_fputc_def)
  then have "copied 0 (int (length content)) content = Inr content"
    using assms(2) by (simp add: copied_short INT_MAX_def)
  with assms(1) show ?thesis
    by (simp add: elf_file_def elf_parts Let_def write_at_def length_elf_headers)
qed

lemma elf_file_long: "2 ^ 31 \<le> st_size \<Longrightarrow> elf_file le st_size content = Inl Counter_overflow"
  by (simp add: elf_file_def Let_def copied_long INT_MAX_def)

text \<open>One field of the header at a time: the reader meets the word the header stored there.\<close>

lemma read_be_field:
  "length pre = off \<Longrightarrow> LENGTH('a::len) = 8 * k \<Longrightarrow>
     read_be k off (pre @ be_bytes k (w :: 'a word) @ post) = Some (unat w)"
  by (simp add: read_be_def be_nat_be_bytes)

lemma read_be_take:
  "off + k \<le> length p \<Longrightarrow> read_be k off (p @ q) = Some (be_nat (take k (drop off p)))"
  by (simp add: read_be_def)

lemma elf_headers_fields:
  assumes "off + k \<le> 329"
  shows "read_be k off (elf_headers n @ q) = Some (be_nat (take k (drop off (elf_headers n))))"
  using assms by (intro read_be_take) (simp add: length_elf_headers)

lemmas be_nat_fields =
  be_nat_be_bytes [where 'a = 64 and k = 8, simplified]
  be_nat_be_bytes [where 'a = 32 and k = 4, simplified]
  be_nat_be_bytes [where 'a = 16 and k = 2, simplified]

lemma elf_header_values:
  "read_be 8 24 (elf_headers n @ q) = Some 0x9000000040000000"
  "read_be 8 32 (elf_headers n @ q) = Some 64"
  "read_be 8 40 (elf_headers n @ q) = Some 120"
  "read_be 2 60 (elf_headers n @ q) = Some 3"
  "read_be 2 62 (elf_headers n @ q) = Some 2"
  "take 7 (elf_headers n @ q) = [0x7f, 0x45, 0x4c, 0x46, 2, 2, 1]"
  by (simp_all add: elf_headers_fields be_nat_fields) (simp_all add: elf_headers_def be_nat_fields)

lemma elf_program_values:
  "read_be 4 64 (elf_headers n @ q) = Some 1"
  "read_be 8 72 (elf_headers n @ q) = Some 1024"
  "read_be 8 80 (elf_headers n @ q) = Some 0x9000000040000000"
  "read_be 8 96 (elf_headers n @ q) = Some (unat n)"
  by (simp_all add: elf_headers_fields) (simp_all add: elf_headers_def be_nat_fields)

lemma be_nat_zeros: "be_nat (replicate k 0) = 0"
  by (induction k) (simp_all add: be_nat_def)

lemma elf_section_values:
  "read_be 4 184 (elf_headers n @ q) = Some 11"
  "read_be 8 208 (elf_headers n @ q) = Some 1024"
  "read_be 8 216 (elf_headers n @ q) = Some (unat n)"
  "read_be 4 248 (elf_headers n @ q) = Some 1"
  "read_be 8 272 (elf_headers n @ q) = Some 312"
  "read_be 8 280 (elf_headers n @ q) = Some 17"
  "read_be 4 120 (elf_headers n @ q) = Some 0"
  by (simp_all add: elf_headers_fields) (simp_all add: elf_headers_def be_nat_fields be_nat_zeros)

text \<open>
  C5. Whatever the byte order of the machine it runs on, \<open>elfhdr\<close> turns an input of less than 2 GB,
  which is not empty, into a file from which a reader of big-endian 64-bit ELF executables recovers the
  image: the entry point and the load address are \<open>0x9000000040000000\<close> and the loadable segment is the
  input, byte for byte. From 2 GB on the counter of the copying loop overflows.
\<close>

theorem elfhdr_roundtrip:
  assumes "content \<noteq> []"
  shows "if length content < 2 ^ 31
    then \<exists>f. elfhdr_main le [fin, fout] (Some (length content)) (Some content) True = Inr (exit_ok [], Some f) \<and>
      load_elf f = Some (0x9000000040000000, 0x9000000040000000, content)
    else elfhdr_main le [fin, fout] (Some (length content)) (Some content) True = Inl Counter_overflow"
proof (cases "length content < 2 ^ 31")
  case True
  let ?h = "elf_headers (of_nat (length content))"
  have n: "unat (of_nat (length content) :: u64) = length content"
    using True by (simp add: unat_of_nat)
  have "drop 1024 (?h @ replicate 695 0 @ content) = content"
    by (simp add: length_elf_headers)
  then have "load_elf (?h @ replicate 695 0 @ content) =
      Some (0x9000000040000000, 0x9000000040000000, content)"
    unfolding load_elf_def elf_header_values
    by (simp add: elf_header_values elf_program_values length_elf_headers n)
  with assms True show ?thesis by (simp add: elfhdr_main_def elf_file_eq)
next
  case False
  then show ?thesis by (simp add: elfhdr_main_def elf_file_long)
qed

theorem elfhdr_roundtrip_witness:
  "\<exists>f. elfhdr_main True [''a.bin'', ''a.elf''] (Some (length [1, 2, 3 :: u8])) (Some [1, 2, 3]) True =
      Inr (exit_ok [], Some f) \<and>
    load_elf f = Some (0x9000000040000000, 0x9000000040000000, [1, 2, 3])"
  using elfhdr_roundtrip [of "[1, 2, 3]" True "''a.bin''" "''a.elf''"] by simp

text \<open>
  C6. Section 1 of that file is called \<open>.data\<close> and holds the input, section 2 is called
  \<open>.shstrtab\<close> and holds the names: the section table, the string table and the offsets the tool
  computes agree. Section 0 has the empty name, and there is no section 3.
\<close>

theorem elfhdr_sections:
  assumes "content \<noteq> []" "length content < 2 ^ 31"
  shows "\<exists>f. elfhdr_main le [fin, fout] (Some (length content)) (Some content) True = Inr (exit_ok [], Some f) \<and>
    section_name 1 f = Some (map of_char ''.data'') \<and>
    section_data 1 f = Some content \<and>
    section_name 2 f = Some (map of_char ''.shstrtab'') \<and>
    section_data 2 f = Some strtab \<and> section_name 0 f = Some [] \<and> section_name 3 f = None"
proof -
  let ?h = "elf_headers (of_nat (length content))"
  have n: "unat (of_nat (length content) :: u64) = length content"
    using assms(2) by (simp add: unat_of_nat)
  have strings_data: "0 # take 16 (tl strtab) = strtab" "drop 312 ?h = 0 # tl strtab"
    by (simp_all add: elf_headers_def strtab_bytes)
  have strings: "drop 312 ?h = strtab"
    by (simp add: elf_headers_def strtab_bytes)
  have "drop 323 ?h = drop 11 (drop 312 ?h)" "drop 313 ?h = drop 1 (drop 312 ?h)" by simp_all
  then have "drop 323 ?h = map of_char ''.data'' @ [0]"
    "drop 313 ?h = map of_char ''.shstrtab'' @ [0] @ map of_char ''.data'' @ [0]"
    unfolding strings by (simp_all add: strtab_def)
  moreover have "drop 1024 (?h @ replicate 695 0 @ content) = content"
    by (simp add: length_elf_headers)
  ultimately show ?thesis
    using strings_data
    by (simp add: elfhdr_main_def elf_file_eq [OF assms] section_name_def section_data_def
        section_field_def elf_header_values elf_section_values length_elf_headers n)
qed

theorem elfhdr_sections_witness:
  "\<exists>f. elfhdr_main False [''a'', ''b''] (Some (length [9 :: u8])) (Some [9]) True = Inr (exit_ok [], Some f) \<and>
    section_name 1 f = Some (map of_char ''.data'') \<and> section_data 1 f = Some [9] \<and>
    section_name 2 f = Some (map of_char ''.shstrtab'')"
  using elfhdr_sections [of "[9]" False "''a''" "''b''"] by auto

end
