(* ===== verification/DmaGen.thy ===== *)
theory DmaGen
  imports CPrelude "HOL-Library.Multiset"
begin

text \<open>
  The generator of random DMA programs, \<open>fuzz_dma/dma_test_generation.c\<close>: its pseudo random
  numbers, the tree of program nodes it grows in the heap by filling one open space after the
  other, the encoding of the tree as a DMA program, and the list of transfers a program makes.
  The encoders \<open>DMA_OP_*\<close> (\<open>DMAAsm.h\<close>) and the engine \<open>dma_execute_instruction\<close>
  (\<open>DMAModel.h\<close>) are not in the repository; they are arguments of the definitions that use
  them. Heap nodes are addressed by the order of their allocation, uninitialised fields are
  \<open>None\<close>, and using an uninitialised pointer is an error value.
\<close>

section \<open>Pseudo random numbers\<close>

definition myrand :: "u64 \<Rightarrow> int \<times> u64" where
  "myrand next =
     (let next' = next * 1103515245 + 12345
      in (uint ((ucast (next' div 65536) :: u32) mod 32768), next'))"

definition mysrand :: "u32 \<Rightarrow> u64" where
  "mysrand seed = ucast seed"

definition RAND_LIMIT :: int where "RAND_LIMIT = 32767"
definition LENGTH_LIMIT :: int where "LENGTH_LIMIT = 12"
definition SPACE_LIMIT :: int where "SPACE_LIMIT = 10"

text \<open>
  What the generator asks of its random source: draws between 0 and \<open>RAND_LIMIT\<close>, and never
  three zeros in a row.
\<close>

fun zero_run :: "('s \<Rightarrow> int \<times> 's) \<Rightarrow> nat \<Rightarrow> 's \<Rightarrow> bool" where
  "zero_run rand 0 s = True"
| "zero_run rand (Suc n) s = (fst (rand s) = 0 \<and> zero_run rand n (snd (rand s)))"

locale random_source =
  fixes rand :: "'s \<Rightarrow> int \<times> 's"
  assumes rand_range: "0 \<le> fst (rand s)" "fst (rand s) \<le> RAND_LIMIT"
    and no_zero_run: "\<not> zero_run rand 3 s"

lemma myrand_value: "fst (myrand s) = uint (s * 1103515245 + 12345) mod 2 ^ 31 div 65536"
proof -
  let ?n = "s * 1103515245 + 12345"
  have "fst (myrand s) = (uint ?n div 65536) mod 2 ^ 32 mod 32768"
    by (simp add: myrand_def Let_def uint_mod uint_div unsigned_ucast_eq take_bit_eq_mod)
  also have "\<dots> = (uint ?n div 65536) mod 32768"
    by (simp add: mod_mod_cancel)
  also have "\<dots> = uint ?n mod 2 ^ 31 div 65536"
    using zmod_zmult2_eq [of 32768 "uint ?n" 65536] by simp
  finally show ?thesis .
qed

lemma myrand_state: "snd (myrand s) = s * 1103515245 + 12345"
  by (simp add: myrand_def Let_def)

text \<open>The low 31 bits of the state run through a generator modulo \<open>2 ^ 31\<close> of their own.\<close>

definition low31 :: "u64 \<Rightarrow> int" where "low31 s = uint s mod 2 ^ 31"

lemma low31_range: "0 \<le> low31 s" "low31 s < 2147483648"
  by (simp_all add: low31_def)

lemma linear_mod: "(x * a + c) mod m = ((x mod m) * a + c) mod m" for x a c m :: int
  by (metis mod_add_left_eq mod_mult_left_eq)

lemma low31_step: "low31 (snd (myrand s)) = (1103515245 * low31 s + 12345) mod 2147483648"
proof -
  have "uint (s * 1103515245 + 12345) = (uint s * 1103515245 + 12345) mod 2 ^ 64"
    by (simp add: uint_word_ariths mod_simps)
  then have "low31 (snd (myrand s)) = (uint s * 1103515245 + 12345) mod 2 ^ 31"
    by (simp add: mod_mod_cancel low31_def myrand_state)
  also have "\<dots> = ((uint s mod 2 ^ 31) * 1103515245 + 12345) mod 2 ^ 31"
    by (rule linear_mod)
  finally show ?thesis by (simp add: low31_def mult.commute)
qed

lemma myrand_low31: "fst (myrand s) = low31 (snd (myrand s)) div 65536"
  by (simp add: myrand_value low31_def myrand_state)

lemma myrand_zero: "fst (myrand s) = 0 \<longleftrightarrow> low31 (snd (myrand s)) < 65536"
  using low31_range [of "snd (myrand s)"] by (simp add: myrand_low31 div_eq_0_iff) auto

text \<open>
  The difference \<open>d\<close> of two consecutive low states that both draw zero and the difference
  \<open>e\<close> of the next two span a lattice of determinant \<open>2 ^ 31\<close>; only few of its points are that
  short, and none of them is the difference of two such states.
\<close>

lemma short_lattice_vector:
  fixes d e k :: int
  assumes e: "e = 1103515245 * d + 2147483648 * k" and d: "\<bar>d\<bar> < 65536" and b: "\<bar>e\<bar> < 65536"
  obtains i j where "i \<in> {-2, -1, 0, 1, 2}" "j \<in> {-1, 0, 1}" "d = 26579 * i - 51463 * j"
proof
  define i where "i = 26445 * d + 51463 * k"
  define j where "j = 13658 * d + 26579 * k"
  have i: "2147483648 * i = 17925 * d + 51463 * e"
    using e by (simp add: i_def)
  have j: "2147483648 * j = 26579 * e - 32471 * d"
    using e by (simp add: j_def)
  from d b have bounds: "-65536 < d" "d < 65536" "-65536 < e" "e < 65536" by auto
  have "-3 < i" using i bounds by linarith
  moreover have "i < 3" using i bounds by linarith
  ultimately show "i \<in> {-2, -1, 0, 1, 2}" by auto
  have "-2 < j" using j bounds by linarith
  moreover have "j < 2" using j bounds by linarith
  ultimately show "j \<in> {-1, 0, 1}" by auto
  show "d = 26579 * i - 51463 * j"
    by (simp add: i_def j_def)
qed

lemma no_three_small_states:
  fixes r0 r1 r2 :: int
  assumes r1: "r1 = (1103515245 * r0 + 12345) mod 2147483648"
    and r2: "r2 = (1103515245 * r1 + 12345) mod 2147483648"
    and "0 \<le> r0" "r0 < 65536" "r1 < 65536"
  shows "65536 \<le> r2"
proof (rule ccontr)
  assume "\<not> 65536 \<le> r2"
  then have "r2 < 65536" by simp
  define k1 where "k1 = - ((1103515245 * r0 + 12345) div 2147483648)"
  define k2 where "k2 = - ((1103515245 * r1 + 12345) div 2147483648)"
  have k1: "r1 = 1103515245 * r0 + 12345 + 2147483648 * k1"
    unfolding k1_def r1 by (simp add: minus_mult_div_eq_mod [symmetric])
  have k2: "r2 = 1103515245 * r1 + 12345 + 2147483648 * k2"
    unfolding k2_def r2 by (simp add: minus_mult_div_eq_mod [symmetric])
  have "0 \<le> r1" "0 \<le> r2" using r1 r2 by simp_all
  have "r2 - r1 = 1103515245 * (r1 - r0) + 2147483648 * (k2 - k1)"
    using k1 k2 by simp
  moreover have "\<bar>r1 - r0\<bar> < 65536" "\<bar>r2 - r1\<bar> < 65536"
    using \<open>0 \<le> r1\<close> \<open>0 \<le> r2\<close> \<open>r2 < 65536\<close> assms(3-5) by linarith+
  ultimately obtain i j where ij: "i \<in> {-2, -1, 0, 1, 2}" "j \<in> {-1, 0, 1}"
      and d: "r1 - r0 = 26579 * i - 51463 * j"
    by (rule short_lattice_vector)
  define m where "m = 71801491 * k1 + 36896225 * r0"
  have "71801491 * (26579 * i - 51463 * j - 12345) = 4 * r0 + 2147483648 * m"
    unfolding m_def d [symmetric] using k1 by (simp add: algebra_simps)
  then have "71801491 * (26579 * i - 51463 * j - 12345) mod 2147483648 = 4 * r0"
    using \<open>0 \<le> r0\<close> \<open>r0 < 65536\<close> by simp
  with ij \<open>0 \<le> r0\<close> \<open>r0 < 65536\<close> show False
    by (elim insertE emptyE) simp_all
qed

lemma myrand_no_zero_run: "\<not> zero_run myrand 3 s"
proof
  assume z: "zero_run myrand 3 s"
  let ?s1 = "snd (myrand s)" and ?s2 = "snd (myrand (snd (myrand s)))"
  from z have "low31 ?s1 < 65536" "low31 ?s2 < 65536" "low31 (snd (myrand ?s2)) < 65536"
    by (simp_all add: numeral_3_eq_3 myrand_zero)
  moreover have "65536 \<le> low31 (snd (myrand ?s2))"
    by (rule no_three_small_states [OF low31_step low31_step]) (use calculation low31_range in auto)
  ultimately show False by simp
qed

interpretation myrand: random_source myrand
proof
  fix s
  show "0 \<le> fst (myrand s)"
    using low31_range [of "snd (myrand s)"] by (simp add: myrand_low31)
  show "fst (myrand s) \<le> RAND_LIMIT"
    using low31_range [of "snd (myrand s)"] by (simp add: myrand_low31 RAND_LIMIT_def)
  show "\<not> zero_run myrand 3 s" by (rule myrand_no_zero_run)
qed

section \<open>Program nodes\<close>

datatype dma_program_node_type = DMAPNT_LOOP | DMAPNT_SEQ | DMAPNT_OP

record dma_program_node =
  dmapn_type :: "dma_program_node_type option"
  dmapn_left_child :: "nat option"
  dmapn_right_child :: "nat option"
  dmapn_next_space :: "nat option"

type_synonym node_heap = "dma_program_node list"

text \<open>What can go wrong in the generator.\<close>

datatype dma_error = Wild_pointer | Assertion_failed | Buffer_overrun

definition malloc_node :: "node_heap \<Rightarrow> nat \<times> node_heap" where
  "malloc_node h =
     (length h, h @ [\<lparr>dmapn_type = None, dmapn_left_child = None, dmapn_right_child = None,
                      dmapn_next_space = None\<rparr>])"

definition upd_node :: "nat \<Rightarrow> (dma_program_node \<Rightarrow> dma_program_node) \<Rightarrow> node_heap \<Rightarrow> node_heap" where
  "upd_node a f h = h[a := f (h ! a)]"

text \<open>
  The local variables of \<open>random_dma_program_structure\<close>. \<open>next_space\<close> is \<open>None\<close> once it was read
  from the uninitialised field of the last node.
\<close>

record gen_state =
  heap :: node_heap
  next_space :: "nat option"
  last_space :: nat
  spaces :: int
  program_length :: int

definition structure_start :: gen_state where
  "structure_start =
     (let (root, h) = malloc_node []
      in \<lparr>heap = h, next_space = Some root, last_space = root, spaces = 1, program_length = 0\<rparr>)"

definition fill_op :: "nat \<Rightarrow> gen_state \<Rightarrow> gen_state" where
  "fill_op a st = st
     \<lparr>heap := upd_node a (dmapn_type_update (\<lambda>_. Some DMAPNT_OP)) (heap st),
      program_length := program_length st + 1, spaces := spaces st - 1\<rparr>"

definition fill_loop :: "nat \<Rightarrow> gen_state \<Rightarrow> gen_state" where
  "fill_loop a st =
     (let h = upd_node a (dmapn_type_update (\<lambda>_. Some DMAPNT_LOOP)) (heap st);
          (left, h) = malloc_node h;
          h = upd_node a (dmapn_left_child_update (\<lambda>_. Some left)) h;
          h = upd_node (last_space st) (dmapn_next_space_update (\<lambda>_. Some left)) h
      in st \<lparr>heap := h, last_space := left, program_length := program_length st + 2\<rparr>)"

definition fill_seq :: "nat \<Rightarrow> gen_state \<Rightarrow> gen_state" where
  "fill_seq a st =
     (let h = upd_node a (dmapn_type_update (\<lambda>_. Some DMAPNT_SEQ)) (heap st);
          (left, h) = malloc_node h;
          (right, h) = malloc_node h;
          h = upd_node a (dmapn_left_child_update (\<lambda>_. Some left)) h;
          h = upd_node a (dmapn_right_child_update (\<lambda>_. Some right)) h;
          h = upd_node (last_space st) (dmapn_next_space_update (\<lambda>_. Some left)) h;
          h = upd_node left (dmapn_next_space_update (\<lambda>_. Some right)) h
      in st \<lparr>heap := h, last_space := right, spaces := spaces st + 1\<rparr>)"

text \<open>Which node the draw \<open>p\<close> makes of the next open space.\<close>

definition choose_type :: "int \<Rightarrow> gen_state \<Rightarrow> dma_program_node_type" where
  "choose_type p st =
     (let space_bias = SPACE_LIMIT - spaces st;
          length_bias = LENGTH_LIMIT - program_length st
      in if LENGTH_LIMIT * p > RAND_LIMIT * length_bias then DMAPNT_OP
         else if LENGTH_LIMIT * SPACE_LIMIT * p > RAND_LIMIT * length_bias * space_bias
         then DMAPNT_LOOP
         else DMAPNT_SEQ)"

definition fill :: "dma_program_node_type \<Rightarrow> nat \<Rightarrow> gen_state \<Rightarrow> gen_state" where
  "fill t a st =
     (case t of DMAPNT_OP \<Rightarrow> fill_op a st | DMAPNT_LOOP \<Rightarrow> fill_loop a st | DMAPNT_SEQ \<Rightarrow> fill_seq a st)"

definition structure_step :: "int \<Rightarrow> gen_state \<Rightarrow> dma_error + gen_state" where
  "structure_step p st =
     (case next_space st of
        None \<Rightarrow> Inl Wild_pointer
      | Some a \<Rightarrow>
          let st' = fill (choose_type p st) a st
          in Inr (st'\<lparr>next_space := dmapn_next_space (heap st' ! a)\<rparr>))"

text \<open>
  The \<open>while\<close> loop; \<open>rand\<close> is the random source, \<open>myrand\<close> in the program. A loop that does not
  end has the value \<open>None\<close>.
\<close>

partial_function (option) fill_spaces ::
  "('s \<Rightarrow> int \<times> 's) \<Rightarrow> 's \<Rightarrow> gen_state \<Rightarrow> (dma_error + gen_state \<times> 's) option" where
  "fill_spaces rand s st =
     (if spaces st > 0 then
        (case structure_step (fst (rand s)) st of
           Inl e \<Rightarrow> Some (Inl e)
         | Inr st' \<Rightarrow> fill_spaces rand (snd (rand s)) st')
      else Some (Inr (st, s)))"

definition random_dma_program_structure ::
  "u32 \<Rightarrow> (dma_error + gen_state \<times> u64) option" where
  "random_dma_program_structure seed = fill_spaces myrand (mysrand seed) structure_start"

section \<open>The heap as a level order\<close>

text \<open>
  The open spaces form a queue: spaces are filled in the order in which they were allocated.
  The list \<open>ts\<close> of the types chosen so far therefore determines the whole heap. A node of type
  \<open>t\<close> allocates \<open>arity t\<close> children and contributes \<open>weight t\<close> instructions.
\<close>

fun arity :: "dma_program_node_type \<Rightarrow> nat" where
  "arity DMAPNT_LOOP = 1" | "arity DMAPNT_SEQ = 2" | "arity DMAPNT_OP = 0"

fun weight :: "dma_program_node_type \<Rightarrow> nat" where
  "weight DMAPNT_LOOP = 2" | "weight DMAPNT_SEQ = 0" | "weight DMAPNT_OP = 1"

definition first_child :: "dma_program_node_type list \<Rightarrow> nat \<Rightarrow> nat" where
  "first_child ts i = Suc (sum_list (map arity (take i ts)))"

definition allocated :: "dma_program_node_type list \<Rightarrow> nat" where
  "allocated ts = Suc (sum_list (map arity ts))"

definition level_node :: "dma_program_node_type list \<Rightarrow> nat \<Rightarrow> dma_program_node" where
  "level_node ts i =
     \<lparr>dmapn_type = (if i < length ts then Some (ts ! i) else None),
      dmapn_left_child = (if i < length ts \<and> ts ! i \<noteq> DMAPNT_OP then Some (first_child ts i) else None),
      dmapn_right_child = (if i < length ts \<and> ts ! i = DMAPNT_SEQ then Some (Suc (first_child ts i)) else None),
      dmapn_next_space = (if Suc i < allocated ts then Some (Suc i) else None)\<rparr>"

definition level_heap :: "dma_program_node_type list \<Rightarrow> node_heap" where
  "level_heap ts = map (level_node ts) [0..<allocated ts]"

definition level_state :: "dma_program_node_type list \<Rightarrow> gen_state" where
  "level_state ts =
     \<lparr>heap = level_heap ts,
      next_space = (if length ts < allocated ts then Some (length ts) else None),
      last_space = allocated ts - 1,
      spaces = int (allocated ts) - int (length ts),
      program_length = int (sum_list (map weight ts))\<rparr>"

lemma level_state_sel [simp]:
  "heap (level_state ts) = level_heap ts"
  "spaces (level_state ts) = int (allocated ts) - int (length ts)"
  "program_length (level_state ts) = int (sum_list (map weight ts))"
  by (simp_all add: level_state_def)

lemma structure_start_level: "structure_start = level_state []"
  by (simp add: structure_start_def level_state_def level_heap_def malloc_node_def allocated_def
      level_node_def)

lemma allocated_snoc [simp]: "allocated (ts @ [t]) = allocated ts + arity t"
  by (simp add: allocated_def)

lemma first_child_snoc:
  "i < length ts \<Longrightarrow> first_child (ts @ [t]) i = first_child ts i"
  "first_child (ts @ [t]) (length ts) = allocated ts"
  by (simp_all add: first_child_def allocated_def)

lemma level_node_snoc_old:
  "i < length ts \<Longrightarrow> level_node (ts @ [t]) i = (level_node ts i)
     \<lparr>dmapn_next_space := if Suc i < allocated ts + arity t then Some (Suc i) else None\<rparr>"
  by (simp add: level_node_def first_child_snoc nth_append)

lemma level_node_snoc_new:
  "length ts < i \<Longrightarrow> level_node (ts @ [t]) i = (level_node ts i)
     \<lparr>dmapn_next_space := if Suc i < allocated ts + arity t then Some (Suc i) else None\<rparr>"
  by (simp add: level_node_def)

lemma level_heap_nth: "i < allocated ts \<Longrightarrow> level_heap ts ! i = level_node ts i"
  by (simp add: level_heap_def)

lemma level_heap_length [simp]: "length (level_heap ts) = allocated ts"
  by (simp add: level_heap_def)

text \<open>Filling the next open space extends the level order by the chosen type.\<close>

lemma fill_heap:
  assumes "length ts < allocated ts"
  shows "heap (fill t (length ts) (level_state ts)) = level_heap (ts @ [t])" (is "?l = ?r")
proof (rule nth_equalityI)
  show "length ?l = length ?r"
    by (cases t) (simp_all add: fill_def fill_op_def fill_loop_def fill_seq_def malloc_node_def
        upd_node_def Let_def)
  fix i
  assume "i < length ?l"
  then have "i < allocated ts + arity t"
    using \<open>length ?l = length ?r\<close> by simp
  with assms show "?l ! i = ?r ! i"
    by (cases t)
      (auto simp: fill_def fill_op_def fill_loop_def fill_seq_def malloc_node_def upd_node_def Let_def
        level_heap_nth nth_list_update nth_append level_node_def first_child_snoc level_state_def
        allocated_def not_less less_Suc_eq)
qed

lemma fill_other:
  "next_space (fill t a st) = next_space st"
  "last_space (fill t a (level_state ts)) = allocated (ts @ [t]) - 1"
  "spaces (fill t a st) = spaces st - 1 + int (arity t)"
  "program_length (fill t a st) = program_length st + int (weight t)"
  by (cases t; simp add: fill_def fill_op_def fill_loop_def fill_seq_def malloc_node_def Let_def
      upd_node_def level_state_def allocated_def)+

lemma structure_step_level:
  assumes "length ts < allocated ts"
  shows "structure_step p (level_state ts) = Inr (level_state (ts @ [choose_type p (level_state ts)]))"
proof -
  have filled: "(fill t (length ts) (level_state ts))
      \<lparr>next_space := dmapn_next_space (heap (fill t (length ts) (level_state ts)) ! length ts)\<rparr>
    = level_state (ts @ [t])" for t
  proof (rule gen_state.equality)
    show "last_space ((fill t (length ts) (level_state ts))\<lparr>next_space := dmapn_next_space
        (heap (fill t (length ts) (level_state ts)) ! length ts)\<rparr>) = last_space (level_state (ts @ [t]))"
      using fill_other(2) [of t "length ts" ts] by (simp add: level_state_def)
  qed (use assms in \<open>simp_all add: fill_heap fill_other(3,4) level_heap_nth level_node_def\<close>,
      simp_all add: level_state_def level_node_def)
  moreover have "next_space (level_state ts) = Some (length ts)"
    using assms by (simp add: level_state_def)
  ultimately show ?thesis
    by (simp add: structure_step_def Let_def)
qed

text \<open>
  The measure of the loop. While the program is shorter than \<open>LENGTH_LIMIT\<close> a sequence uses up
  one of the spaces left below the limit and every other node brings the program nearer to its
  limit; at the limit a sequence needs a draw of zero, of which the source gives at most two in
  a row; beyond it only operations are added.
\<close>

fun todo :: "nat \<Rightarrow> int \<Rightarrow> int \<Rightarrow> int" where
  "todo z l s =
     (if l < 12 then 3 * (12 - l) + (11 - s) + 20
      else if l = 12 then s + 2 * (3 - int z)
      else s)"

text \<open>
  The invariant of the loop, \<open>z\<close> the number of zeros drawn at the limit. The last part bounds
  the length the finished program can have.
\<close>

definition within :: "nat \<Rightarrow> int \<Rightarrow> int \<Rightarrow> bool" where
  "within z l s \<longleftrightarrow> 0 \<le> l \<and> 0 \<le> s \<and> z \<le> 2 \<and> (l < 12 \<longrightarrow> z = 0 \<and> s \<le> 11) \<and>
     (l = 12 \<longrightarrow> s \<le> 11 + int z) \<and> l + s \<le> 25"

lemma within_step:
  assumes "within z l s" and "0 < s" and p: "0 \<le> p" "p \<le> 32767"
    and zero: "l = 12 \<and> p = 0 \<longrightarrow> z < 2"
  defines "z' \<equiv> if l = 12 \<and> p = 0 then Suc z else 0"
  defines "t \<equiv> if 12 * p > 32767 * (12 - l) then DMAPNT_OP
     else if 12 * 10 * p > 32767 * (12 - l) * (10 - s) then DMAPNT_LOOP else DMAPNT_SEQ"
  defines "l' \<equiv> l + int (weight t)" and "s' \<equiv> s - 1 + int (arity t)"
  shows "within z' l' s' \<and> 0 \<le> todo z' l' s' \<and> todo z' l' s' < todo z l s"
proof -
  consider (below) "l < 12" | (limit) "l = 12" | (beyond) "12 < l" by linarith
  then show ?thesis
  proof cases
    case below
    have seq: "s \<le> 10" if "t = DMAPNT_SEQ"
    proof (rule ccontr)
      assume "\<not> s \<le> 10"
      then have "32767 * (12 - l) * (10 - s) < 0"
        using below by (simp add: mult_pos_neg)
      with that p show False by (simp add: t_def split: if_splits)
    qed
    show ?thesis
      using assms(1,2) below seq
      by (cases t) (auto simp: within_def z'_def l'_def s'_def)
  next
    case limit
    then have "t = (if p = 0 then DMAPNT_SEQ else DMAPNT_OP)"
      using p by (simp add: t_def)
    with limit show ?thesis
      using assms(1,2) zero by (auto simp: within_def z'_def l'_def s'_def)
  next
    case beyond
    then have "t = DMAPNT_OP"
      using p by (simp add: t_def)
    with beyond show ?thesis
      using assms(1,2) by (auto simp: within_def z'_def l'_def s'_def)
  qed
qed

text \<open>The types chosen so far never ran out of open spaces.\<close>

definition spaces_left :: "dma_program_node_type list \<Rightarrow> bool" where
  "spaces_left ts \<longleftrightarrow> (\<forall>k<length ts. k < allocated (take k ts))"

lemma spaces_left_snoc:
  "spaces_left ts \<Longrightarrow> length ts < allocated ts \<Longrightarrow> spaces_left (ts @ [t])"
  by (auto simp: spaces_left_def less_Suc_eq)

lemma zero_run_Suc: "\<not> zero_run rand n s \<Longrightarrow> fst (rand s) = 0 \<Longrightarrow> \<not> zero_run rand (n - 1) (snd (rand s))"
  by (cases n) auto

context random_source begin

lemma fill_spaces_level:
  assumes "within z (program_length (level_state ts)) (spaces (level_state ts))"
    and "\<not> zero_run rand (3 - z) s"
    and "spaces_left ts"
  shows "\<exists>us s'. fill_spaces rand s (level_state ts) = Some (Inr (level_state us, s')) \<and>
      allocated us = length us \<and> spaces_left us \<and> sum_list (map weight us) \<le> 25"
  using assms
proof (induction "nat (todo z (program_length (level_state ts)) (spaces (level_state ts)))"
    arbitrary: z ts s rule: less_induct)
  case less
  define l where "l = program_length (level_state ts)"
  define n where "n = spaces (level_state ts)"
  show ?case
  proof (cases "0 < n")
    case False
    with less.prems(1) have "allocated ts = length ts" "sum_list (map weight ts) \<le> 25"
      by (auto simp: within_def n_def)
    with False less.prems(3) show ?thesis
      by (auto simp: fill_spaces.simps [of rand s] n_def)
  next
    case True
    let ?p = "fst (rand s)"
    let ?t = "choose_type ?p (level_state ts)"
    let ?z = "if l = 12 \<and> ?p = 0 then Suc z else 0"
    have z: "l = 12 \<and> ?p = 0 \<longrightarrow> z < 2"
    proof (cases "z = 2")
      case True
      with less.prems(2) show ?thesis by simp
    next
      case False
      with less.prems(1) show ?thesis by (auto simp: within_def)
    qed
    have step: "within ?z (l + int (weight ?t)) (n - 1 + int (arity ?t)) \<and>
        0 \<le> todo ?z (l + int (weight ?t)) (n - 1 + int (arity ?t)) \<and>
        todo ?z (l + int (weight ?t)) (n - 1 + int (arity ?t)) < todo z l n"
    proof -
      have t: "?t = (if 12 * ?p > 32767 * (12 - l) then DMAPNT_OP
          else if 12 * 10 * ?p > 32767 * (12 - l) * (10 - n) then DMAPNT_LOOP else DMAPNT_SEQ)"
        by (simp add: choose_type_def Let_def l_def n_def RAND_LIMIT_def LENGTH_LIMIT_def
            SPACE_LIMIT_def)
      have w: "within z l n" using less.prems(1) by (simp only: l_def n_def)
      have r: "0 \<le> ?p" "?p \<le> 32767" using rand_range [of s] by (simp_all add: RAND_LIMIT_def)
      show ?thesis
        unfolding t by (rule within_step [OF w True r z])
    qed
    have next_run: "\<not> zero_run rand (3 - ?z) (snd (rand s))"
    proof (cases "l = 12 \<and> ?p = 0")
      case True
      with less.prems(2) z show ?thesis
        using zero_run_Suc [of rand "3 - z" s] by simp
    next
      case False
      then show ?thesis using no_zero_run [of "snd (rand s)"] by auto
    qed
    have lt: "length ts < allocated ts"
      using True by (simp add: n_def)
    have "\<exists>us s'. fill_spaces rand (snd (rand s)) (level_state (ts @ [?t])) =
        Some (Inr (level_state us, s')) \<and> allocated us = length us \<and> spaces_left us \<and>
        sum_list (map weight us) \<le> 25"
    proof (rule less.hyps [OF _ _ next_run spaces_left_snoc [OF less.prems(3) lt]])
      show "within ?z (program_length (level_state (ts @ [?t]))) (spaces (level_state (ts @ [?t])))"
        using step by (simp add: l_def n_def algebra_simps)
      show "nat (todo ?z (program_length (level_state (ts @ [?t]))) (spaces (level_state (ts @ [?t]))))
          < nat (todo z (program_length (level_state ts)) (spaces (level_state ts)))"
        using step by (simp add: l_def n_def algebra_simps del: todo.simps)
    qed
    then show ?thesis
      using True lt by (simp add: fill_spaces.simps [of rand s "level_state ts"] structure_step_level n_def)
  qed
qed

lemma structure_level:
  "\<exists>us s'. fill_spaces rand s structure_start = Some (Inr (level_state us, s')) \<and>
      allocated us = length us \<and> spaces_left us \<and> sum_list (map weight us) \<le> 25"
  using fill_spaces_level [of 0 "[]" s] no_zero_run [of s]
  by (simp add: structure_start_level within_def allocated_def spaces_left_def)

end

section \<open>The tree of a program\<close>

text \<open>
  The tree reachable from a node, every node with its address: what the recursive routines of
  the program walk over. Reading it takes at most one level of recursion per node.
\<close>

datatype ptree = PLoop nat ptree | PSeq nat ptree ptree | POp nat

fun tree_at :: "nat \<Rightarrow> node_heap \<Rightarrow> nat \<Rightarrow> ptree option" where
  "tree_at 0 h a = None"
| "tree_at (Suc n) h a =
     (if a < length h then
        (case dmapn_type (h ! a) of
           None \<Rightarrow> None
         | Some DMAPNT_OP \<Rightarrow> Some (POp a)
         | Some DMAPNT_LOOP \<Rightarrow>
             (case dmapn_left_child (h ! a) of None \<Rightarrow> None
              | Some l \<Rightarrow> map_option (PLoop a) (tree_at n h l))
         | Some DMAPNT_SEQ \<Rightarrow>
             (case (dmapn_left_child (h ! a), dmapn_right_child (h ! a)) of
                (Some l, Some r) \<Rightarrow>
                  (case (tree_at n h l, tree_at n h r) of
                     (Some t, Some u) \<Rightarrow> Some (PSeq a t u) | _ \<Rightarrow> None)
              | _ \<Rightarrow> None))
      else None)"

definition program_tree :: "node_heap \<Rightarrow> ptree option" where
  "program_tree h = tree_at (length h) h 0"

fun addrs :: "ptree \<Rightarrow> nat list" where
  "addrs (POp a) = [a]"
| "addrs (PLoop a t) = a # addrs t"
| "addrs (PSeq a t u) = a # addrs t @ addrs u"

fun dma_program_length :: "ptree \<Rightarrow> u32" where
  "dma_program_length (PLoop a b) = 2 + dma_program_length b"
| "dma_program_length (PSeq a l r) = dma_program_length l + dma_program_length r"
| "dma_program_length (POp a) = 1"

fun tree_length :: "ptree \<Rightarrow> nat" where
  "tree_length (PLoop a b) = 2 + tree_length b"
| "tree_length (PSeq a l r) = tree_length l + tree_length r"
| "tree_length (POp a) = 1"

fun loop_depth :: "ptree \<Rightarrow> nat" where
  "loop_depth (PLoop a b) = Suc (loop_depth b)"
| "loop_depth (PSeq a l r) = max (loop_depth l) (loop_depth r)"
| "loop_depth (POp a) = 0"

lemma dma_program_length_of_nat: "dma_program_length t = of_nat (tree_length t)"
  by (induction t) simp_all

lemma loop_depth_bound: "2 * loop_depth t < tree_length t"
  by (induction t) auto

lemma tree_at_mono: "tree_at n h a = Some t \<Longrightarrow> n \<le> m \<Longrightarrow> tree_at m h a = Some t"
proof (induction n arbitrary: a t m)
  case (Suc n)
  then obtain m' where m: "m = Suc m'" "n \<le> m'" by (cases m) auto
  from Suc.prems(1) have a: "a < length h" by (simp split: if_splits)
  with Suc.prems(1) obtain y where y: "dmapn_type (h ! a) = Some y"
    by (cases "dmapn_type (h ! a)") simp_all
  show ?case
  proof (cases y)
    case DMAPNT_LOOP
    with Suc.prems(1) a y m Suc.IH [OF _ m(2)] show ?thesis
      by (auto split: option.splits)
  next
    case DMAPNT_SEQ
    with Suc.prems(1) a y m Suc.IH [OF _ m(2)] show ?thesis
      by (auto split: option.splits)
  next
    case DMAPNT_OP
    with Suc.prems(1) a y m show ?thesis by simp
  qed
qed simp

text \<open>
  The trees of the open spaces at any time of the construction: they hold exactly the nodes not
  yet filled, each once.
\<close>

lemma forest:
  assumes left: "spaces_left ts" and full: "allocated ts = length ts" and "k \<le> length ts"
  shows "\<exists>f. length f = allocated (take k ts) - k \<and>
     (\<forall>j<length f. tree_at (length ts - k) (level_heap ts) (k + j) = Some (f ! j)) \<and>
     mset (concat (map addrs f)) = mset [k..<length ts] \<and>
     sum_list (map tree_length f) = sum_list (map weight (drop k ts))"
  using \<open>k \<le> length ts\<close>
proof (induction rule: inc_induct)
  case base
  then show ?case using full by (intro exI [of _ "[]"]) simp
next
  case (step k)
  let ?h = "level_heap ts"
  from step.IH obtain f where f: "length f = allocated (take (Suc k) ts) - Suc k"
    "\<And>j. j < length f \<Longrightarrow> tree_at (length ts - Suc k) ?h (Suc k + j) = Some (f ! j)"
    "mset (concat (map addrs f)) = mset [Suc k..<length ts]"
    "sum_list (map tree_length f) = sum_list (map weight (drop (Suc k) ts))" by auto
  have k: "k < allocated (take k ts)" using left step.hyps by (simp add: spaces_left_def)
  define q where "q = allocated (take k ts) - Suc k"
  have al: "allocated (take (Suc k) ts) = allocated (take k ts) + arity (ts ! k)"
    using step.hyps by (simp add: take_Suc_conv_app_nth)
  have len: "length f = q + arity (ts ! k)" using f(1) al k by (simp add: q_def)
  obtain t where t: "tree_at (length ts - k) ?h k = Some t"
    "addrs t = k # concat (map addrs (drop q f))"
    "tree_length t = weight (ts ! k) + sum_list (map tree_length (drop q f))"
  proof -
    have child: "first_child ts k = Suc k + q" "Suc (first_child ts k) = Suc k + Suc q"
      using k by (simp_all add: first_child_def q_def allocated_def)
    have node: "?h ! k = level_node ts k" "k < length ?h" "length ts - k = Suc (length ts - Suc k)"
      using step.hyps full by (simp_all add: level_heap_nth)
    show thesis
    proof (cases "ts ! k")
      case DMAPNT_OP
      with node len step.hyps show thesis
        by (intro that [of "POp k"]) (simp_all add: level_node_def)
    next
      case DMAPNT_LOOP
      then have "drop q f = [f ! q]" using len by (simp add: Cons_nth_drop_Suc [symmetric])
      with DMAPNT_LOOP node len step.hyps f(2) [of q] child show thesis
        by (intro that [of "PLoop k (f ! q)"]) (simp_all add: level_node_def)
    next
      case DMAPNT_SEQ
      then have "drop q f = [f ! q, f ! Suc q]" using len by (simp add: Cons_nth_drop_Suc [symmetric])
      with DMAPNT_SEQ node len step.hyps f(2) [of q] f(2) [of "Suc q"] child show thesis
        by (intro that [of "PSeq k (f ! q) (f ! Suc q)"]) (simp_all add: level_node_def)
    qed
  qed
  let ?f = "t # take q f"
  have "length ?f = allocated (take k ts) - k"
    using len k by (simp add: q_def)
  moreover have "\<forall>j<length ?f. tree_at (length ts - k) ?h (k + j) = Some (?f ! j)"
  proof (intro allI impI)
    fix j assume j: "j < length ?f"
    show "tree_at (length ts - k) ?h (k + j) = Some (?f ! j)"
    proof (cases j)
      case (Suc i)
      with j have "tree_at (length ts - Suc k) ?h (Suc k + i) = Some (f ! i)" "i < q"
        using f(2) [of i] len by auto
      then show ?thesis using Suc tree_at_mono [of "length ts - Suc k" ?h "Suc k + i" "f ! i" "length ts - k"]
        by simp
    qed (simp add: t)
  qed
  moreover have "mset (concat (map addrs ?f)) = mset [k..<length ts]"
  proof -
    have "mset (concat (map addrs (take q f @ drop q f))) = mset [Suc k..<length ts]"
      using f(3) by simp
    then show ?thesis
      using step.hyps by (simp add: t upt_conv_Cons add.commute del: append_take_drop_id mset_upt)
  qed
  moreover have "sum_list (map tree_length ?f) = sum_list (map weight (drop k ts))"
  proof -
    have "sum_list (map tree_length (take q f @ drop q f)) = sum_list (map weight (drop (Suc k) ts))"
      using f(4) by simp
    then show ?thesis
      using step.hyps by (simp add: t Cons_nth_drop_Suc [symmetric] del: append_take_drop_id)
  qed
  ultimately show ?case by blast
qed

lemma program_tree_level:
  assumes "spaces_left ts" and "allocated ts = length ts"
  shows "\<exists>t. program_tree (level_heap ts) = Some t \<and> mset (addrs t) = mset [0..<length ts] \<and>
     tree_length t = sum_list (map weight ts)"
proof -
  obtain f where f: "length f = 1" "tree_at (length ts) (level_heap ts) 0 = Some (f ! 0)"
    "mset (concat (map addrs f)) = mset [0..<length ts]"
    "sum_list (map tree_length f) = sum_list (map weight ts)"
    using forest [OF assms, of 0] by (auto simp: allocated_def)
  then obtain t where "f = [t]" by (cases f) auto
  with f assms show ?thesis by (auto simp: program_tree_def)
qed

lemma structure_tree:
  obtains st s' t where "random_dma_program_structure seed = Some (Inr (st, s'))"
    and "program_tree (heap st) = Some t" and "mset (addrs t) = mset [0..<length (heap st)]"
    and "program_length st = int (tree_length t)" and "tree_length t \<le> 25"
proof -
  from myrand.structure_level [of "mysrand seed"] obtain us s' where
    us: "random_dma_program_structure seed = Some (Inr (level_state us, s'))"
      "allocated us = length us" "spaces_left us" "sum_list (map weight us) \<le> 25"
    unfolding random_dma_program_structure_def by blast
  obtain t where "program_tree (level_heap us) = Some t" "mset (addrs t) = mset [0..<length us]"
    "tree_length t = sum_list (map weight us)"
    using program_tree_level [OF us(3,2)] by blast
  with us show thesis
    by (intro that [of "level_state us" s' t]) simp_all
qed

text \<open>
  C3. For every seed \<open>random_dma_program_structure\<close> returns, without following an uninitialised
  pointer: the nodes it allocated form one tree that contains each of them once, the counter
  \<open>program_length\<close> is the length \<open>dma_program_length\<close> computes for that tree, and it never exceeds
  25, so the 26 entries of the histogram in \<open>test_routines\<close> are enough.
\<close>

theorem dma_structure_returns:
  "\<exists>st s' t. random_dma_program_structure seed = Some (Inr (st, s')) \<and>
     program_tree (heap st) = Some t \<and> mset (addrs t) = mset [0..<length (heap st)] \<and>
     program_length st = uint (dma_program_length t) \<and> program_length st \<le> 25"
proof -
  obtain st s' t where st: "random_dma_program_structure seed = Some (Inr (st, s'))"
    "program_tree (heap st) = Some t" "mset (addrs t) = mset [0..<length (heap st)]"
    "program_length st = int (tree_length t)" "tree_length t \<le> 25"
    by (rule structure_tree)
  then have "uint (dma_program_length t) = int (tree_length t)"
    by (simp add: dma_program_length_of_nat unsigned_of_nat take_bit_eq_mod)
  with st show ?thesis by auto
qed

section \<open>Releasing and printing the structure\<close>

text \<open>
  \<open>free\<close> of an address that is not allocated, or a node read after it was released, is the value
  \<open>None\<close>.
\<close>

definition free_addr :: "nat \<Rightarrow> nat list \<Rightarrow> nat list option" where
  "free_addr a live = (if a \<in> set live then Some (remove1 a live) else None)"

fun free_dma_program_structure :: "ptree \<Rightarrow> nat list \<Rightarrow> nat list option" where
  "free_dma_program_structure (PLoop a b) live =
     (if a \<in> set live
      then Option.bind (free_dma_program_structure b live) (free_addr a)
      else None)"
| "free_dma_program_structure (PSeq a l r) live =
     (if a \<in> set live
      then Option.bind (free_dma_program_structure l live) (\<lambda>live'.
             if a \<in> set live'
             then Option.bind (free_dma_program_structure r live') (free_addr a)
             else None)
      else None)"
| "free_dma_program_structure (POp a) live = free_addr a live"

fun print_dma_structure :: "ptree \<Rightarrow> string" where
  "print_dma_structure (PLoop a b) = ''L('' @ print_dma_structure b @ '')''"
| "print_dma_structure (PSeq a l r) = print_dma_structure l @ '' '' @ print_dma_structure r"
| "print_dma_structure (POp a) = ''T''"

lemma free_addr_mset: "mset live = add_mset a R \<Longrightarrow> \<exists>live'. free_addr a live = Some live' \<and> mset live' = R"
  by (auto simp: free_addr_def simp flip: set_mset_mset)

lemma free_structure_live:
  "mset live = mset (addrs t) + R \<Longrightarrow>
   \<exists>live'. free_dma_program_structure t live = Some live' \<and> mset live' = R"
proof (induction t arbitrary: live R)
  case (PLoop a b)
  obtain l' where "free_dma_program_structure b live = Some l'" "mset l' = add_mset a R"
    using PLoop.IH [of live "add_mset a R"] PLoop.prems by auto
  moreover have "a \<in> set live" using PLoop.prems by (simp flip: set_mset_mset)
  ultimately show ?case using free_addr_mset [of l' a R] by auto
next
  case (PSeq a l r)
  obtain l1 where l1: "free_dma_program_structure l live = Some l1"
    "mset l1 = mset (addrs r) + add_mset a R"
    using PSeq.IH(1) [of live "mset (addrs r) + add_mset a R"] PSeq.prems by auto
  then obtain l2 where "free_dma_program_structure r l1 = Some l2" "mset l2 = add_mset a R"
    using PSeq.IH(2) [of l1 "add_mset a R"] l1(2) by auto
  moreover have "a \<in> set live" using PSeq.prems by (simp flip: set_mset_mset)
  moreover have "a \<in> set l1" using l1(2) by (simp flip: set_mset_mset)
  ultimately show ?case using l1(1) free_addr_mset [of l2 a R] by auto
next
  case (POp a)
  then show ?case using free_addr_mset [of live a R] by simp
qed

text \<open>
  C36. Releasing a generated structure frees every node the generator allocated, none of them
  twice, reads no node after its release and leaves nothing allocated.
\<close>

theorem dma_structure_freed:
  "\<exists>st s' t. random_dma_program_structure seed = Some (Inr (st, s')) \<and>
     program_tree (heap st) = Some t \<and>
     free_dma_program_structure t [0..<length (heap st)] = Some []"
proof -
  obtain st s' t where st: "random_dma_program_structure seed = Some (Inr (st, s'))"
    "program_tree (heap st) = Some t" "mset (addrs t) = mset [0..<length (heap st)]"
    by (rule structure_tree)
  with free_structure_live [of "[0..<length (heap st)]" t "{#}"] show ?thesis by auto
qed

section \<open>Writing the program\<close>

text \<open>
  The instructions by their macros of \<open>DMAAsm.h\<close>, which the repository does not contain: the
  encodings are the fields of this record, each argument evaluated once. The instructions are
  those of any type.
\<close>

record 'i dma_asm =
  op_set :: "int \<Rightarrow> int \<Rightarrow> 'i"
  op_loop :: "int \<Rightarrow> int \<Rightarrow> 'i"
  op_transfer :: "int \<Rightarrow> 'i"
  op_add :: "int \<Rightarrow> int \<Rightarrow> 'i"
  op_stop :: 'i

text \<open>The program under construction: its buffer, the index \<open>*next_pp\<close> points to, and \<open>next\<close>.\<close>

record 'i writer =
  prog :: "'i option list"
  pos :: nat
  rng :: u64

definition emit :: "'i \<Rightarrow> 'i writer \<Rightarrow> dma_error + 'i writer" where
  "emit i w = (if pos w < length (prog w)
     then Inr (w\<lparr>prog := (prog w)[pos w := Some i], pos := Suc (pos w)\<rparr>)
     else Inl Buffer_overrun)"

definition draw :: "int \<Rightarrow> 'i writer \<Rightarrow> int \<times> 'i writer" where
  "draw m w = (fst (myrand (rng w)) mod m, w\<lparr>rng := snd (myrand (rng w))\<rparr>)"

text \<open>
  \<open>ltr\<close> is the order in which the two arguments of \<open>DMA_OP_ADD\<close>, both of which draw, are
  evaluated; C leaves it open.
\<close>

fun write_random_dma_program ::
  "'i dma_asm \<Rightarrow> bool \<Rightarrow> ptree \<Rightarrow> int \<Rightarrow> int \<Rightarrow> 'i writer \<Rightarrow> dma_error + 'i writer" where
  "write_random_dma_program asm ltr (PLoop a body) loop_level ts w =
     (if loop_level \<le> 4 then
        (let (n, w) = draw 5 w
         in case emit (op_set asm loop_level (1 + n)) w of Inl e \<Rightarrow> Inl e
            | Inr w \<Rightarrow>
                (case write_random_dma_program asm ltr body (loop_level + 1) ts w of Inl e \<Rightarrow> Inl e
                 | Inr w \<Rightarrow> emit (op_loop asm loop_level (sint (dma_program_length body))) w))
      else Inl Assertion_failed)"
| "write_random_dma_program asm ltr (PSeq a left right) loop_level ts w =
     (if loop_level \<le> 4 then
        (case write_random_dma_program asm ltr left loop_level ts w of Inl e \<Rightarrow> Inl e
         | Inr w \<Rightarrow> write_random_dma_program asm ltr right loop_level ts w)
      else Inl Assertion_failed)"
| "write_random_dma_program asm ltr (POp a) loop_level ts w =
     (if loop_level \<le> 4 then
        (let (coin, w) = draw 2 w
         in if coin = 0 then emit (op_transfer asm ts) w
            else if ltr then
              (let (k, w) = draw 3 w; (n, w) = draw 20 w
               in emit (op_add asm k (2 ^ nat ts * n)) w)
            else
              (let (n, w) = draw 20 w; (k, w) = draw 3 w
               in emit (op_add asm k (2 ^ nat ts * n)) w))
      else Inl Assertion_failed)"

text \<open>
  \<open>generate_random_dma_program\<close>, with the state it leaves the random numbers in, and its result alone.
\<close>

definition generate_program_state ::
  "'i dma_asm \<Rightarrow> bool \<Rightarrow> u32 \<Rightarrow> (dma_error + 'i option list \<times> u64) option" where
  "generate_program_state asm ltr seed =
     (case random_dma_program_structure seed of
        None \<Rightarrow> None
      | Some (Inl e) \<Rightarrow> Some (Inl e)
      | Some (Inr (st, s)) \<Rightarrow>
          (case program_tree (heap st) of
             None \<Rightarrow> Some (Inl Wild_pointer)
           | Some t \<Rightarrow>
               let program_length = dma_program_length t + 1;
                   w = \<lparr>prog = replicate (unat program_length) None, pos = 0, rng = s\<rparr>;
                   (ts, w) = draw 6 w
               in case write_random_dma_program asm ltr t 0 ts w of
                    Inl e \<Rightarrow> Some (Inl e)
                  | Inr w \<Rightarrow>
                      (case emit (op_stop asm) w of Inl e \<Rightarrow> Some (Inl e)
                       | Inr w \<Rightarrow>
                           (case free_dma_program_structure t [0..<length (heap st)] of
                              None \<Rightarrow> Some (Inl Wild_pointer)
                            | Some live \<Rightarrow> Some (Inr (prog w, rng w))))))"

definition generate_random_dma_program ::
  "'i dma_asm \<Rightarrow> bool \<Rightarrow> u32 \<Rightarrow> (dma_error + 'i option list) option" where
  "generate_random_dma_program asm ltr seed = map_option (map_sum id fst) (generate_program_state asm ltr seed)"

section \<open>What the programs look like\<close>

text \<open>Instructions as values, and their encoding by the macros.\<close>

datatype dma_code = SET int int | LOOP int int | TRANSFER int | ADD int int | STOP

primrec encode :: "'i dma_asm \<Rightarrow> dma_code \<Rightarrow> 'i" where
  "encode asm (SET r n) = op_set asm r n"
| "encode asm (LOOP r k) = op_loop asm r k"
| "encode asm (TRANSFER ts) = op_transfer asm ts"
| "encode asm (ADD k n) = op_add asm k n"
| "encode asm STOP = op_stop asm"

text \<open>
  The programs a structure may become at loop level \<open>l\<close> and transfer size \<open>ts\<close>: the grammar the
  generator follows.
\<close>

inductive program_of :: "int \<Rightarrow> int \<Rightarrow> ptree \<Rightarrow> dma_code list \<Rightarrow> bool" where
  transfer: "program_of l ts (POp a) [TRANSFER ts]"
| add: "\<lbrakk>0 \<le> k; k < 3; 0 \<le> n; n < 20\<rbrakk> \<Longrightarrow> program_of l ts (POp a) [ADD k (2 ^ nat ts * n)]"
| seq: "\<lbrakk>program_of l ts t xs; program_of l ts u ys\<rbrakk> \<Longrightarrow> program_of l ts (PSeq a t u) (xs @ ys)"
| loop: "\<lbrakk>program_of (l + 1) ts b xs; 1 \<le> n; n \<le> 5\<rbrakk> \<Longrightarrow>
     program_of l ts (PLoop a b) (SET l n # xs @ [LOOP l (int (length xs))])"

inductive_cases program_of_opE: "program_of l ts (POp a) xs"
inductive_cases program_of_seqE: "program_of l ts (PSeq a t u) xs"
inductive_cases program_of_loopE: "program_of l ts (PLoop a b) xs"

lemma program_of_length: "program_of l ts t xs \<Longrightarrow> length xs = tree_length t"
  by (induction rule: program_of.induct) simp_all

text \<open>The writer has written the instructions \<open>xs\<close> from where it was.\<close>

definition wrote :: "'i dma_asm \<Rightarrow> 'i writer \<Rightarrow> dma_code list \<Rightarrow> 'i writer \<Rightarrow> bool" where
  "wrote asm w xs w' \<longleftrightarrow> pos w' = pos w + length xs \<and> pos w' \<le> length (prog w) \<and>
     prog w' = take (pos w) (prog w) @ map (Some \<circ> encode asm) xs @ drop (pos w + length xs) (prog w)"

lemma wrote_emit:
  "pos w < length (prog w) \<Longrightarrow> \<exists>w'. emit (encode asm c) w = Inr w' \<and> wrote asm w [c] w'"
  by (simp add: emit_def wrote_def upd_conv_take_nth_drop)

lemma wrote_facts: "wrote asm w xs w' \<Longrightarrow>
    pos w' = pos w + length xs \<and> length (prog w') = length (prog w) \<and> pos w' \<le> length (prog w)"
  by (auto simp: wrote_def)

lemma wrote_trans:
  assumes "wrote asm w xs w'" and "wrote asm w' ys w''"
  shows "wrote asm w (xs @ ys) w''"
proof -
  note f = wrote_facts [OF assms(1)] wrote_facts [OF assms(2)]
  have p: "prog w' = take (pos w) (prog w) @ map (Some \<circ> encode asm) xs @ drop (pos w') (prog w)"
    using assms(1) by (simp add: wrote_def)
  have "take (pos w') (prog w') = take (pos w) (prog w) @ map (Some \<circ> encode asm) xs"
    using f by (simp add: p)
  moreover have "drop (pos w' + length ys) (prog w') = drop (pos w + length (xs @ ys)) (prog w)"
    using f by (simp add: p add.commute add.left_commute)
  ultimately show ?thesis
    using assms(2) f by (simp add: wrote_def)
qed

lemma draw_facts: "draw m w = (n, w') \<Longrightarrow> 0 < m \<Longrightarrow>
    0 \<le> n \<and> n < m \<and> pos w' = pos w \<and> prog w' = prog w"
  by (auto simp: draw_def)

lemma wrote_cong: "pos v = pos w \<Longrightarrow> prog v = prog w \<Longrightarrow> wrote asm v xs w' = wrote asm w xs w'"
  by (simp add: wrote_def)

lemma sint_program_length: "tree_length t \<le> 25 \<Longrightarrow> sint (dma_program_length t) = int (tree_length t)"
  by (simp add: dma_program_length_of_nat sint_uint unsigned_of_nat take_bit_nat_eq_self
      signed_take_bit_int_eq_self)

lemma write_program:
  assumes "l + int (loop_depth t) \<le> 4" and "pos w + tree_length t \<le> length (prog w)"
    and "tree_length t \<le> 25"
  shows "\<exists>w' xs. write_random_dma_program asm ltr t l ts w = Inr w' \<and> program_of l ts t xs \<and>
     wrote asm w xs w'"
  using assms
proof (induction t arbitrary: l w)
  case (PLoop a b)
  obtain n w0 where w0: "draw 5 w = (n, w0)" by fastforce
  note d = draw_facts [OF w0]
  obtain w1 where w1: "emit (op_set asm l (1 + n)) w0 = Inr w1" "wrote asm w0 [SET l (1 + n)] w1"
    using wrote_emit [of w0 asm "SET l (1 + n)"] PLoop.prems d by auto
  obtain w2 xs where w2: "write_random_dma_program asm ltr b (l + 1) ts w1 = Inr w2"
    "program_of (l + 1) ts b xs" "wrote asm w1 xs w2"
    using PLoop.IH [of "l + 1" w1] PLoop.prems wrote_facts [OF w1(2)] d by auto
  note len = program_of_length [OF w2(2)]
  obtain w3 where w3: "emit (op_loop asm l (int (length xs))) w2 = Inr w3"
    "wrote asm w2 [LOOP l (int (length xs))] w3"
    using wrote_emit [of w2 asm "LOOP l (int (length xs))"] PLoop.prems wrote_facts [OF w1(2)]
      wrote_facts [OF w2(3)] d len
    by auto
  have "wrote asm w ([SET l (1 + n)] @ xs @ [LOOP l (int (length xs))]) w3"
    using wrote_trans [OF wrote_trans [OF w1(2) w2(3)] w3(2)] d by (simp add: wrote_cong [of w0 w])
  moreover have "program_of l ts (PLoop a b) (SET l (1 + n) # xs @ [LOOP l (int (length xs))])"
    using w2(2) d by (intro program_of.loop) auto
  ultimately show ?case
    using PLoop.prems w0 w1(1) w2(1) w3(1) len by (auto simp: sint_program_length)
next
  case (PSeq a t u)
  have b: "l + int (loop_depth t) \<le> 4" "l + int (loop_depth u) \<le> 4"
    using PSeq.prems(1) by (simp_all add: max_def split: if_splits)
  obtain w1 xs where w1: "write_random_dma_program asm ltr t l ts w = Inr w1"
    "program_of l ts t xs" "wrote asm w xs w1"
    using PSeq.IH(1) [of l w] PSeq.prems b by auto
  obtain w2 ys where w2: "write_random_dma_program asm ltr u l ts w1 = Inr w2"
    "program_of l ts u ys" "wrote asm w1 ys w2"
    using PSeq.IH(2) [of l w1] PSeq.prems b wrote_facts [OF w1(3)] program_of_length [OF w1(2)]
    by auto
  show ?case
    using PSeq.prems w1 w2 wrote_trans [OF w1(3) w2(3)] program_of.seq [OF w1(2) w2(2), of a] by auto
next
  case (POp a)
  obtain coin w0 where w0: "draw 2 w = (coin, w0)" by fastforce
  obtain k1 w1 where w1: "draw 3 w0 = (k1, w1)" by fastforce
  obtain n1 w2 where w2: "draw 20 w1 = (n1, w2)" by fastforce
  obtain n2 w3 where w3: "draw 20 w0 = (n2, w3)" by fastforce
  obtain k2 w4 where w4: "draw 3 w3 = (k2, w4)" by fastforce
  note d = draw_facts [OF w0] draw_facts [OF w1] draw_facts [OF w2] draw_facts [OF w3] draw_facts [OF w4]
  have fin: "\<exists>w' xs. emit (encode asm c) v = Inr w' \<and> program_of l ts (POp a) xs \<and> wrote asm w xs w'"
    if "pos v = pos w" "prog v = prog w" "program_of l ts (POp a) [c]" for c v
    using wrote_emit [of v asm c] that POp.prems wrote_cong [of v w asm "[c]"] by auto
  show ?case
    using POp.prems d w0 w1 w2 w3 w4 fin [OF _ _ program_of.transfer, of w0]
      fin [OF _ _ program_of.add, of w2 k1 n1] fin [OF _ _ program_of.add, of w4 k2 n2]
    by auto
qed

lemma write_program_too_deep:
  assumes "4 < l + int (loop_depth t)" and "l \<le> 5" and "pos w + tree_length t \<le> length (prog w)"
    and "tree_length t \<le> 25"
  shows "write_random_dma_program asm ltr t l ts w = Inl Assertion_failed"
  using assms
proof (induction t arbitrary: l w)
  case (PLoop a b)
  obtain n w0 where w0: "draw 5 w = (n, w0)" by fastforce
  note d = draw_facts [OF w0]
  obtain w1 where w1: "emit (op_set asm l (1 + n)) w0 = Inr w1" "wrote asm w0 [SET l (1 + n)] w1"
    using wrote_emit [of w0 asm "SET l (1 + n)"] PLoop.prems d by auto
  show ?case
    using PLoop.IH [of "l + 1" w1] PLoop.prems w0 w1(1) wrote_facts [OF w1(2)] d by auto
next
  case (PSeq a t u)
  show ?case
  proof (cases "4 < l + int (loop_depth t)")
    case True
    then show ?thesis using PSeq.IH(1) [of l w] PSeq.prems by (auto simp: of_nat_max)
  next
    case False
    then obtain w1 xs where w1: "write_random_dma_program asm ltr t l ts w = Inr w1"
      "program_of l ts t xs" "wrote asm w xs w1"
      using write_program [of l t w asm ltr ts] PSeq.prems by auto
    with False show ?thesis
      using PSeq.IH(2) [of l w1] PSeq.prems program_of_length [OF w1(2)] wrote_facts [OF w1(3)]
      by (auto simp: of_nat_max)
  qed
next
  case (POp a)
  then show ?case by simp
qed

lemma generate_cases:
  fixes asm :: "'i dma_asm"
  assumes st: "random_dma_program_structure seed = Some (Inr (st, s))"
    and t: "program_tree (heap st) = Some t"
  shows "if loop_depth t \<le> 4
    then \<exists>ts xs. 0 \<le> ts \<and> ts < 6 \<and> program_of 0 ts t xs \<and> length xs \<le> 25 \<and>
       generate_random_dma_program asm ltr seed = Some (Inr (map (Some \<circ> encode asm) (xs @ [STOP])))
    else generate_random_dma_program asm ltr seed = Some (Inl Assertion_failed)"
proof -
  obtain st' s' t' where str: "random_dma_program_structure seed = Some (Inr (st', s'))"
    "program_tree (heap st') = Some t'" "mset (addrs t') = mset [0..<length (heap st')]"
    "tree_length t' \<le> 25"
    by (rule structure_tree [of seed])
  with st t have len: "tree_length t \<le> 25" and
    free: "free_dma_program_structure t [0..<length (heap st)] = Some []"
    using free_structure_live [of "[0..<length (heap st')]" t' "{#}"] by auto
  have n: "unat (dma_program_length t + 1) = Suc (tree_length t)"
    using len by (simp add: dma_program_length_of_nat unat_word_ariths unat_of_nat)
  define w :: "'i writer" where "w = \<lparr>prog = replicate (Suc (tree_length t)) None, pos = 0, rng = s\<rparr>"
  obtain ts v where v: "draw 6 w = (ts, v)" by fastforce
  note d = draw_facts [OF v]
  show ?thesis
  proof (cases "loop_depth t \<le> 4")
    case False
    then have "write_random_dma_program asm ltr t 0 ts v = Inl Assertion_failed"
      using write_program_too_deep [of 0 t v asm ltr ts] len d by (simp add: w_def)
    with False st t v show ?thesis
      by (simp add: generate_random_dma_program_def generate_program_state_def n w_def)
  next
    case True
    then obtain v1 xs where v1: "write_random_dma_program asm ltr t 0 ts v = Inr v1"
      "program_of 0 ts t xs" "wrote asm v xs v1"
      using write_program [of 0 t v asm ltr ts] len d by (auto simp: w_def)
    note len_xs = program_of_length [OF v1(2)]
    obtain v2 where v2: "emit (encode asm STOP) v1 = Inr v2" "wrote asm v1 [STOP] v2"
      using wrote_emit [of v1 asm STOP] wrote_facts [OF v1(3)] d len_xs by (auto simp: w_def)
    have "prog v2 = map (Some \<circ> encode asm) (xs @ [STOP])"
      using wrote_trans [OF v1(3) v2(2)] d len_xs by (simp add: wrote_def w_def)
    then have "generate_random_dma_program asm ltr seed = Some (Inr (map (Some \<circ> encode asm) (xs @ [STOP])))"
      using st t v v1(1) v2(1) free by (simp add: generate_random_dma_program_def generate_program_state_def n w_def)
    with v1(2) d len len_xs show ?thesis
      unfolding if_P [OF True] by (intro exI [of _ ts] exI [of _ xs]) auto
  qed
qed

text \<open>
  In a program the instruction \<open>LOOP r k\<close> closes a body of \<open>k\<close> instructions that follows the
  instruction setting its counter to a value between 1 and 5, and the body does not set that
  counter: \<open>the main constraint\<close> of the generator.
\<close>

definition loops_ok :: "dma_code list \<Rightarrow> bool" where
  "loops_ok xs \<longleftrightarrow> (\<forall>p r k. p < length xs \<longrightarrow> xs ! p = LOOP r k \<longrightarrow>
     (\<exists>b n. k = int b \<and> b < p \<and> xs ! (p - Suc b) = SET r n \<and> 1 \<le> n \<and> n \<le> 5 \<and>
        (\<forall>q m. p - b \<le> q \<longrightarrow> q < p \<longrightarrow> xs ! q \<noteq> SET r m)))"

lemma loops_okD:
  assumes "loops_ok xs" and "p < length xs" and "xs ! p = LOOP r k"
  obtains b n where "k = int b" "b < p" "xs ! (p - Suc b) = SET r n" "1 \<le> n" "n \<le> 5"
    "\<And>q m. p - b \<le> q \<Longrightarrow> q < p \<Longrightarrow> xs ! q \<noteq> SET r m"
  using assms unfolding loops_ok_def by metis

lemma loops_okI:
  assumes "\<And>p r k. p < length xs \<Longrightarrow> xs ! p = LOOP r k \<Longrightarrow>
     \<exists>b n. k = int b \<and> b < p \<and> xs ! (p - Suc b) = SET r n \<and> 1 \<le> n \<and> n \<le> 5 \<and>
        (\<forall>q m. p - b \<le> q \<longrightarrow> q < p \<longrightarrow> xs ! q \<noteq> SET r m)"
  shows "loops_ok xs"
  using assms unfolding loops_ok_def by blast

lemma loops_ok_append: "loops_ok xs \<Longrightarrow> loops_ok ys \<Longrightarrow> loops_ok (xs @ ys)"
proof (rule loops_okI)
  fix p r k
  assume xs: "loops_ok xs" and ys: "loops_ok ys"
    and p: "p < length (xs @ ys)" "(xs @ ys) ! p = LOOP r k"
  let ?G = "\<lambda>b n. k = int b \<and> b < p \<and> (xs @ ys) ! (p - Suc b) = SET r n \<and> 1 \<le> n \<and> n \<le> 5 \<and>
        (\<forall>q m. p - b \<le> q \<longrightarrow> q < p \<longrightarrow> (xs @ ys) ! q \<noteq> SET r m)"
  show "\<exists>b n. ?G b n"
  proof (cases "p < length xs")
    case True
    with p have "xs ! p = LOOP r k" by (simp add: nth_append)
    from loops_okD [OF xs True this] obtain b n where "k = int b" "b < p"
      "xs ! (p - Suc b) = SET r n" "1 \<le> n" "n \<le> 5" "\<And>q m. p - b \<le> q \<Longrightarrow> q < p \<Longrightarrow> xs ! q \<noteq> SET r m"
      by blast
    moreover have "p - Suc b < length xs" using True by simp
    ultimately have "?G b n" using True by (simp add: nth_append)
    then show ?thesis by blast
  next
    case False
    define p' where "p' = p - length xs"
    with False p have "p' < length ys" "ys ! p' = LOOP r k" by (auto simp: nth_append)
    from loops_okD [OF ys this] obtain b n where b: "k = int b" "b < p'"
      "ys ! (p' - Suc b) = SET r n" "1 \<le> n" "n \<le> 5" "\<And>q m. p' - b \<le> q \<Longrightarrow> q < p' \<Longrightarrow> ys ! q \<noteq> SET r m"
      by blast
    have "(xs @ ys) ! q \<noteq> SET r m" if "p - b \<le> q" "q < p" for q m
      using that b(2) b(6) [of "q - length xs" m] False by (auto simp: nth_append p'_def)
    moreover have "p - Suc b - length xs = p' - Suc b" "\<not> p - Suc b < length xs"
      using b(2) by (auto simp: p'_def)
    ultimately have "?G b n"
      using b by (simp add: nth_append p'_def)
    then show ?thesis by blast
  qed
qed

lemma program_of_counters: "program_of l ts t xs \<Longrightarrow> SET r n \<in> set xs \<Longrightarrow> l \<le> r"
  by (induction rule: program_of.induct) auto

lemma loops_ok_wrap:
  assumes xs: "loops_ok xs" and n: "1 \<le> n" "n \<le> 5" and fresh: "\<And>m. SET r m \<notin> set xs"
  shows "loops_ok (SET r n # xs @ [LOOP r (int (length xs))])" (is "loops_ok ?ys")
proof -
  have pre: "loops_ok [SET r n]" by (simp add: loops_ok_def)
  have "loops_ok (SET r n # xs)" using loops_ok_append [OF pre xs] by simp
  show ?thesis
  proof (rule loops_okI)
    fix p r' k
    assume p: "p < length ?ys" "?ys ! p = LOOP r' k"
    let ?G = "\<lambda>b m. k = int b \<and> b < p \<and> ?ys ! (p - Suc b) = SET r' m \<and> 1 \<le> m \<and> m \<le> 5 \<and>
        (\<forall>q m. p - b \<le> q \<longrightarrow> q < p \<longrightarrow> ?ys ! q \<noteq> SET r' m)"
    show "\<exists>b m. ?G b m"
    proof (cases "p = Suc (length xs)")
      case True
      with p have "r' = r" "k = int (length xs)" by (simp_all add: nth_append)
      moreover have "?ys ! q \<noteq> SET r m" if "1 \<le> q" "q < p" for q m
        using that True fresh by (cases q) (auto simp: nth_append, metis nth_mem)
      ultimately have "?G (length xs) n" using True n by auto
      then show ?thesis by blast
    next
      case False
      with p have "p < length (SET r n # xs)" "(SET r n # xs) ! p = LOOP r' k"
        by (auto simp: nth_append nth_Cons split: nat.splits if_splits)
      from loops_okD [OF \<open>loops_ok (SET r n # xs)\<close> this] obtain b m where b: "k = int b" "b < p"
        "(SET r n # xs) ! (p - Suc b) = SET r' m" "1 \<le> m" "m \<le> 5"
        "\<And>q m. p - b \<le> q \<Longrightarrow> q < p \<Longrightarrow> (SET r n # xs) ! q \<noteq> SET r' m"
        by blast
      have same: "?ys ! q = (SET r n # xs) ! q" if "q \<le> p" for q
        using that \<open>p < length (SET r n # xs)\<close> by (cases q) (auto simp: nth_append)
      have "?ys ! q \<noteq> SET r' m" if "p - b \<le> q" "q < p" for q m
        using b(6) [OF that] same [of q] that(2) by simp
      moreover have "?ys ! (p - Suc b) = SET r' m" using b(3) same [of "p - Suc b"] by simp
      ultimately have "?G b m" using b(1,2,4,5) by blast
      then show ?thesis by blast
    qed
  qed
qed

lemma program_of_loops_ok: "program_of l ts t xs \<Longrightarrow> loops_ok xs"
proof (induction rule: program_of.induct)
  case (loop l ts b xs n a)
  then show ?case using program_of_counters [OF loop.hyps(1)] by (intro loops_ok_wrap) force+
qed (simp_all add: loops_ok_append, simp_all add: loops_ok_def)

text \<open>
  C17. For every seed, whatever the instruction encoding and the order in which arguments are
  evaluated: when the loops of the structure nest at most four deep, the program is written
  without overrunning its buffer and fills it exactly, at most 25 instructions and then \<open>STOP\<close>,
  every loop instruction jumping back over a body that its own counter was set for and that does
  not set that counter; when they nest deeper the assertion on \<open>loop_level\<close> fails.
\<close>

theorem dma_program_generated:
  "\<exists>st s t. random_dma_program_structure seed = Some (Inr (st, s)) \<and>
     program_tree (heap st) = Some t \<and>
     (if loop_depth t \<le> 4
      then \<exists>ts xs. 0 \<le> ts \<and> ts < 6 \<and> program_of 0 ts t xs \<and> loops_ok xs \<and> length xs \<le> 25 \<and>
         generate_random_dma_program asm ltr seed =
           Some (Inr (map (Some \<circ> encode asm) (xs @ [STOP])))
      else generate_random_dma_program asm ltr seed = Some (Inl Assertion_failed))"
proof -
  obtain st s t where st: "random_dma_program_structure seed = Some (Inr (st, s))"
    "program_tree (heap st) = Some t"
    by (rule structure_tree)
  from generate_cases [OF this, of asm ltr] program_of_loops_ok [of 0 _ t] show ?thesis
    by (intro exI [of _ st] exI [of _ s] exI [of _ t]) (auto simp: st split: if_splits)
qed

declare fill_spaces.simps [code]

lemma seed_4501_depth:
  "map_option (map_sum id (\<lambda>(st, s). map_option loop_depth (program_tree (heap st))))
     (random_dma_program_structure 4501) = Some (Inr (Some 5))"
  by code_simp

text \<open>
  The depth of loops is not bounded by four as the comment on the structure has it: seed 4501
  makes a program of length at most 25 with five nested loops, and generating it ends in the
  failed assertion for every encoding.
\<close>

theorem dma_depth_assertion_fails:
  "generate_random_dma_program asm ltr 4501 = Some (Inl Assertion_failed)"
proof -
  obtain st s t where st: "random_dma_program_structure 4501 = Some (Inr (st, s))"
    "program_tree (heap st) = Some t"
    by (rule structure_tree)
  with seed_4501_depth have "loop_depth t = 5" by simp
  with generate_cases [OF st, of asm ltr] show ?thesis by simp
qed

end
