(* ===== verification/TestText.thy ===== *)
theory TestText
  imports CPrelude
begin

text \<open>
  A reader of the C text the test generators print: the calls, assignments, comparisons and pointers
  of a test, taken from the printed characters alone. The theorems on generated tests speak of what
  this reader finds in a printed line, so that the line itself is what is judged. It corresponds to no
  code of the repository, except \<open>split_on\<close>, with which the scripts take a line apart.
\<close>

section \<open>Fields, literals and numbers\<close>

fun split_on :: "char \<Rightarrow> string \<Rightarrow> string list" where
  "split_on c [] = [[]]"
| "split_on c (x # s) =
     (if x = c then [] # split_on c s
      else (case split_on c s of [] \<Rightarrow> [[x]] | f # fs \<Rightarrow> (x # f) # fs))"

lemma split_on_append: "c \<notin> set s \<Longrightarrow> split_on c (s @ c # t) = s # split_on c t"
  by (induction s) auto

lemma split_on_last: "c \<notin> set s \<Longrightarrow> split_on c s = [s]"
  by (induction s) auto

definition expect :: "string \<Rightarrow> string \<Rightarrow> string option" where
  "expect lit s = (if take (length lit) s = lit then Some (drop (length lit) s) else None)"

lemma expect_append [simp]: "expect lit (lit @ s) = Some s"
  by (simp add: expect_def)

lemma expect_Nil: "expect (c # lit) [] = None"
  by (simp add: expect_def)

lemma expect_Cons [simp]: "expect (c # lit) (c' # s) = (if c = c' then expect lit s else None)"
  by (simp add: expect_def)

lemma expect_empty [simp]: "expect [] s = Some s"
  by (simp add: expect_def)

definition read_number :: "nat \<Rightarrow> string \<Rightarrow> (nat \<times> string) option" where
  "read_number b s =
     (if takeWhile (is_digit b) s = [] then None
      else Some (read_base b 0 (takeWhile (is_digit b) s), dropWhile (is_digit b) s))"

definition no_digit :: "string \<Rightarrow> bool" where
  "no_digit s \<longleftrightarrow> s = [] \<or> \<not> is_digit 16 (hd s)"

lemma digits_10_16: "is_digit 10 c \<Longrightarrow> is_digit 16 c"
  by (auto simp: is_digit_def split: option.splits)

lemma read_number_show:
  assumes "b = 10 \<or> b = 16" and "no_digit s"
  shows "read_number b (show_base b n @ s) = Some (n, s)"
proof -
  have d: "c \<in> set (show_base b n) \<Longrightarrow> is_digit b c" for c
    using assms(1) show_base_digits [of b n] by (auto simp: list_all_iff)
  have s: "takeWhile (is_digit b) s = []" "dropWhile (is_digit b) s = s"
    using assms digits_10_16 by (cases s; fastforce simp: no_digit_def)+
  have "takeWhile (is_digit b) (show_base b n @ s) = show_base b n"
    "dropWhile (is_digit b) (show_base b n @ s) = s"
    using d s by (simp_all add: takeWhile_append2 dropWhile_append2)
  then show ?thesis using assms(1) read_show_base [of b n] by (auto simp: read_number_def)
qed

text \<open>A decimal number, perhaps negative, and an address in hexadecimal.\<close>

definition read_int :: "string \<Rightarrow> (int \<times> string) option" where
  "read_int s =
     (case expect ''-'' s of
        Some t \<Rightarrow> map_option (\<lambda>(n, r). (- int n, r)) (read_number 10 t)
      | None \<Rightarrow> map_option (\<lambda>(n, r). (int n, r)) (read_number 10 s))"

lemma minus_no_digit: "\<not> is_digit 10 CHR ''-''"
  by code_simp

lemma read_int_show:
  assumes "no_digit s"
  shows "read_int (fmt_d i @ s) = Some (i, s)"
proof (cases "i < 0")
  case True
  then show ?thesis using read_number_show [OF _ assms, of 10] by (simp add: read_int_def fmt_d_def)
next
  case False
  obtain c cs where c: "show_base 10 (nat i) = c # cs" by (metis show_base_nonempty neq_Nil_conv)
  then have "is_digit 10 c" using show_base_digits [of 10 "nat i"] by simp
  then have "c \<noteq> CHR ''-''" using minus_no_digit by blast
  then have "expect ''-'' (fmt_d i @ s) = None" using False c by (simp add: fmt_d_def)
  then show ?thesis using False read_number_show [OF _ assms, of 10 "nat i"] by (simp add: read_int_def fmt_d_def)
qed

definition read_address :: "string \<Rightarrow> (u64 \<times> string) option" where
  "read_address s =
     Option.bind (expect ''0x'' s) (\<lambda>s. Option.bind (read_number 16 s) (\<lambda>(n, s).
       if n < 2 ^ 64 then Some (of_nat n, s) else None))"

lemma read_address_show:
  assumes "no_digit s"
  shows "read_address (CHR ''0'' # CHR ''x'' # show_base 16 (unat a) @ s) = Some (a, s)"
  using read_number_show [OF _ assms, of 16 "unat a"] unsigned_less [of a, where ?'a = nat]
  by (simp add: read_address_def)

text \<open>A value of a byte.\<close>

definition read_byte :: "string \<Rightarrow> (u8 \<times> string) option" where
  "read_byte s =
     Option.bind (read_int s) (\<lambda>(i, s). if 0 \<le> i \<and> i < 256 then Some (of_int i, s) else None)"

lemma read_byte_show: "no_digit s \<Longrightarrow> read_byte (fmt_d (uint v) @ s) = Some (v, s)"
  using uint_bounded [of v] by (simp add: read_byte_def read_int_show)

section \<open>Sequences\<close>

text \<open>Reading with \<open>p\<close> as often as it succeeds and goes on.\<close>

function read_many :: "(string \<Rightarrow> ('a \<times> string) option) \<Rightarrow> string \<Rightarrow> 'a list \<times> string" where
  "read_many p s =
     (case p s of
        None \<Rightarrow> ([], s)
      | Some (x, r) \<Rightarrow>
          if length r < length s then (let (xs, t) = read_many p r in (x # xs, t)) else ([], s))"
  by pat_completeness auto
termination by (relation "measure (\<lambda>(p, s). length s)") auto

declare read_many.simps [simp del]

lemma read_many_stop: "p s = None \<Longrightarrow> read_many p s = ([], s)"
  by (subst read_many.simps) simp

lemma read_many_concat:
  assumes "p rest = None" and "G rest"
    and "\<And>x r. x \<in> set xs \<Longrightarrow> G r \<Longrightarrow> p (f x @ r) = Some (x, r)"
    and "\<And>x r. x \<in> set xs \<Longrightarrow> G r \<Longrightarrow> G (f x @ r)"
    and "\<And>x. x \<in> set xs \<Longrightarrow> f x \<noteq> []"
  shows "read_many p (concat (map f xs) @ rest) = (xs, rest)"
proof -
  have "read_many p (concat (map f xs) @ rest) = (xs, rest) \<and> G (concat (map f xs) @ rest)"
    using assms(3-5)
  proof (induction xs)
    case (Cons x xs)
    then have IH: "read_many p (concat (map f xs) @ rest) = (xs, rest)" "G (concat (map f xs) @ rest)"
      by simp_all
    then show ?case using Cons.prems by (subst read_many.simps) simp
  qed (use assms(1,2) read_many_stop in auto)
  then show ?thesis by simp
qed

text \<open>A whole text as one sequence.\<close>

definition read_all :: "(string \<Rightarrow> ('a \<times> string) option) \<Rightarrow> string \<Rightarrow> 'a list option" where
  "read_all p s = (case read_many p s of (xs, r) \<Rightarrow> if r = [] then Some xs else None)"

lemma read_all_concat:
  assumes "p [] = None" "G []" "\<And>x r. x \<in> set xs \<Longrightarrow> G r \<Longrightarrow> p (f x @ r) = Some (x, r)"
    and "\<And>x r. x \<in> set xs \<Longrightarrow> G r \<Longrightarrow> G (f x @ r)" "\<And>x. x \<in> set xs \<Longrightarrow> f x \<noteq> []"
  shows "read_all p (concat (map f xs)) = Some xs"
  using read_many_concat [of p "[]" G xs f] assms by (simp add: read_all_def)

section \<open>What a test compares\<close>

text \<open>The assignments of a test in turn, and whether all its comparisons hold.\<close>

definition run_sources :: "(u64 \<times> u8) list \<Rightarrow> (u64 \<Rightarrow> u8) \<Rightarrow> u64 \<Rightarrow> u8" where
  "run_sources = fold (\<lambda>(a, v) m. m(a := v))"

definition checks_hold :: "(u64 \<times> u8) list \<Rightarrow> (u64 \<Rightarrow> u8) \<Rightarrow> bool" where
  "checks_hold checks dst \<longleftrightarrow> list_all (\<lambda>(a, v). dst a = v) checks"

end
