(* ===== verification/DmaTest.thy ===== *)
theory DmaTest
  imports DmaGen TestText
begin

text \<open>
  The transfers of a DMA program and the test printed for it:
  \<open>list_transfers\<close> and \<open>free_transfer_list\<close> of \<open>fuzz_dma/dma_test_generation.c\<close> and
  \<open>fuzz_dma/generate_dma_test.c\<close>. The engine \<open>dma_execute_instruction\<close> (\<open>DMAModel.h\<close>, not in the
  repository) is an argument: it answers the next state of the thread and the calls of the
  callback it makes, each with a source, a destination and the logarithm of a size.
  Addresses are 64-bit and instructions 32-bit words, as the formats \<open>%lld\<close> and \<open>0x%08x\<close> print
  them.
\<close>

section \<open>Listing transfers\<close>

datatype dma_state = DMAM_RUNNING | DMAM_STOPPED

record 'p dma_thread =
  dmat_program_counter :: 'p
  dmat_external_program_counter :: 'p
  dmat_source :: u64
  dmat_external_source :: u64
  dmat_destination :: u64
  dmat_external_destination :: u64
  dmat_state :: dma_state

type_synonym transfer = "u64 \<times> u64 \<times> nat"
type_synonym 'p dma_engine = "'p dma_thread \<Rightarrow> 'p dma_thread \<times> transfer list"

record transfer_record =
  source :: u64
  destination :: u64
  size_log :: nat
  next_record :: "nat option"

text \<open>The records in the heap, addressed by the order of allocation.\<close>

definition record_transfer :: "nat \<Rightarrow> transfer \<Rightarrow> transfer_record list \<Rightarrow> transfer_record list" where
  "record_transfer tail c h =
     (case c of (s, d, z) \<Rightarrow>
        h[tail := (h ! tail)\<lparr>next_record := Some (length h)\<rparr>]
          @ [\<lparr>source = s, destination = d, size_log = z, next_record = None\<rparr>])"

partial_function (option) transfer_loop ::
  "'p dma_engine \<Rightarrow> 'p dma_thread \<Rightarrow> nat \<Rightarrow> transfer_record list \<Rightarrow> transfer_record list option" where
  "transfer_loop exec thread tail h =
     (if dmat_state thread \<noteq> DMAM_STOPPED then
        (let (thread', calls) = exec thread;
             h' = fold (record_transfer tail) calls h;
             tail' = (case next_record (h' ! tail) of None \<Rightarrow> tail | Some n \<Rightarrow> n)
         in transfer_loop exec thread' tail' h')
      else Some h)"

definition start_thread :: "'p \<Rightarrow> 'p dma_thread" where
  "start_thread program =
     \<lparr>dmat_program_counter = program, dmat_external_program_counter = program,
      dmat_source = 0, dmat_external_source = 0,
      dmat_destination = 0, dmat_external_destination = 0, dmat_state = DMAM_RUNNING\<rparr>"

text \<open>The false head has address 0; its other fields are never read.\<close>

definition list_transfers ::
  "'p dma_engine \<Rightarrow> 'p \<Rightarrow> (transfer_record list \<times> nat option) option" where
  "list_transfers exec program =
     (let false_head = \<lparr>source = 0, destination = 0, size_log = 0, next_record = None\<rparr>
      in case transfer_loop exec (start_thread program) 0 [false_head] of
           None \<Rightarrow> None
         | Some h \<Rightarrow> Some (h, next_record (h ! 0)))"

text \<open>Walking a list of records; \<open>n\<close> bounds the number of records.\<close>

fun records_from :: "nat \<Rightarrow> transfer_record list \<Rightarrow> nat option \<Rightarrow> nat list" where
  "records_from 0 h p = []"
| "records_from (Suc n) h p =
     (case p of None \<Rightarrow> [] | Some a \<Rightarrow> a # records_from n h (next_record (h ! a)))"

definition transfer_list :: "transfer_record list \<Rightarrow> nat option \<Rightarrow> transfer list" where
  "transfer_list h p =
     map (\<lambda>a. (source (h ! a), destination (h ! a), size_log (h ! a))) (records_from (length h) h p)"

text \<open>The loop reads the successor of a record before it releases the record.\<close>

fun free_transfer_list :: "nat \<Rightarrow> transfer_record list \<Rightarrow> nat option \<Rightarrow> nat list \<Rightarrow> nat list option" where
  "free_transfer_list 0 h current live = (case current of None \<Rightarrow> Some live | Some a \<Rightarrow> None)"
| "free_transfer_list (Suc n) h current live =
     (case current of
        None \<Rightarrow> Some live
      | Some a \<Rightarrow>
          if a \<in> set live
          then Option.bind (free_addr a live) (free_transfer_list n h (next_record (h ! a)))
          else None)"

text \<open>
  A run of the engine from a thread until it stops: the calls of each instruction. Of the calls
  of one instruction the list keeps the last, since all of them hang their record on the same
  tail.
\<close>

inductive engine_run :: "'p dma_engine \<Rightarrow> 'p dma_thread \<Rightarrow> transfer list list \<Rightarrow> bool"
  for exec where
  stopped: "dmat_state th = DMAM_STOPPED \<Longrightarrow> engine_run exec th []"
| step: "\<lbrakk>dmat_state th \<noteq> DMAM_STOPPED; exec th = (th', calls); engine_run exec th' css\<rbrakk> \<Longrightarrow>
     engine_run exec th (calls # css)"

inductive_simps engine_run_Nil: "engine_run exec th []"
inductive_simps engine_run_Cons: "engine_run exec th (calls # css)"

definition kept :: "transfer list \<Rightarrow> transfer list" where
  "kept calls = (if calls = [] then [] else [last calls])"

text \<open>
  The heap holds the list of the records at the addresses \<open>as\<close>, the false head first.
\<close>

definition record_chain :: "transfer_record list \<Rightarrow> nat list \<Rightarrow> bool" where
  "record_chain h as \<longleftrightarrow> as \<noteq> [] \<and> hd as = 0 \<and> distinct as \<and> (\<forall>a\<in>set as. a < length h) \<and>
     (\<forall>i. Suc i < length as \<longrightarrow> next_record (h ! (as ! i)) = Some (as ! Suc i)) \<and>
     next_record (h ! last as) = None"

definition record_at :: "transfer_record list \<Rightarrow> nat \<Rightarrow> transfer" where
  "record_at h a = (source (h ! a), destination (h ! a), size_log (h ! a))"

text \<open>Hanging records on the last address of a chain, and keeping the last of them.\<close>

definition hung :: "transfer_record list \<Rightarrow> nat list \<Rightarrow> transfer list \<Rightarrow> transfer_record list \<Rightarrow> bool" where
  "hung h as calls h' \<longleftrightarrow> length h' = length h + length calls \<and>
     (\<forall>a<length h. a \<noteq> last as \<longrightarrow> h' ! a = h ! a) \<and>
     record_at h' (last as) = record_at h (last as) \<and>
     (if calls = [] then h' ! last as = h ! last as
      else next_record (h' ! last as) = Some (length h' - 1) \<and>
        next_record (h' ! (length h' - 1)) = None \<and> record_at h' (length h' - 1) = last calls)"

lemma hung_record:
  assumes "hung h as calls h'" and "last as < length h"
  shows "hung h as (calls @ [c]) (record_transfer (last as) c h')"
proof (cases c)
  case (fields s d z)
  from assms have len: "length h' = length h + length calls" by (simp add: hung_def)
  moreover have "last as \<noteq> length h'" "last as < length h'" using len assms(2) by auto
  ultimately show ?thesis
    using assms unfolding hung_def
    by (auto simp: record_transfer_def fields record_at_def nth_append nth_list_update
        split: if_splits)
qed

lemma hung_calls: "as \<noteq> [] \<Longrightarrow> last as < length h \<Longrightarrow> hung h as calls (fold (record_transfer (last as)) calls h)"
proof (induction calls rule: rev_induct)
  case Nil
  then show ?case by (simp add: hung_def)
next
  case (snoc c calls)
  then show ?case by (simp add: hung_record)
qed

lemma record_chain_extend:
  assumes ch: "record_chain h as" and h': "hung h as calls h'"
  defines "bs \<equiv> if calls = [] then as else as @ [length h' - 1]"
  shows "record_chain h' bs"
    and "map (record_at h') (tl bs) = map (record_at h) (tl as) @ kept calls"
    and "last bs = (case next_record (h' ! last as) of None \<Rightarrow> last as | Some n \<Rightarrow> n)"
proof -
  have as: "as \<noteq> []" "last as \<in> set as" using ch by (auto simp: record_chain_def)
  have keep: "h' ! a = h ! a" if "a \<in> set as" "a \<noteq> last as" for a
    using that ch h' by (auto simp: record_chain_def hung_def)
  have same: "record_at h' a = record_at h a" if "a \<in> set as" for a
    using that keep [OF that] h' by (cases "a = last as") (auto simp: record_at_def hung_def)
  have inner: "as ! i \<noteq> last as" if "Suc i < length as" for i
    using that ch by (auto simp: record_chain_def last_conv_nth nth_eq_iff_index_eq)
  have succ: "next_record (h' ! (as ! i)) = Some (as ! Suc i)" if "Suc i < length as" for i
    using that keep [of "as ! i"] inner [OF that] ch by (auto simp: record_chain_def)
  show "record_chain h' bs"
  proof (cases "calls = []")
    case True
    with ch h' succ show ?thesis by (auto simp: bs_def record_chain_def hung_def)
  next
    case False
    then have "0 < length calls" by simp
    moreover have "length h' = length h + length calls" using h' by (simp add: hung_def)
    ultimately have le: "length h \<le> length h' - 1" and lt: "length h' - 1 < length h'" by linarith+
    moreover have "\<forall>a\<in>set as. a < length h" using ch by (simp add: record_chain_def)
    ultimately have new: "length h' - 1 \<notin> set as" by fastforce
    have "next_record (h' ! (bs ! i)) = Some (bs ! Suc i)" if "Suc i < length bs" for i
    proof (cases "Suc i < length as")
      case True
      with succ [of i] show ?thesis by (simp add: bs_def nth_append)
    next
      case outer: False
      with that False have i: "Suc i = length as" by (simp add: bs_def)
      then have "as ! i = last as" using as by (metis last_conv_nth diff_Suc_1)
      with i False h' show ?thesis by (auto simp: bs_def nth_append hung_def)
    qed
    then show ?thesis
      using ch h' False new le lt by (auto simp: bs_def record_chain_def hung_def)
  qed
  show "map (record_at h') (tl bs) = map (record_at h) (tl as) @ kept calls"
    using same h' as list.set_sel(2) [OF as(1)] by (auto simp: bs_def kept_def hung_def)
  show "last bs = (case next_record (h' ! last as) of None \<Rightarrow> last as | Some n \<Rightarrow> n)"
    using h' ch by (auto simp: bs_def hung_def record_chain_def)
qed

lemma transfer_loop_run:
  assumes "engine_run exec th css" and "record_chain h as"
  shows "\<exists>h' bs. transfer_loop exec th (last as) h = Some h' \<and> record_chain h' bs \<and>
     map (record_at h') (tl bs) = map (record_at h) (tl as) @ concat (map kept css) \<and>
     length h' = length h + length (concat css)"
  using assms
proof (induction arbitrary: h as rule: engine_run.induct)
  case (stopped th)
  then show ?case by (auto simp: transfer_loop.simps)
next
  case (step th th' calls css)
  define h1 where "h1 = fold (record_transfer (last as)) calls h"
  define bs where "bs = (if calls = [] then as else as @ [length h1 - 1])"
  have hung: "hung h as calls h1"
    using step.prems unfolding h1_def by (intro hung_calls) (auto simp: record_chain_def)
  note ext = record_chain_extend [OF step.prems hung, folded bs_def]
  obtain h2 cs where h2: "transfer_loop exec th' (last bs) h1 = Some h2" "record_chain h2 cs"
    "map (record_at h2) (tl cs) = map (record_at h1) (tl bs) @ concat (map kept css)"
    "length h2 = length h1 + length (concat css)"
    using step.IH [OF ext(1)] by blast
  moreover have "length h1 = length h + length calls"
    using hung by (simp add: hung_def)
  moreover have "transfer_loop exec th (last as) h = transfer_loop exec th' (last bs) h1"
    using step.hyps by (simp add: transfer_loop.simps [of exec th] h1_def [symmetric] ext(3))
  ultimately show ?case using ext(2) by auto
qed

lemma records_from_chain:
  assumes ch: "record_chain h as" and "i < length as" and "length as - i \<le> n"
  shows "records_from n h (next_record (h ! (as ! i))) = drop (Suc i) as"
  using assms(2,3)
proof (induction n arbitrary: i)
  case 0
  then show ?case by simp
next
  case (Suc n)
  show ?case
  proof (cases "Suc i < length as")
    case True
    with ch have "next_record (h ! (as ! i)) = Some (as ! Suc i)" by (simp add: record_chain_def)
    with Suc True show ?thesis by (simp add: Cons_nth_drop_Suc)
  next
    case False
    with Suc.prems have "Suc i = length as" by simp
    then have "as ! i = last as" by (metis last_conv_nth diff_Suc_1 list.size(3) nat.distinct(1))
    with ch \<open>Suc i = length as\<close> show ?thesis by (simp add: record_chain_def)
  qed
qed

lemma record_chain_length: "record_chain h as \<Longrightarrow> length as \<le> length h"
proof -
  assume ch: "record_chain h as"
  then have "set as \<subseteq> {..<length h}" by (auto simp: record_chain_def)
  then have "card (set as) \<le> length h" by (metis card_lessThan card_mono finite_lessThan)
  then show ?thesis using ch by (simp add: record_chain_def distinct_card)
qed

lemma records_from_head:
  assumes "record_chain h as"
  shows "records_from (length h) h (next_record (h ! 0)) = tl as"
  using records_from_chain [OF assms, of 0 "length h"] record_chain_length [OF assms] assms
  by (cases as) (auto simp: record_chain_def)

lemma list_transfers_chain:
  assumes "engine_run exec (start_thread program) css"
  obtains h as where "list_transfers exec program = Some (h, next_record (h ! 0))"
    and "record_chain h as" and "transfer_list h (next_record (h ! 0)) = concat (map kept css)"
    and "length h = Suc (length (concat css))" and "length (tl as) = length (concat (map kept css))"
proof -
  define h0 :: "transfer_record list" where
    "h0 = [\<lparr>source = 0, destination = 0, size_log = 0, next_record = None\<rparr>]"
  have "record_chain h0 [0]" by (simp add: record_chain_def h0_def)
  from transfer_loop_run [OF assms this] obtain h as where
    h: "transfer_loop exec (start_thread program) 0 h0 = Some h" "record_chain h as"
      "map (record_at h) (tl as) = concat (map kept css)" "length h = length h0 + length (concat css)"
    by auto
  show thesis
  proof (rule that [of h as])
    show "list_transfers exec program = Some (h, next_record (h ! 0))"
      using h(1) by (simp add: list_transfers_def h0_def)
    show "transfer_list h (next_record (h ! 0)) = concat (map kept css)"
      using h(3) by (simp add: transfer_list_def records_from_head [OF h(2)] record_at_def [abs_def])
    show "length h = Suc (length (concat css))" using h(4) by (simp add: h0_def)
    show "length (tl as) = length (concat (map kept css))"
      using arg_cong [OF h(3), of length] by simp
  qed (rule h(2))
qed

lemma free_chain:
  assumes "distinct live" and "set (records_from n h p) \<subseteq> set live"
    and "distinct (records_from n h p)"
    and "length (records_from n h p) < n"
  shows "\<exists>rest. free_transfer_list n h p live = Some rest \<and>
     set rest = set live - set (records_from n h p)"
  using assms
proof (induction n arbitrary: p live)
  case 0
  then show ?case by simp
next
  case (Suc n)
  show ?case
  proof (cases p)
    case None
    then show ?thesis by simp
  next
    case (Some a)
    have "\<exists>rest. free_transfer_list n h (next_record (h ! a)) (remove1 a live) = Some rest \<and>
        set rest = set (remove1 a live) - set (records_from n h (next_record (h ! a)))"
      using Suc.prems Some by (intro Suc.IH) auto
    with Some Suc.prems show ?thesis by (auto simp: free_addr_def)
  qed
qed

lemma kept_all: "list_all (\<lambda>calls. length calls \<le> 1) css \<Longrightarrow> map kept css = css"
  by (induction css) (auto simp: kept_def le_Suc_eq length_Suc_conv)

lemma free_list_transfers:
  assumes ch: "record_chain h as"
  shows "\<exists>rest. free_transfer_list (length h) h (next_record (h ! 0)) [1..<length h] = Some rest \<and>
     (length h = Suc (length (tl as)) \<longrightarrow> rest = [])"
proof -
  note r = records_from_head [OF ch]
  have as: "0 \<notin> set (tl as)" "distinct (tl as)" "length (tl as) < length h"
    using ch record_chain_length [OF ch] by (cases as; auto simp: record_chain_def)+
  have sub: "set (tl as) \<subseteq> {1..<length h}"
    using ch as(1) by (cases as) (auto simp: record_chain_def Suc_le_eq intro: gr0I)
  obtain rest where rest: "free_transfer_list (length h) h (next_record (h ! 0)) [1..<length h] = Some rest"
    "set rest = {1..<length h} - set (tl as)"
    using free_chain [of "[1..<length h]" "length h" h "next_record (h ! 0)"] as sub
    by (auto simp: r)
  moreover have "rest = []" if "length h = Suc (length (tl as))"
  proof -
    have "card (set (tl as)) = card {1..<length h}"
      using that as(2) by (simp add: distinct_card)
    then have "set (tl as) = {1..<length h}" using sub by (intro card_subset_eq) auto
    with rest(2) show ?thesis by simp
  qed
  ultimately show ?thesis by blast
qed

text \<open>
  C9. For every engine and every program it runs to a stop, \<open>list_transfers\<close> returns: the list
  holds, in order, the last transfer of every instruction that made one, and
  \<open>free_transfer_list\<close> releases it without touching a released record. When no instruction
  makes more than one transfer the list is complete and nothing of it stays allocated.
\<close>

theorem list_transfers_complete:
  assumes "engine_run exec (start_thread program) css"
  shows "\<exists>h hd rest. list_transfers exec program = Some (h, hd) \<and>
     transfer_list h hd = concat (map kept css) \<and>
     free_transfer_list (length h) h hd [1..<length h] = Some rest \<and>
     (list_all (\<lambda>calls. length calls \<le> 1) css \<longrightarrow> transfer_list h hd = concat css \<and> rest = [])"
proof -
  from list_transfers_chain [OF assms] obtain h as where
    h: "list_transfers exec program = Some (h, next_record (h ! 0))" "record_chain h as"
      "transfer_list h (next_record (h ! 0)) = concat (map kept css)"
      "length h = Suc (length (concat css))" "length (tl as) = length (concat (map kept css))"
    by metis
  moreover obtain rest where
    "free_transfer_list (length h) h (next_record (h ! 0)) [1..<length h] = Some rest"
    "length h = Suc (length (tl as)) \<longrightarrow> rest = []"
    using free_list_transfers [OF h(2)] by blast
  ultimately show ?thesis by (auto simp: kept_all)
qed

text \<open>A small engine for the examples: every word but zero transfers a byte, zero stops.\<close>

definition byte_engine :: "u32 option list dma_engine" where
  "byte_engine th =
     (case dmat_program_counter th of
        Some i # rest \<Rightarrow>
          (if i = 0 then (th\<lparr>dmat_state := DMAM_STOPPED\<rparr>, [])
           else (th\<lparr>dmat_program_counter := rest, dmat_source := dmat_source th + 1,
                    dmat_destination := dmat_destination th + 1\<rparr>,
                 [(dmat_source th, dmat_destination th, 0)]))
      | _ \<Rightarrow> (th\<lparr>dmat_state := DMAM_STOPPED\<rparr>, []))"

lemma byte_engine_run:
  "engine_run byte_engine (start_thread [Some 7, Some 7, Some 0]) [[(0, 0, 0)], [(1, 1, 0)], []]"
  by (simp add: engine_run_Nil engine_run_Cons byte_engine_def start_thread_def)

theorem list_transfers_complete_witness:
  "\<exists>h hd rest. list_transfers byte_engine [Some 7, Some 7, Some 0] = Some (h, hd) \<and>
     transfer_list h hd = [(0, 0, 0), (1, 1, 0)] \<and>
     free_transfer_list (length h) h hd [1..<length h] = Some rest \<and> rest = []"
  using list_transfers_complete [OF byte_engine_run] by (simp add: kept_def) blast

section \<open>Printing a test\<close>

definition fmt_lld :: "u64 \<Rightarrow> string" where
  "fmt_lld w = fmt_d (sint w)"

text \<open>The instructions up to \<open>STOP\<close>; a program without one is read past its end.\<close>

fun print_instructions :: "u32 \<Rightarrow> u32 option list \<Rightarrow> string option" where
  "print_instructions stop [] = None"
| "print_instructions stop (None # is) = None"
| "print_instructions stop (Some i # is) =
     (if i = stop then Some (''0x'' @ fmt_08x i)
      else map_option (\<lambda>rest. ''0x'' @ fmt_08x i @ '', '' @ rest) (print_instructions stop is))"

definition print_source :: "u64 \<Rightarrow> u8 \<Rightarrow> string" where
  "print_source a v = ''source['' @ fmt_lld a @ ''] = '' @ fmt_d (uint v) @ '';''"

definition print_check :: "u64 \<Rightarrow> u8 \<Rightarrow> string" where
  "print_check a v = '' && dest['' @ fmt_lld a @ ''] == '' @ fmt_d (uint v)"

text \<open>The loop over the bytes of one transfer, from \<open>access_number\<close> on.\<close>

fun print_bytes :: "(u64 \<Rightarrow> u8 \<Rightarrow> string) \<Rightarrow> u64 \<Rightarrow> nat \<Rightarrow> u8 \<Rightarrow> string \<times> u8" where
  "print_bytes pr a 0 access_number = ([], access_number)"
| "print_bytes pr a (Suc n) access_number =
     (let (rest, k) = print_bytes pr (a + 1) n (access_number + 1)
      in (pr a access_number @ rest, k))"

fun print_sources :: "transfer list \<Rightarrow> u8 \<Rightarrow> string" where
  "print_sources [] access_number = []"
| "print_sources ((s, d, z) # current) access_number =
     (let (text, k) = print_bytes print_source s (2 ^ z) access_number
      in text @ (if current = [] then ''$'' @ fmt_lld (s + 2 ^ z) @ ''$'' else [])
           @ print_sources current k)"

fun print_checks :: "transfer list \<Rightarrow> u8 \<Rightarrow> string" where
  "print_checks [] access_number = []"
| "print_checks ((s, d, z) # current) access_number =
     (let (text, k) = print_bytes print_check d (2 ^ z) access_number
      in text @ (if current = [] then '');$'' @ fmt_lld (d + 2 ^ z) else [])
           @ print_checks current k)"

definition print_test ::
  "u32 \<Rightarrow> u32 option list dma_engine \<Rightarrow> u32 option list \<Rightarrow> string option" where
  "print_test stop exec program =
     (case (print_instructions stop program, list_transfers exec program) of
        (Some instructions, Some (h, first)) \<Rightarrow>
          Some (instructions @ ''$'' @ print_sources (transfer_list h first) 0 @ ''assert(1''
            @ print_checks (transfer_list h first) 0)
      | _ \<Rightarrow> None)"

definition print_test_information ::
  "u32 dma_asm \<Rightarrow> bool \<Rightarrow> u32 option list dma_engine \<Rightarrow> u32 \<Rightarrow> (dma_error + string) option" where
  "print_test_information asm ltr exec seed =
     (case generate_random_dma_program asm ltr seed of
        None \<Rightarrow> None
      | Some (Inl e) \<Rightarrow> Some (Inl e)
      | Some (Inr program) \<Rightarrow> map_option Inr (print_test (op_stop asm) exec program))"

text \<open>
  \<open>main\<close>: one test for one number, a line per test for a range of numbers. A test that fails an
  assertion aborts the program; what was printed before it is not modelled.
\<close>

fun print_tests :: "(u32 \<Rightarrow> (dma_error + string) option) \<Rightarrow> int list \<Rightarrow> (dma_error + string) option" where
  "print_tests test [] = Some (Inr [])"
| "print_tests test (i # is) =
     (case test (word_of_int i) of
        None \<Rightarrow> None
      | Some (Inl e) \<Rightarrow> Some (Inl e)
      | Some (Inr line) \<Rightarrow>
          map_option (map_sum id (\<lambda>rest. line @ [NL] @ rest)) (print_tests test is))"

definition generate_dma_test_main ::
  "(u32 \<Rightarrow> (dma_error + string) option) \<Rightarrow> string list \<Rightarrow> (dma_error + string) option" where
  "generate_dma_test_main test args =
     (case args of
        [seed] \<Rightarrow> test (word_of_int (atoi seed))
      | [lower, upper] \<Rightarrow> print_tests test [atoi lower..atoi upper]
      | _ \<Rightarrow> Some (Inr (''Invalid number of arguments: '' @ fmt_d (int (length args))
               @ ''. Expected 1.'' @ [NL])))"

section \<open>The fields of a printed test\<close>

lemma map_upt_Suc: "map f [0..<Suc n] = f 0 # map (\<lambda>i. f (Suc i)) [0..<n]"
  by (simp add: upt_conv_Cons map_Suc_upt [symmetric] comp_def del: upt_Suc)

text \<open>The addresses of the bytes of the transfers, and the values the test gives them.\<close>

definition byte_addresses :: "(transfer \<Rightarrow> u64) \<Rightarrow> transfer list \<Rightarrow> u64 list" where
  "byte_addresses at ts =
     concat (map (\<lambda>t. map (\<lambda>i. at t + of_nat i) [0..<2 ^ snd (snd t)]) ts)"

lemma byte_addresses_simps [simp]:
  "byte_addresses at [] = []"
  "byte_addresses at (t # ts) = map (\<lambda>i. at t + of_nat i) [0..<2 ^ snd (snd t)] @ byte_addresses at ts"
  by (simp_all add: byte_addresses_def)

abbreviation transfer_destination :: "transfer \<Rightarrow> u64" where
  "transfer_destination t \<equiv> fst (snd t)"

definition numbered_from :: "u8 \<Rightarrow> u64 list \<Rightarrow> (u64 \<times> u8) list" where
  "numbered_from k as = map (\<lambda>i. (as ! i, k + of_nat i)) [0..<length as]"

lemma numbered_from_Nil [simp]: "numbered_from k [] = []"
  by (simp add: numbered_from_def)

lemma numbered_from_Cons: "numbered_from k (a # as) = (a, k) # numbered_from (k + 1) as"
  by (simp add: numbered_from_def map_upt_Suc add.assoc add.commute del: upt_Suc)

lemma numbered_from_append:
  "numbered_from k (as @ bs) = numbered_from k as @ numbered_from (k + of_nat (length as)) bs"
  by (induction as arbitrary: k) (simp_all add: numbered_from_Cons ac_simps)

lemma print_bytes_numbered:
  "print_bytes pr a n k =
     (concat (map (\<lambda>(a, v). pr a v) (numbered_from k (map (\<lambda>i. a + of_nat i) [0..<n]))), k + of_nat n)"
proof (induction n arbitrary: a k)
  case (Suc n)
  have "map (\<lambda>i. a + of_nat i) [0..<Suc n] = a # map (\<lambda>i. a + 1 + of_nat i) [0..<n]"
    by (simp add: map_upt_Suc add.assoc del: upt_Suc)
  with Suc show ?case by (simp add: numbered_from_Cons)
qed simp

lemma print_sources_numbered:
  "print_sources ts k = concat (map (\<lambda>(a, v). print_source a v) (numbered_from k (byte_addresses fst ts)))
     @ (if ts = [] then [] else ''$'' @ fmt_lld (fst (last ts) + 2 ^ snd (snd (last ts))) @ ''$'')"
  by (induction ts k rule: print_sources.induct)
    (simp_all add: print_bytes_numbered numbered_from_append)

lemma print_checks_numbered:
  "print_checks ts k =
     concat (map (\<lambda>(a, v). print_check a v) (numbered_from k (byte_addresses transfer_destination ts)))
     @ (if ts = [] then [] else '');$'' @ fmt_lld (fst (snd (last ts)) + 2 ^ snd (snd (last ts))))"
  by (induction ts k rule: print_checks.induct)
    (simp_all add: print_bytes_numbered numbered_from_append)

lemma dollar_facts [simp]:
  "CHR ''$'' \<notin> set (show_base 10 n)" "CHR ''$'' \<notin> set (show_base 16 n)"
proof -
  have "\<not> is_digit 10 CHR ''$''" "\<not> is_digit 16 CHR ''$''" by code_simp+
  then show "CHR ''$'' \<notin> set (show_base 10 n)" "CHR ''$'' \<notin> set (show_base 16 n)"
    by (simp_all add: show_base_set)
qed

lemma fmt_no_dollar [simp]:
  "CHR ''$'' \<notin> set (fmt_d i)" "CHR ''$'' \<notin> set (fmt_lld w)" "CHR ''$'' \<notin> set (fmt_08x v)"
  by (simp_all add: fmt_d_def fmt_lld_def fmt_08x_def pad_left_def)

lemma print_instructions_no_dollar:
  "print_instructions stop is = Some s \<Longrightarrow> CHR ''$'' \<notin> set s"
  by (induction stop "is" arbitrary: s rule: print_instructions.induct) (auto split: if_splits)

lemma print_bytes_no_dollar [simp]:
  "CHR ''$'' \<notin> set (concat (map (\<lambda>(a, v). print_source a v) xs))"
  "CHR ''$'' \<notin> set (concat (map (\<lambda>(a, v). print_check a v) xs))"
  by (auto simp: print_source_def print_check_def)

text \<open>
  The line printed for a test splits at its dollar signs into the five fields
  \<open>build_tests.py\<close> unpacks: the program, the assignments to the source bytes, the size of the
  source, the assertion on the destination bytes and the size of the destination. A program that
  transfers nothing gives two fields only, an assertion that is not closed among them, although
  the script has a branch for the empty field of such a test.
\<close>

lemma test_fields:
  assumes "print_instructions stop program = Some instructions"
    and "list_transfers exec program = Some (h, first)"
  defines "ts \<equiv> transfer_list h first"
  shows "map_option (split_on CHR ''$'') (print_test stop exec program) = Some
     (if ts = [] then [instructions, ''assert(1'']
      else [instructions,
            concat (map (\<lambda>(a, v). print_source a v) (numbered_from 0 (byte_addresses fst ts))),
            fmt_lld (fst (last ts) + 2 ^ snd (snd (last ts))),
            ''assert(1'' @ concat (map (\<lambda>(a, v). print_check a v)
              (numbered_from 0 (byte_addresses transfer_destination ts))) @ '');'',
            fmt_lld (transfer_destination (last ts) + 2 ^ snd (snd (last ts)))])"
proof -
  define S where "S = concat (map (\<lambda>(a, v). print_source a v) (numbered_from 0 (byte_addresses fst ts)))"
  define C where "C = concat (map (\<lambda>(a, v). print_check a v)
      (numbered_from 0 (byte_addresses transfer_destination ts)))"
  have nd: "CHR ''$'' \<notin> set S" "CHR ''$'' \<notin> set C" by (simp_all only: S_def C_def print_bytes_no_dollar not_False_eq_True)
  have "print_test stop exec program = Some (instructions @ CHR ''$'' #
      (if ts = [] then ''assert(1''
       else S @ CHR ''$'' # fmt_lld (fst (last ts) + 2 ^ snd (snd (last ts))) @ CHR ''$'' #
         (''assert(1'' @ C @ '');'') @ CHR ''$'' #
         fmt_lld (transfer_destination (last ts) + 2 ^ snd (snd (last ts)))))"
    by (simp add: print_test_def assms(1,2) ts_def [symmetric] print_sources_numbered
        print_checks_numbered S_def [symmetric] C_def [symmetric])
      (simp add: S_def C_def)
  moreover have "CHR ''$'' \<notin> set instructions"
    using assms(1) by (rule print_instructions_no_dollar)
  moreover have "CHR ''$'' \<notin> set (''assert(1'' @ C @ '');'')" using nd by simp
  ultimately show ?thesis
    unfolding S_def [symmetric] C_def [symmetric]
    by (simp add: split_on_append split_on_last nd del: append.simps append_assoc)
qed

lemma test_fields_example:
  "\<exists>fields. map_option (split_on CHR ''$'') (print_test 0 byte_engine [Some 7, Some 7, Some 0]) = Some fields
     \<and> length fields = 5 \<and> fields ! 1 = ''source[0] = 0;source[1] = 1;'' \<and>
     fields ! 3 = ''assert(1 && dest[0] == 0 && dest[1] == 1);''"
proof -
  obtain h as where h: "list_transfers byte_engine [Some 7, Some 7, Some 0] = Some (h, next_record (h ! 0))"
    "transfer_list h (next_record (h ! 0)) = concat (map kept [[(0, 0, 0)], [(1, 1, 0)], []])"
    by (rule list_transfers_chain [OF byte_engine_run])
  have ins: "print_instructions 0 [Some 7, Some 7, Some 0] = Some ''0x00000007, 0x00000007, 0x00000000''"
    by code_simp
  have "concat (map (\<lambda>(a, v). print_source a v) (numbered_from 0 [0, 1])) = ''source[0] = 0;source[1] = 1;''"
    "''assert(1'' @ concat (map (\<lambda>(a, v). print_check a v) (numbered_from 0 [0, 1])) @ '');'' =
       ''assert(1 && dest[0] == 0 && dest[1] == 1);''"
    by code_simp+
  then show ?thesis
    using test_fields [OF ins h(1)]
    by (simp add: h(2) kept_def del: append.simps append_assoc One_nat_def)
      (auto simp: numeral_3_eq_3)
qed

declare transfer_loop.simps [code]

lemma no_transfer_fields:
  "map_option (\<lambda>s. length (split_on CHR ''$'' s)) (print_test 0 byte_engine [Some 0]) = Some 2"
  by code_simp

section \<open>What a printed test means\<close>

text \<open>
  The test assigns the source bytes, lets the engine copy the bytes of the transfers and compares
  the destination bytes. The two arrays lie in different memories.
\<close>

definition run_transfer :: "(u64 \<Rightarrow> u8) \<Rightarrow> transfer \<Rightarrow> (u64 \<Rightarrow> u8) \<Rightarrow> u64 \<Rightarrow> u8" where
  "run_transfer src t dst = (case t of (s, d, z) \<Rightarrow>
     fold (\<lambda>i m. m(d + of_nat i := src (s + of_nat i))) [0..<2 ^ z] dst)"

lemma run_sources_lookup:
  "distinct (map fst xs) \<Longrightarrow> (a, v) \<in> set xs \<Longrightarrow> run_sources xs m a = v"
proof (induction xs rule: rev_induct)
  case (snoc x xs)
  then show ?case by (cases x) (auto simp: run_sources_def rev_image_eqI)
qed simp

lemma run_transfers_assign:
  "fold (run_transfer src) ts dst =
     run_sources (map (\<lambda>(a, b). (b, src a)) (zip (byte_addresses fst ts) (byte_addresses transfer_destination ts))) dst"
proof (induction ts arbitrary: dst)
  case (Cons t ts)
  obtain s d z where t: "t = (s, d, z)" by (cases t) auto
  have "run_transfer src t dst = run_sources (map (\<lambda>(a, b). (b, src a))
      (zip (map (\<lambda>i. s + of_nat i) [0..<2 ^ z]) (map (\<lambda>i. d + of_nat i) [0..<2 ^ z]))) dst"
    by (simp add: run_transfer_def t run_sources_def zip_map_map zip_same_conv_map fold_map comp_def)
  with Cons show ?case by (simp add: t run_sources_def)
qed (simp add: run_sources_def)

lemma byte_addresses_length: "length (byte_addresses f ts) = length (byte_addresses g ts)"
  by (induction ts) simp_all

lemma map_fst_numbered [simp]: "map fst (numbered_from k as) = as"
  by (induction as arbitrary: k) (simp_all add: numbered_from_Cons)

lemma transfers_checked:
  assumes "distinct (byte_addresses fst ts)" and "distinct (byte_addresses transfer_destination ts)"
  shows "checks_hold (numbered_from 0 (byte_addresses transfer_destination ts))
     (fold (run_transfer (run_sources (numbered_from 0 (byte_addresses fst ts)) src)) ts dst)"
proof -
  let ?S = "byte_addresses fst ts" and ?D = "byte_addresses transfer_destination ts"
  let ?src = "run_sources (numbered_from 0 ?S) src"
  let ?xs = "map (\<lambda>(a, b). (b, ?src a)) (zip ?S ?D)"
  have len: "length ?S = length ?D" by (rule byte_addresses_length)
  have "run_sources ?xs dst (?D ! i) = of_nat i" if i: "i < length ?D" for i
  proof -
    have "map fst ?xs = ?D"
      using len by (simp add: comp_def case_prod_beta)
    moreover have "?src (?S ! i) = of_nat i"
      using assms(1) i len by (intro run_sources_lookup) (simp only: map_fst_numbered, simp add: numbered_from_def)
    then have "(?D ! i, of_nat i) \<in> set ?xs"
      using i len by (auto simp: set_zip image_iff)
    ultimately show ?thesis
      using assms(2) by (intro run_sources_lookup) simp_all
  qed
  then show ?thesis
    by (simp add: run_transfers_assign checks_hold_def numbered_from_def list_all_iff)
qed

text \<open>
  The test as \<open>build_tests.py\<close> takes it from the line: five fields, the assignments in the second
  and the assertion in the fourth. A line with other fields, or with anything else in these two, is
  no test.
\<close>

definition read_source :: "string \<Rightarrow> ((u64 \<times> u8) \<times> string) option" where
  "read_source s =
     Option.bind (expect ''source['' s) (\<lambda>s. Option.bind (read_int s) (\<lambda>(a, s).
     Option.bind (expect ''] = '' s) (\<lambda>s. Option.bind (read_byte s) (\<lambda>(v, s).
     map_option (\<lambda>s. ((of_int a, v), s)) (expect '';'' s)))))"

definition read_check :: "string \<Rightarrow> ((u64 \<times> u8) \<times> string) option" where
  "read_check s =
     Option.bind (expect '' && dest['' s) (\<lambda>s. Option.bind (read_int s) (\<lambda>(a, s).
     Option.bind (expect ''] == '' s) (\<lambda>s.
     map_option (\<lambda>(v, s). ((of_int a, v), s)) (read_byte s))))"

definition read_test :: "string \<Rightarrow> ((u64 \<times> u8) list \<times> (u64 \<times> u8) list) option" where
  "read_test line =
     (case split_on CHR ''$'' line of
        [program, setsource, sourcesize, asserts, destsize] \<Rightarrow>
          Option.bind (read_all read_source setsource) (\<lambda>sources.
          Option.bind (expect ''assert(1'' asserts) (\<lambda>s.
            case read_many read_check s of (checks, rest) \<Rightarrow>
              if rest = '');'' then Some (sources, checks) else None))
      | _ \<Rightarrow> None)"

lemma no_digit_chars [simp]:
  "no_digit (CHR '']'' # s)" "no_digit (CHR '';'' # s)" "no_digit (CHR '')'' # s)" "no_digit (CHR '' '' # s)"
  "no_digit (CHR '','' # s)" "no_digit []"
proof -
  have "\<not> is_digit 16 CHR '']''" "\<not> is_digit 16 CHR '';''" "\<not> is_digit 16 CHR '')''" "\<not> is_digit 16 CHR '' ''"
    "\<not> is_digit 16 CHR '',''"
    by code_simp+
  then show "no_digit (CHR '']'' # s)" "no_digit (CHR '';'' # s)" "no_digit (CHR '')'' # s)" "no_digit (CHR '' '' # s)"
    "no_digit (CHR '','' # s)" "no_digit []"
    by (simp_all add: no_digit_def)
qed

lemma read_source_print: "read_source (print_source a v @ s) = Some ((a, v), s)"
  by (simp add: read_source_def print_source_def fmt_lld_def read_int_show read_byte_show)

lemma read_check_print: "no_digit s \<Longrightarrow> read_check (print_check a v @ s) = Some ((a, v), s)"
  by (simp add: read_check_def print_check_def fmt_lld_def read_int_show read_byte_show)

lemma read_sources_printed:
  "read_all read_source (concat (map (\<lambda>(a, v). print_source a v) xs)) = Some xs"
  by (rule read_all_concat [where G = "\<lambda>_. True"])
    (auto simp: read_source_print, simp_all add: read_source_def print_source_def expect_Nil)

lemma read_checks_printed:
  "read_many read_check (concat (map (\<lambda>(a, v). print_check a v) xs) @ '');'') = (xs, '');'')"
  by (rule read_many_concat [where G = no_digit])
    (auto simp: read_check_print, simp_all add: read_check_def print_check_def)

text \<open>
  C18. A test that \<open>print_test\<close> prints passes. When the transfers of the program, of which there is
  one at least, read no source byte and write no destination byte twice, the printed line reads back as
  a test that assigns every source byte and compares every destination byte of the transfers, and
  whatever the two arrays held before, all its comparisons hold once the transfers are made, however
  often the one-byte counter of the values wraps around.
\<close>

theorem printed_test_passes:
  assumes "print_test stop exec program = Some line" and "list_transfers exec program = Some (h, first)"
    and "transfer_list h first = ts" and "ts \<noteq> []"
    and "distinct (byte_addresses fst ts)" and "distinct (byte_addresses transfer_destination ts)"
  shows "\<exists>sources checks. read_test line = Some (sources, checks) \<and>
     map fst sources = byte_addresses fst ts \<and>
     map fst checks = byte_addresses transfer_destination ts \<and>
     checks_hold checks (fold (run_transfer (run_sources sources src)) ts dst)"
proof -
  let ?S = "byte_addresses fst ts" and ?D = "byte_addresses transfer_destination ts"
  obtain instructions where i: "print_instructions stop program = Some instructions"
    using assms(1) by (auto simp: print_test_def split: option.splits)
  have "read_test line = Some (numbered_from 0 ?S, numbered_from 0 ?D)"
    using test_fields [OF i assms(2)] assms(1,3,4)
    by (simp add: read_test_def read_sources_printed read_checks_printed)
  then show ?thesis using transfers_checked [OF assms(5,6), of src dst] by auto
qed

theorem printed_test_passes_witness:
  "\<exists>line sources checks. print_test 0 byte_engine [Some 7, Some 7, Some 0] = Some line \<and>
     read_test line = Some (sources, checks) \<and> map fst sources = [0, 1] \<and> map fst checks = [0, 1] \<and>
     checks_hold checks (fold (run_transfer (run_sources sources (\<lambda>_. 9))) [(0, 0, 0), (1, 1, 0)] (\<lambda>_. 8))"
proof -
  obtain h as where h: "list_transfers byte_engine [Some 7, Some 7, Some 0] = Some (h, next_record (h ! 0))"
    "transfer_list h (next_record (h ! 0)) = concat (map kept [[(0, 0, 0)], [(1, 1, 0)], []])"
    by (rule list_transfers_chain [OF byte_engine_run])
  then have t: "transfer_list h (next_record (h ! 0)) = [(0, 0, 0), (1, 1, 0)]" by (simp add: kept_def)
  have "print_instructions 0 [Some 7, Some 7, Some 0] = Some ''0x00000007, 0x00000007, 0x00000000''"
    by code_simp
  with h(1) obtain line where l: "print_test 0 byte_engine [Some 7, Some 7, Some 0] = Some line"
    by (simp add: print_test_def)
  have b: "byte_addresses fst [(0, 0, 0), (1, 1, 0)] = [0, 1]"
    "byte_addresses transfer_destination [(0, 0, 0), (1, 1, 0)] = [0, 1]"
    by code_simp+
  from printed_test_passes [OF l h(1) t, of "\<lambda>_. 9" "\<lambda>_. 8"] l show ?thesis
    unfolding b by auto
qed

end
