(* ===== verification/CheriCap.thy ===== *)
theory CheriCap
  imports ByteOrder
begin

text \<open>
  The capabilities of CHERI C as the sources use them: the uncompressed 256-bit format, the
  compiler's \<open>__builtin_cheri_*\<close> operations with the faults they raise, the fault codes of
  \<open>cheri-c-tests/cheri_c_test.h\<close>, and the order of authority between capabilities.
\<close>

section \<open>Capabilities\<close>

record cap =
  cap_tag :: bool
  cap_sealed :: bool
  cap_perms :: u32
  cap_otype :: "24 word"
  cap_base :: u64
  cap_length :: u64
  cap_offset :: u64

text \<open>A null pointer, and an integer in a capability: untagged, with the value in the offset.\<close>

definition int_cap :: "u64 \<Rightarrow> cap" where
  "int_cap v =
     \<lparr>cap_tag = False, cap_sealed = False, cap_perms = 0, cap_otype = 0, cap_base = 0,
      cap_length = -1, cap_offset = v\<rparr>"

abbreviation null_cap :: cap where "null_cap \<equiv> int_cap 0"

text \<open>The address a capability points to.\<close>

definition cap_addr :: "cap \<Rightarrow> u64" where
  "cap_addr c = cap_base c + cap_offset c"

text \<open>The permissions by their bits, \<open>__CHERI_CAP_PERMISSION_*\<close> of the compiler.\<close>

definition PERM_GLOBAL :: u32 where "PERM_GLOBAL = 1"
definition PERM_EXECUTE :: u32 where "PERM_EXECUTE = 2"
definition PERM_LOAD :: u32 where "PERM_LOAD = 4"
definition PERM_STORE :: u32 where "PERM_STORE = 8"
definition PERM_LOAD_CAPABILITY :: u32 where "PERM_LOAD_CAPABILITY = 16"
definition PERM_STORE_CAPABILITY :: u32 where "PERM_STORE_CAPABILITY = 32"
definition PERM_SEAL :: u32 where "PERM_SEAL = 128"

lemmas perm_defs =
  PERM_GLOBAL_def PERM_EXECUTE_def PERM_LOAD_def PERM_STORE_def PERM_LOAD_CAPABILITY_def
  PERM_STORE_CAPABILITY_def PERM_SEAL_def

definition has_perm :: "cap \<Rightarrow> u32 \<Rightarrow> bool" where
  "has_perm c p \<longleftrightarrow> cap_perms c AND p = p"

section \<open>Faults\<close>

datatype cheri_fault =
  Length_fault | Tag_fault | Seal_fault | Type_fault | Execute_fault | Load_fault | Store_fault
| Load_capability_fault | Store_capability_fault | Perm_seal_fault | Address_error

text \<open>The codes the tests compare the cause with; the others have no name there.\<close>

fun cheri_fault_code :: "cheri_fault \<Rightarrow> int option" where
  "cheri_fault_code Length_fault = Some 1"
| "cheri_fault_code Tag_fault = Some 2"
| "cheri_fault_code Seal_fault = Some 3"
| "cheri_fault_code Load_fault = Some 0x12"
| "cheri_fault_code Store_fault = Some 0x13"
| "cheri_fault_code Load_capability_fault = Some 0x14"
| "cheri_fault_code Store_capability_fault = Some 0x16"
| "cheri_fault_code _ = None"

section \<open>Operations\<close>

definition cheri_offset_set :: "cap \<Rightarrow> u64 \<Rightarrow> cheri_fault + cap" where
  "cheri_offset_set c v =
     (if cap_tag c \<and> cap_sealed c then Inl Seal_fault else Inr (c\<lparr>cap_offset := v\<rparr>))"

definition cheri_offset_increment :: "cap \<Rightarrow> u64 \<Rightarrow> cheri_fault + cap" where
  "cheri_offset_increment c v =
     (if cap_tag c \<and> cap_sealed c then Inl Seal_fault
      else Inr (c\<lparr>cap_offset := cap_offset c + v\<rparr>))"

text \<open>\<open>n\<close> bytes from the address of the capability lie within its bounds.\<close>

definition in_bounds :: "cap \<Rightarrow> nat \<Rightarrow> bool" where
  "in_bounds c n \<longleftrightarrow> unat (cap_base c) \<le> unat (cap_addr c) \<and>
     unat (cap_addr c) + n \<le> unat (cap_base c) + unat (cap_length c)"

definition cheri_bounds_set :: "cap \<Rightarrow> u64 \<Rightarrow> cheri_fault + cap" where
  "cheri_bounds_set c n =
     (if \<not> cap_tag c then Inl Tag_fault
      else if cap_sealed c then Inl Seal_fault
      else if \<not> in_bounds c (unat n) then Inl Length_fault
      else Inr (c\<lparr>cap_base := cap_addr c, cap_length := n, cap_offset := 0\<rparr>))"

definition cheri_perms_and :: "cap \<Rightarrow> u64 \<Rightarrow> cheri_fault + cap" where
  "cheri_perms_and c m =
     (if \<not> cap_tag c then Inl Tag_fault
      else if cap_sealed c then Inl Seal_fault
      else Inr (c\<lparr>cap_perms := cap_perms c AND ucast m\<rparr>))"

definition cheri_seal :: "cap \<Rightarrow> cap \<Rightarrow> cheri_fault + cap" where
  "cheri_seal c k =
     (if \<not> cap_tag c \<or> \<not> cap_tag k then Inl Tag_fault
      else if cap_sealed c \<or> cap_sealed k then Inl Seal_fault
      else if \<not> has_perm k PERM_SEAL then Inl Perm_seal_fault
      else if \<not> in_bounds k 1 \<or> 2 ^ 24 \<le> unat (cap_addr k) then Inl Length_fault
      else Inr (c\<lparr>cap_sealed := True, cap_otype := ucast (cap_addr k)\<rparr>))"

definition cheri_unseal :: "cap \<Rightarrow> cap \<Rightarrow> cheri_fault + cap" where
  "cheri_unseal c k =
     (if \<not> cap_tag c \<or> \<not> cap_tag k then Inl Tag_fault
      else if \<not> cap_sealed c \<or> cap_sealed k then Inl Seal_fault
      else if ucast (cap_otype c) \<noteq> cap_addr k then Inl Type_fault
      else if \<not> has_perm k PERM_SEAL then Inl Perm_seal_fault
      else if \<not> in_bounds k 1 then Inl Length_fault
      else Inr (c\<lparr>cap_sealed := False, cap_otype := 0\<rparr>))"

text \<open>The checks of a load or store of \<open>n\<close> bytes that asks for the permissions in \<open>p\<close>.\<close>

definition access_check :: "cap \<Rightarrow> u32 \<Rightarrow> cheri_fault \<Rightarrow> nat \<Rightarrow> cheri_fault option" where
  "access_check c p missing n =
     (if \<not> cap_tag c then Some Tag_fault
      else if cap_sealed c then Some Seal_fault
      else if \<not> has_perm c p then Some missing
      else if \<not> in_bounds c n then Some Length_fault
      else None)"

text \<open>Comparison of pointers: untagged capabilities before tagged ones, then by address.\<close>

definition cap_less :: "cap \<Rightarrow> cap \<Rightarrow> bool" where
  "cap_less a b \<longleftrightarrow> (if cap_tag a = cap_tag b then cap_addr a < cap_addr b else cap_tag b)"

definition cap_eq :: "cap \<Rightarrow> cap \<Rightarrow> bool" where
  "cap_eq a b \<longleftrightarrow> cap_tag a = cap_tag b \<and> cap_addr a = cap_addr b"

text \<open>
  Pointers of the hybrid ABI are offsets from the base of the default data capability:
  \<open>__cheri_tocap\<close> gives them its authority, \<open>__cheri_fromcap\<close> turns a capability back.
\<close>

definition to_cap :: "cap \<Rightarrow> u64 \<Rightarrow> cap" where
  "to_cap ddc a = (if a = 0 then null_cap else ddc\<lparr>cap_offset := a\<rparr>)"

definition from_cap :: "cap \<Rightarrow> cap \<Rightarrow> u64" where
  "from_cap ddc c = (if cap_tag c then cap_addr c - cap_base ddc else 0)"

section \<open>Authority\<close>

text \<open>
  A well-formed capability does not wrap around the address space; \<open>authority\<close> orders
  capabilities by bounds and permissions.
\<close>

definition cap_wf :: "cap \<Rightarrow> bool" where
  "cap_wf c \<longleftrightarrow> unat (cap_base c) + unat (cap_length c) < 2 ^ 64"

definition authority :: "cap \<Rightarrow> cap \<Rightarrow> bool" where
  "authority c d \<longleftrightarrow> cap_tag c \<longrightarrow>
     (cap_tag d \<and> unat (cap_base d) \<le> unat (cap_base c) \<and>
      unat (cap_base c) + unat (cap_length c) \<le> unat (cap_base d) + unat (cap_length d) \<and>
      cap_perms c AND cap_perms d = cap_perms c)"

lemma authority_refl [simp]: "authority c c"
  by (simp add: authority_def)

lemma and_subset_trans: "a AND b = a \<Longrightarrow> b AND c = b \<Longrightarrow> a AND c = (a :: 'a::len word)"
  by (metis and.assoc)

lemma authority_trans: "authority c d \<Longrightarrow> authority d e \<Longrightarrow> authority c e"
  by (auto simp: authority_def dest: and_subset_trans)

lemma authority_has_perm: "authority c d \<Longrightarrow> cap_tag c \<Longrightarrow> has_perm c p \<Longrightarrow> has_perm d p"
  by (auto simp: authority_def has_perm_def) (metis and.assoc and.commute)

lemma authority_offset [simp]: "authority (c\<lparr>cap_offset := v\<rparr>) d = authority c d"
  by (simp add: authority_def)

lemma offset_set_authority: "cheri_offset_set c v = Inr d \<Longrightarrow> authority d c"
  by (auto simp: cheri_offset_set_def split: if_splits)

lemma offset_increment_authority: "cheri_offset_increment c v = Inr d \<Longrightarrow> authority d c"
  by (auto simp: cheri_offset_increment_def split: if_splits)

lemma bounds_set_authority: "cheri_bounds_set c n = Inr d \<Longrightarrow> authority d c"
  by (auto simp: cheri_bounds_set_def in_bounds_def authority_def split: if_splits)

lemma perms_and_authority: "cheri_perms_and c m = Inr d \<Longrightarrow> authority d c"
  by (auto simp: cheri_perms_and_def authority_def split: if_splits)
    (metis and.assoc and.commute and.idem)

text \<open>The bundle for deriving capabilities step by step.\<close>

lemmas derive_authority =
  offset_set_authority offset_increment_authority bounds_set_authority perms_and_authority

lemma cap_wf_bounds_set: "cap_wf c \<Longrightarrow> cheri_bounds_set c n = Inr d \<Longrightarrow> cap_wf d"
  by (auto simp: cheri_bounds_set_def in_bounds_def cap_wf_def split: if_splits)

declare has_perm_def [cap_simps] perm_defs [cap_simps] in_bounds_def [cap_simps] cap_addr_def [cap_simps]
  cap_wf_def [cap_simps]

end
