(* ===== verification/CheriMem.thy ===== *)
theory CheriMem
  imports CheriCap
begin

text \<open>
  Memory with tags: a byte at every address and a tag for every granule of 32 bytes, the size of
  a capability. Data stores clear the tag of the granule they touch, a capability load or store
  moves the 32 bytes with the tag. Addresses are 64-bit and wrap around.
\<close>

section \<open>Tagged memory\<close>

record memory =
  bytes :: "u64 \<Rightarrow> u8"
  tags :: "u64 \<Rightarrow> bool"

definition granule :: "u64 \<Rightarrow> u64" where
  "granule a = drop_bit 5 a"

definition read_byte :: "memory \<Rightarrow> u64 \<Rightarrow> u8" where
  "read_byte m a = bytes m a"

definition write_byte :: "u64 \<Rightarrow> u8 \<Rightarrow> memory \<Rightarrow> memory" where
  "write_byte a v m = m\<lparr>bytes := (bytes m)(a := v), tags := (tags m)(granule a := False)\<rparr>"

definition read_bytes :: "memory \<Rightarrow> u64 \<Rightarrow> nat \<Rightarrow> u8 list" where
  "read_bytes m a n = map (\<lambda>i. bytes m (a + of_nat i)) [0..<n]"

fun write_bytes :: "u64 \<Rightarrow> u8 list \<Rightarrow> memory \<Rightarrow> memory" where
  "write_bytes a [] m = m"
| "write_bytes a (v # vs) m = write_bytes (a + 1) vs (write_byte a v m)"

text \<open>The contents of a granule with its tag, as a capability register holds them.\<close>

definition read_granule :: "memory \<Rightarrow> u64 \<Rightarrow> u8 list \<times> bool" where
  "read_granule m a = (read_bytes m a 32, tags m (granule a))"

definition write_granule :: "u64 \<Rightarrow> u8 list \<times> bool \<Rightarrow> memory \<Rightarrow> memory" where
  "write_granule a v m =
     (let m' = write_bytes a (fst v) m in m'\<lparr>tags := (tags m')(granule a := snd v)\<rparr>)"

section \<open>Addresses\<close>

text \<open>
  \<open>within a lo n\<close>: the address \<open>a\<close> is one of the \<open>n\<close> from \<open>lo\<close> on. Regions that do not wrap
  around are handled by the numbers of their addresses.
\<close>

definition in_region :: "u64 \<Rightarrow> u64 \<Rightarrow> nat \<Rightarrow> bool" where
  "in_region a lo n \<longleftrightarrow> unat lo \<le> unat a \<and> unat a < unat lo + n"

lemma unat_add_of_nat:
  "unat (a :: u64) + i < 2 ^ 64 \<Longrightarrow> unat (a + of_nat i) = unat a + i"
  by (simp add: unat_word_ariths unat_of_nat)

lemma in_region_iff:
  assumes "unat lo + n \<le> 2 ^ 64"
  shows "in_region a lo n \<longleftrightarrow> (\<exists>i<n. a = lo + of_nat i)"
proof
  assume r: "in_region a lo n"
  define i where "i = unat a - unat lo"
  have "unat (lo + of_nat i) = unat a"
    using r assms by (simp add: i_def in_region_def unat_add_of_nat)
  then have "a = lo + of_nat i" by (metis word_unat_eq_iff)
  moreover have "i < n" using r by (simp add: i_def in_region_def) linarith
  ultimately show "\<exists>i<n. a = lo + of_nat i" by blast
next
  assume "\<exists>i<n. a = lo + of_nat i"
  then show "in_region a lo n"
    using assms by (auto simp: in_region_def unat_add_of_nat)
qed

lemma in_region_one: "in_region x a (Suc 0) \<longleftrightarrow> x = a"
  by (auto simp: in_region_def less_Suc_eq_le) (metis le_antisym word_unat_eq_iff)

lemma granule_nat: "unat (granule a) = unat a div 32"
  using unsigned_less [of a, where ?'a = nat]
  by (simp add: granule_def drop_bit_eq_div unat_div)

lemma granule_eq: "granule a = granule b \<longleftrightarrow> unat a div 32 = unat b div 32"
  by (metis granule_nat word_unat_eq_iff)

section \<open>What stores do\<close>

lemma bytes_write_byte [simp]: "bytes (write_byte a v m) = (bytes m)(a := v)"
  by (simp add: write_byte_def)

lemma tags_write_byte [simp]: "tags (write_byte a v m) = (tags m)(granule a := False)"
  by (simp add: write_byte_def)

lemma length_read_bytes [simp]: "length (read_bytes m a n) = n"
  by (simp add: read_bytes_def)

lemma bytes_write_bytes:
  assumes "unat a + length vs \<le> 2 ^ 64"
  shows "bytes (write_bytes a vs m) x =
    (if in_region x a (length vs) then vs ! (unat x - unat a) else bytes m x)"
  using assms
proof (induction vs arbitrary: a m)
  case Nil
  then show ?case by (auto simp: in_region_def)
next
  case (Cons v vs)
  show ?case
  proof (cases "vs = []")
    case True
    then show ?thesis by (auto simp: in_region_one)
  next
    case False
    then have "unat a + 1 < 2 ^ 64" using Cons.prems by (cases vs) auto
    then have u: "unat (a + 1) = unat a + 1"
      using unat_add_of_nat [of a 1] by simp
    then have ih: "bytes (write_bytes (a + 1) vs (write_byte a v m)) x =
        (if in_region x (a + 1) (length vs) then vs ! (unat x - unat (a + 1))
         else bytes (write_byte a v m) x)"
      using Cons.prems by (intro Cons.IH) simp
    show ?thesis
    proof (cases "x = a")
      case True
      then show ?thesis using ih u by (simp add: in_region_def)
    next
      case ne: False
      then have "unat x \<noteq> unat a" by (metis word_unat_eq_iff)
      then show ?thesis using ih u ne
        by (auto simp: in_region_def nth_Cons' Suc_diff_Suc)
    qed
  qed
qed

lemma tags_write_bytes:
  assumes "unat a + length vs \<le> 2 ^ 64"
  shows "tags (write_bytes a vs m) g =
    (tags m g \<and> \<not> (\<exists>x. in_region x a (length vs) \<and> granule x = g))"
  using assms
proof (induction vs arbitrary: a m)
  case Nil
  then show ?case by (simp add: in_region_def)
next
  case (Cons v vs)
  show ?case
  proof (cases "vs = []")
    case True
    then show ?thesis by (auto simp: in_region_one)
  next
    case False
    then have "unat a + 1 < 2 ^ 64" using Cons.prems by (cases vs) auto
    then have u: "unat (a + 1) = unat a + 1"
      using unat_add_of_nat [of a 1] by simp
    have "in_region x a (length (v # vs)) \<longleftrightarrow> x = a \<or> in_region x (a + 1) (length vs)" for x
    proof (cases "x = a")
      case False
      then have "unat x \<noteq> unat a" by (metis word_unat_eq_iff)
      with u False show ?thesis by (auto simp: in_region_def)
    qed (simp add: in_region_def)
    then show ?thesis using Cons.IH [of "a + 1" "write_byte a v m"] Cons.prems u by auto
  qed
qed

lemma read_bytes_nth: "i < n \<Longrightarrow> read_bytes m a n ! i = bytes m (a + of_nat i)"
  by (simp add: read_bytes_def)

text \<open>An aligned granule is the region of its 32 bytes.\<close>

lemma granule_region:
  assumes "unat a mod 32 = 0"
  shows "in_region x a 32 \<longleftrightarrow> granule x = granule a"
proof -
  obtain q where q: "unat a = 32 * q" using assms by auto
  have "32 * q \<le> n \<and> n < 32 * q + 32 \<longleftrightarrow> n div 32 = q" for n :: nat
    by auto
  then show ?thesis by (simp add: in_region_def granule_eq q)
qed

lemma aligned_no_wrap:
  assumes "unat (a :: u64) mod 32 = 0"
  shows "unat a + 32 \<le> 2 ^ 64"
proof -
  obtain q where q: "unat a = 32 * q" using assms by auto
  have "unat a < 2 ^ 64" using unsigned_less [of a, where ?'a = nat] by simp
  then have "q < 2 ^ 59" by (simp add: q)
  then show ?thesis by (simp add: q)
qed

lemma read_write_granule:
  assumes "unat a mod 32 = 0" and "length (fst v) = 32"
  shows "read_granule (write_granule a v m) a = v"
proof -
  have nw: "unat a + 32 \<le> 2 ^ 64" by (rule aligned_no_wrap [OF assms(1)])
  have "read_bytes (write_bytes a (fst v) m) a 32 = fst v"
    using nw assms(2)
    by (intro nth_equalityI) (auto simp: read_bytes_nth bytes_write_bytes in_region_def unat_add_of_nat)
  then show ?thesis
    by (simp add: read_granule_def write_granule_def Let_def read_bytes_def prod_eq_iff)
qed

section \<open>Capabilities in memory\<close>

text \<open>
  The image of a capability: a word with permissions, object type and seal, the address, the
  base, and the length complemented, so that the null capability is all zero. Where the first
  word keeps its fields is a choice of this model.
\<close>

definition cap_meta :: "cap \<Rightarrow> u64" where
  "cap_meta c = push_bit 32 (ucast (cap_perms c)) OR push_bit 8 (ucast (cap_otype c))
     OR (if cap_sealed c then 1 else 0)"

definition cap_image :: "cap \<Rightarrow> u8 list" where
  "cap_image c = be_bytes 8 (cap_meta c) @ be_bytes 8 (cap_addr c) @ be_bytes 8 (cap_base c)
     @ be_bytes 8 (NOT (cap_length c))"

definition be_word :: "u8 list \<Rightarrow> u64" where
  "be_word bs = word_of_nat (be_nat bs)"

definition image_cap :: "u8 list \<times> bool \<Rightarrow> cap" where
  "image_cap v =
     (let meta = be_word (take 8 (fst v)); addr = be_word (take 8 (drop 8 (fst v)));
          base = be_word (take 8 (drop 16 (fst v))); len = NOT (be_word (take 8 (drop 24 (fst v))))
      in \<lparr>cap_tag = snd v, cap_sealed = bit meta 0, cap_perms = ucast (drop_bit 32 meta),
          cap_otype = ucast (drop_bit 8 meta), cap_base = base, cap_length = len,
          cap_offset = addr - base\<rparr>)"

lemma be_word_bytes [simp]: "be_word (be_bytes 8 w) = w"
  by (simp add: be_word_def be_bytes_inject)

lemma cap_meta_bit:
  "bit (cap_meta c) n \<longleftrightarrow> (n < 64 \<and> 32 \<le> n \<and> bit (cap_perms c) (n - 32)) \<or>
     (8 \<le> n \<and> n < 32 \<and> bit (cap_otype c) (n - 8)) \<or> (n = 0 \<and> cap_sealed c)"
proof -
  have o: "\<not> bit (cap_otype c) (n - 8)" if "32 \<le> n"
    using that bit_imp_le_length [of "cap_otype c" "n - 8"] by auto
  show ?thesis
    using o by (cases "32 \<le> n") (auto simp: cap_meta_def bit_ucast_iff bit_or_iff bit_push_bit_iff bit_1_iff)
qed

lemma cap_meta_fields:
  "ucast (drop_bit 32 (cap_meta c)) = cap_perms c"
  "ucast (drop_bit 8 (cap_meta c)) = cap_otype c"
  "bit (cap_meta c) 0 = cap_sealed c"
proof -
  show "ucast (drop_bit 32 (cap_meta c)) = cap_perms c"
    by (rule bit_word_eqI) (simp add: bit_ucast_iff bit_drop_bit_eq cap_meta_bit)
  show "ucast (drop_bit 8 (cap_meta c)) = cap_otype c"
    by (rule bit_word_eqI) (simp add: bit_ucast_iff bit_drop_bit_eq cap_meta_bit)
qed (simp add: cap_meta_bit)

lemma image_cap_image [simp]: "image_cap (cap_image c, cap_tag c) = c"
  by (simp add: image_cap_def cap_image_def Let_def cap_meta_fields cap_addr_def)

text \<open>Loads and stores through a capability.\<close>

definition load_cap :: "cap \<Rightarrow> memory \<Rightarrow> cheri_fault + cap" where
  "load_cap c m =
     (case access_check c PERM_LOAD_CAPABILITY Load_capability_fault 32 of
        Some e \<Rightarrow> Inl e
      | None \<Rightarrow> if unat (cap_addr c) mod 32 \<noteq> 0 then Inl Address_error
               else Inr (image_cap (read_granule m (cap_addr c))))"

definition store_cap :: "cap \<Rightarrow> cap \<Rightarrow> memory \<Rightarrow> cheri_fault + memory" where
  "store_cap c v m =
     (case access_check c PERM_STORE_CAPABILITY Store_capability_fault 32 of
        Some e \<Rightarrow> Inl e
      | None \<Rightarrow> if unat (cap_addr c) mod 32 \<noteq> 0 then Inl Address_error
               else Inr (write_granule (cap_addr c) (cap_image v, cap_tag v) m))"

lemma length_cap_image [simp]: "length (cap_image c) = 32"
  by (simp add: cap_image_def)

text \<open>What a capability store leaves behind: the capability there, and nothing else changed.\<close>

lemma load_store_same:
  assumes "store_cap c v m = Inr m'" and "has_perm c PERM_LOAD_CAPABILITY"
  shows "load_cap c m' = Inr v"
  using assms
  by (auto simp: store_cap_def load_cap_def access_check_def read_write_granule split: if_splits)

lemma read_granule_other:
  assumes "unat a mod 32 = 0" "unat b mod 32 = 0" "a \<noteq> b" "length (fst v) = 32"
  shows "read_granule (write_granule b v m) a = read_granule m a"
proof -
  have nw: "unat a + 32 \<le> 2 ^ 64" "unat b + 32 \<le> 2 ^ 64"
    by (rule aligned_no_wrap, fact)+
  have g: "granule a \<noteq> granule b"
  proof -
    obtain p where p: "unat a = 32 * p" using assms(1) by auto
    obtain q where q: "unat b = 32 * q" using assms(2) by auto
    have "unat a \<noteq> unat b" using assms(3) by (metis word_unat_eq_iff)
    with p q show ?thesis by (simp add: granule_eq)
  qed
  have "granule (a + of_nat i) = granule a" if "i < 32" for i
    using that nw granule_region [OF assms(1), of "a + of_nat i"]
    by (simp add: in_region_def unat_add_of_nat)
  then have "\<not> in_region (a + of_nat i) b 32" if "i < 32" for i
    using that g granule_region [OF assms(2)] by metis
  then have "read_bytes (write_bytes b (fst v) m) a 32 = read_bytes m a 32"
    using nw assms(4) by (intro nth_equalityI) (auto simp: read_bytes_nth bytes_write_bytes)
  moreover have "tags (write_bytes b (fst v) m) (granule a) = tags m (granule a)"
    using nw assms(4) g by (auto simp: tags_write_bytes granule_region [OF assms(2)])
  ultimately show ?thesis
    using g by (simp add: read_granule_def write_granule_def Let_def read_bytes_def)
qed

end
