(* ===== verification/CrtInit.thy ===== *)
theory CrtInit
  imports CheriMem
begin

text \<open>
  \<open>crt_init_globals.c\<close> as it is built without a capability table: before \<open>main\<close> runs, the
  pointers in the globals of a pure-capability program are made from the default data capability
  and the program counter capability, one per entry of the relocation section; and the \<open>strlen\<close>
  the file provides.
\<close>

section \<open>Relocations\<close>

record capreloc =
  capability_location :: u64
  reloc_object :: u64
  reloc_offset :: u64
  reloc_size :: u64
  reloc_permissions :: u64

definition function_reloc_flag :: u64 where
  "function_reloc_flag = push_bit 63 1"

definition function_pointer_permissions :: u64 where
  "function_pointer_permissions =
     NOT 0 AND NOT (ucast PERM_STORE_CAPABILITY) AND NOT (ucast PERM_STORE)"

definition global_pointer_permissions :: u64 where
  "global_pointer_permissions = NOT 0 AND NOT (ucast PERM_EXECUTE)"

definition is_function :: "capreloc \<Rightarrow> bool" where
  "is_function r \<longleftrightarrow> reloc_permissions r AND function_reloc_flag = function_reloc_flag"

text \<open>The pointer an entry asks for, and the loop body that stores it.\<close>

definition reloc_source :: "cap \<Rightarrow> cap \<Rightarrow> capreloc \<Rightarrow> cheri_fault + cap" where
  "reloc_source gdc pcc r =
     (case cheri_offset_set (if is_function r then pcc else gdc) (reloc_object r) of
        Inl e \<Rightarrow> Inl e
      | Inr src \<Rightarrow>
          (case (if \<not> is_function r \<and> reloc_size r \<noteq> 0 then cheri_bounds_set src (reloc_size r)
                 else Inr src) of
             Inl e \<Rightarrow> Inl e
           | Inr src \<Rightarrow> cheri_offset_increment src (reloc_offset r)))"

definition init_reloc :: "cap \<Rightarrow> cap \<Rightarrow> capreloc \<Rightarrow> memory \<Rightarrow> cheri_fault + memory" where
  "init_reloc gdc pcc r m =
     (case cheri_offset_set gdc (capability_location r) of
        Inl e \<Rightarrow> Inl e
      | Inr dest \<Rightarrow>
          (case reloc_source gdc pcc r of
             Inl e \<Rightarrow> Inl e
           | Inr src \<Rightarrow> store_cap dest src m))"

fun init_relocs :: "cap \<Rightarrow> cap \<Rightarrow> capreloc list \<Rightarrow> memory \<Rightarrow> cheri_fault + memory" where
  "init_relocs gdc pcc [] m = Inr m"
| "init_relocs gdc pcc (r # rs) m =
     (case init_reloc gdc pcc r m of Inl e \<Rightarrow> Inl e | Inr m' \<Rightarrow> init_relocs gdc pcc rs m')"

text \<open>\<open>relocs\<close> are the entries between the two symbols of the section, which is read only.\<close>

definition crt_init_globals ::
  "cap \<Rightarrow> cap \<Rightarrow> capreloc list \<Rightarrow> memory \<Rightarrow> cheri_fault + memory" where
  "crt_init_globals ddc pcc relocs m =
     (case cheri_perms_and ddc global_pointer_permissions of
        Inl e \<Rightarrow> Inl e
      | Inr gdc \<Rightarrow>
          (case cheri_perms_and pcc function_pointer_permissions of
             Inl e \<Rightarrow> Inl e
           | Inr pcc' \<Rightarrow> init_relocs gdc pcc' relocs m))"

section \<open>What the globals hold afterwards\<close>

text \<open>An entry the linker may write: a place for the pointer and an object inside the data segment.\<close>

definition reloc_ok :: "cap \<Rightarrow> capreloc \<Rightarrow> bool" where
  "reloc_ok ddc r \<longleftrightarrow>
     in_bounds (ddc\<lparr>cap_offset := capability_location r\<rparr>) 32 \<and>
     unat (cap_base ddc + capability_location r) mod 32 = 0 \<and>
     (\<not> is_function r \<longrightarrow> in_bounds (ddc\<lparr>cap_offset := reloc_object r\<rparr>) (unat (reloc_size r)))"

text \<open>The pointer the program should find: the object with its own bounds, or the function.\<close>

definition global_pointer :: "cap \<Rightarrow> cap \<Rightarrow> capreloc \<Rightarrow> cap" where
  "global_pointer ddc pcc r =
     (if is_function r
      then pcc\<lparr>cap_perms := cap_perms pcc AND NOT (PERM_STORE OR PERM_STORE_CAPABILITY),
               cap_offset := reloc_object r + reloc_offset r\<rparr>
      else if reloc_size r = 0
      then ddc\<lparr>cap_perms := cap_perms ddc AND NOT PERM_EXECUTE,
               cap_offset := reloc_object r + reloc_offset r\<rparr>
      else ddc\<lparr>cap_perms := cap_perms ddc AND NOT PERM_EXECUTE,
               cap_base := cap_base ddc + reloc_object r, cap_length := reloc_size r,
               cap_offset := reloc_offset r\<rparr>)"

lemma permission_masks:
  "ucast function_pointer_permissions = NOT (PERM_STORE OR PERM_STORE_CAPABILITY)"
  "ucast global_pointer_permissions = NOT PERM_EXECUTE"
  by code_simp+

text \<open>The two capabilities the loop derives pointers from.\<close>

definition data_cap :: "cap \<Rightarrow> cap" where
  "data_cap ddc = ddc\<lparr>cap_perms := cap_perms ddc AND NOT PERM_EXECUTE\<rparr>"

definition code_cap :: "cap \<Rightarrow> cap" where
  "code_cap pcc = pcc\<lparr>cap_perms := cap_perms pcc AND NOT (PERM_STORE OR PERM_STORE_CAPABILITY)\<rparr>"

definition usable :: "cap \<Rightarrow> bool" where
  "usable c \<longleftrightarrow> cap_tag c \<and> \<not> cap_sealed c"

declare usable_def [cap_simps]

lemma crt_init_globals_loop:
  "usable ddc \<Longrightarrow> usable pcc \<Longrightarrow>
   crt_init_globals ddc pcc relocs m = init_relocs (data_cap ddc) (code_cap pcc) relocs m"
  by (simp add: crt_init_globals_def cheri_perms_and_def usable_def permission_masks data_cap_def
      code_cap_def)

lemma in_bounds_perms [simp]:
  "in_bounds (c\<lparr>cap_perms := p, cap_offset := v\<rparr>) n = in_bounds (c\<lparr>cap_offset := v\<rparr>) n"
  by (simp add: in_bounds_def cap_addr_def)

lemma reloc_source_value:
  assumes "usable ddc" "usable pcc" "reloc_ok ddc r"
  shows "reloc_source (data_cap ddc) (code_cap pcc) r = Inr (global_pointer ddc pcc r)"
  using assms
  by (auto simp: reloc_source_def usable_def cheri_offset_set_def cheri_offset_increment_def
      cheri_bounds_set_def reloc_ok_def global_pointer_def cap_addr_def data_cap_def code_cap_def)

text \<open>Permissions to store survive the removal of the permission to execute.\<close>

lemma data_cap_perm:
  "has_perm ddc p \<Longrightarrow> p AND PERM_EXECUTE = 0 \<Longrightarrow> has_perm (data_cap ddc) p"
proof -
  assume p: "has_perm ddc p" "p AND PERM_EXECUTE = 0"
  have "bit ((cap_perms ddc AND NOT PERM_EXECUTE) AND p) n = bit p n" if "n < LENGTH(32)" for n
    using that arg_cong [OF p(1) [unfolded has_perm_def], of "\<lambda>w. bit w n"]
      arg_cong [OF p(2), of "\<lambda>w. bit w n"]
    by (auto simp: bit_and_iff bit_not_iff)
  then have "(cap_perms ddc AND NOT PERM_EXECUTE) AND p = p"
    by (intro bit_word_eqI) simp
  then show ?thesis by (simp add: has_perm_def data_cap_def)
qed

lemma data_cap_place:
  assumes "usable ddc" "has_perm ddc PERM_STORE_CAPABILITY" "reloc_ok ddc r"
  shows "access_check (data_cap ddc\<lparr>cap_offset := capability_location r\<rparr>)
    PERM_STORE_CAPABILITY Store_capability_fault 32 = None"
proof -
  have "has_perm (data_cap ddc) PERM_STORE_CAPABILITY"
    using assms(2) by (rule data_cap_perm) code_simp
  with assms show ?thesis
    by (simp add: access_check_def has_perm_def usable_def reloc_ok_def data_cap_def)
qed

definition location :: "cap \<Rightarrow> capreloc \<Rightarrow> u64" where
  "location ddc r = cap_base ddc + capability_location r"

lemma init_reloc_store:
  assumes "usable ddc" "usable pcc" "reloc_ok ddc r" "has_perm ddc PERM_STORE_CAPABILITY"
  shows "init_reloc (data_cap ddc) (code_cap pcc) r m =
    Inr (write_granule (location ddc r)
      (cap_image (global_pointer ddc pcc r), cap_tag (global_pointer ddc pcc r)) m)"
proof -
  have "cheri_offset_set (data_cap ddc) (capability_location r) =
      Inr (data_cap ddc\<lparr>cap_offset := capability_location r\<rparr>)"
    using assms(1) by (simp add: cheri_offset_set_def usable_def data_cap_def)
  moreover have "cap_addr (data_cap ddc\<lparr>cap_offset := capability_location r\<rparr>) = location ddc r"
    by (simp add: cap_addr_def data_cap_def location_def)
  moreover have "unat (location ddc r) mod 32 = 0"
    using assms(3) by (simp add: reloc_ok_def location_def)
  ultimately show ?thesis
    using assms by (simp add: init_reloc_def reloc_source_value store_cap_def data_cap_place)
qed

definition pointer_at :: "memory \<Rightarrow> cap \<Rightarrow> capreloc \<Rightarrow> cap" where
  "pointer_at m ddc r = image_cap (read_granule m (location ddc r))"

text \<open>The store for one entry leaves the pointers of entries elsewhere alone.\<close>

lemma init_relocs_frame:
  assumes "usable ddc" "usable pcc" "has_perm ddc PERM_STORE_CAPABILITY"
    and "list_all (reloc_ok ddc) rs" and "unat a mod 32 = 0" and "a \<notin> location ddc ` set rs"
  shows "\<exists>m'. init_relocs (data_cap ddc) (code_cap pcc) rs m = Inr m' \<and>
     read_granule m' a = read_granule m a"
  using assms(4-)
proof (induction rs arbitrary: m)
  case (Cons r rs)
  let ?v = "(cap_image (global_pointer ddc pcc r), cap_tag (global_pointer ddc pcc r))"
  let ?m = "write_granule (location ddc r) ?v m"
  have "unat (location ddc r) mod 32 = 0" using Cons.prems by (simp add: reloc_ok_def location_def)
  then have "read_granule ?m a = read_granule m a"
    using Cons.prems by (intro read_granule_other) auto
  moreover have "\<exists>m'. init_relocs (data_cap ddc) (code_cap pcc) rs ?m = Inr m' \<and>
      read_granule m' a = read_granule ?m a"
    using Cons by auto
  ultimately show ?case
    using Cons.prems by (simp add: init_reloc_store assms(1-3))
qed simp

lemma init_relocs_pointers:
  assumes "usable ddc" "usable pcc" "has_perm ddc PERM_STORE_CAPABILITY"
    and "list_all (reloc_ok ddc) rs" and "distinct (map (location ddc) rs)"
  shows "\<exists>m'. init_relocs (data_cap ddc) (code_cap pcc) rs m = Inr m' \<and>
     list_all (\<lambda>r. pointer_at m' ddc r = global_pointer ddc pcc r) rs"
  using assms(4-)
proof (induction rs arbitrary: m)
  case (Cons r rs)
  let ?g = "global_pointer ddc pcc r"
  define m1 where "m1 = write_granule (location ddc r) (cap_image ?g, cap_tag ?g) m"
  have al: "unat (location ddc r) mod 32 = 0"
    using Cons.prems by (simp add: reloc_ok_def location_def)
  obtain m' where m': "init_relocs (data_cap ddc) (code_cap pcc) rs m1 = Inr m'"
    "list_all (\<lambda>r. pointer_at m' ddc r = global_pointer ddc pcc r) rs"
    using Cons by auto
  moreover have "read_granule m' (location ddc r) = read_granule m1 (location ddc r)"
    using init_relocs_frame [OF assms(1-3), of rs "location ddc r" m1] Cons.prems al m'(1) by auto
  then have "pointer_at m' ddc r = ?g"
    by (simp add: pointer_at_def m1_def read_write_granule al)
  ultimately show ?case
    using Cons.prems by (simp add: init_reloc_store assms(1-3) m1_def)
qed simp

text \<open>The rights of a pointer in a global.\<close>

lemma and_not_disjoint: "(a AND NOT b) AND b = (0 :: 'a::len word)"
  by (metis and.assoc and.commute and.left_commute and_zero_eq bit.conj_cancel_left)

definition pointer_rights :: "cap \<Rightarrow> cap \<Rightarrow> capreloc \<Rightarrow> cap \<Rightarrow> bool" where
  "pointer_rights ddc pcc r p \<longleftrightarrow>
     (if is_function r
      then authority p pcc \<and> \<not> has_perm p PERM_STORE \<and> \<not> has_perm p PERM_STORE_CAPABILITY
      else authority p ddc \<and> \<not> has_perm p PERM_EXECUTE \<and>
        (reloc_size r \<noteq> 0 \<longrightarrow> cap_base p = cap_base ddc + reloc_object r \<and> cap_length p = reloc_size r))"

lemma no_perm: "p \<noteq> 0 \<Longrightarrow> \<not> has_perm (c\<lparr>cap_perms := q AND NOT p\<rparr>) p"
  by (simp add: has_perm_def and_not_disjoint)

lemma global_pointer_rights:
  assumes "usable ddc" "usable pcc" "reloc_ok ddc r"
  shows "pointer_rights ddc pcc r (global_pointer ddc pcc r)"
proof (cases "is_function r")
  case True
  have n: "x AND NOT (PERM_STORE OR PERM_STORE_CAPABILITY) AND PERM_STORE = 0"
    "x AND NOT (PERM_STORE OR PERM_STORE_CAPABILITY) AND PERM_STORE_CAPABILITY = 0" for x
    by (rule bit_word_eqI, auto simp: bit_and_iff bit_or_iff bit_not_iff)+
  with True show ?thesis
    by (auto simp: pointer_rights_def global_pointer_def authority_def has_perm_def perm_defs
        and.assoc) (metis and.assoc and.commute and.idem)
next
  case False
  then have "authority (global_pointer ddc pcc r) ddc"
    using assms
    by (auto simp: global_pointer_def authority_def reloc_ok_def in_bounds_def cap_addr_def)
      (metis and.assoc and.commute and.idem)+
  moreover have "\<not> has_perm (global_pointer ddc pcc r) PERM_EXECUTE"
    using False
    by (simp add: global_pointer_def has_perm_def and_not_disjoint) (simp add: perm_defs)
  ultimately show ?thesis using False by (simp add: pointer_rights_def global_pointer_def)
qed

text \<open>
  C4. Started with usable data and code capabilities and entries whose places are distinct,
  aligned and, with their objects, inside the data segment, \<open>crt_init_globals\<close> finishes without a
  fault and every global holds its pointer: for an object a capability that spans exactly the
  object, with its offset, and cannot be executed, for a function one that can be executed but
  not written through, none with more authority than what it was made from.
\<close>

theorem crt_init_globals_pointers:
  assumes "usable ddc" and "usable pcc" and "has_perm ddc PERM_STORE_CAPABILITY"
    and "list_all (reloc_ok ddc) relocs" and "distinct (map (location ddc) relocs)"
  shows "\<exists>m'. crt_init_globals ddc pcc relocs m = Inr m' \<and>
     list_all (\<lambda>r. pointer_at m' ddc r = global_pointer ddc pcc r \<and>
       pointer_rights ddc pcc r (pointer_at m' ddc r)) relocs"
proof -
  obtain m' where "init_relocs (data_cap ddc) (code_cap pcc) relocs m = Inr m'"
    "list_all (\<lambda>r. pointer_at m' ddc r = global_pointer ddc pcc r) relocs"
    using init_relocs_pointers [OF assms] by blast
  then show ?thesis
    using assms global_pointer_rights by (auto simp: crt_init_globals_loop list_all_iff)
qed

text \<open>A data segment of 4096 bytes with one object, and a code segment with one function.\<close>

definition example_ddc :: cap where
  "example_ddc = \<lparr>cap_tag = True, cap_sealed = False, cap_perms = 0x3f, cap_otype = 0,
     cap_base = 0x10000, cap_length = 0x1000, cap_offset = 0\<rparr>"

definition example_relocs :: "capreloc list" where
  "example_relocs =
     [\<lparr>capability_location = 0x40, reloc_object = 0x100, reloc_offset = 2, reloc_size = 6,
       reloc_permissions = 0\<rparr>,
      \<lparr>capability_location = 0x60, reloc_object = 0x800, reloc_offset = 0, reloc_size = 0,
       reloc_permissions = function_reloc_flag\<rparr>]"

theorem crt_init_globals_pointers_witness:
  "\<exists>m'. crt_init_globals example_ddc example_ddc example_relocs \<lparr>bytes = \<lambda>_. 0, tags = \<lambda>_. False\<rparr> = Inr m' \<and>
     list_all (\<lambda>r. pointer_at m' example_ddc r = global_pointer example_ddc example_ddc r \<and>
       pointer_rights example_ddc example_ddc r (pointer_at m' example_ddc r)) example_relocs"
  by (rule crt_init_globals_pointers)
    (simp_all add: example_ddc_def example_relocs_def usable_def has_perm_def reloc_ok_def
      in_bounds_def cap_addr_def location_def is_function_def function_reloc_flag_def perm_defs)

section \<open>strlen\<close>

definition load_byte :: "cap \<Rightarrow> memory \<Rightarrow> cheri_fault + u8" where
  "load_byte c m =
     (case access_check c PERM_LOAD Load_fault 1 of
        Some e \<Rightarrow> Inl e | None \<Rightarrow> Inr (read_byte m (cap_addr c)))"

partial_function (option) strlen_loop ::
  "cap \<Rightarrow> cap \<Rightarrow> memory \<Rightarrow> (cheri_fault + u64) option" where
  "strlen_loop str p m =
     (case load_byte p m of
        Inl e \<Rightarrow> Some (Inl e)
      | Inr c \<Rightarrow>
          if c \<noteq> 0 then
            (case cheri_offset_increment p 1 of
               Inl e \<Rightarrow> Some (Inl e) | Inr p' \<Rightarrow> strlen_loop str p' m)
          else Some (Inr (cap_addr p - cap_addr str)))"

definition strlen :: "cap \<Rightarrow> memory \<Rightarrow> (cheri_fault + u64) option" where
  "strlen str m = strlen_loop str str m"

text \<open>The bytes from the pointer to the end of its object.\<close>

definition readable :: "cap \<Rightarrow> bool" where
  "readable c \<longleftrightarrow> usable c \<and> cap_wf c \<and> has_perm c PERM_LOAD"

definition room :: "cap \<Rightarrow> nat" where
  "room c = unat (cap_base c) + unat (cap_length c) - unat (cap_addr c)"

lemma in_bounds_one: "in_bounds c 0 \<Longrightarrow> in_bounds c 1 \<longleftrightarrow> 0 < room c"
  by (auto simp: in_bounds_def room_def)

lemma strlen_loop_result:
  assumes "readable p" and "in_bounds p 0" and "room p = n"
  shows "strlen_loop str p m =
    (case find (\<lambda>i. bytes m (cap_addr p + of_nat i) = 0) [0..<n] of
       Some i \<Rightarrow> Some (Inr (cap_addr p + of_nat i - cap_addr str))
     | None \<Rightarrow> Some (Inl Length_fault))"
  using assms
proof (induction n arbitrary: p)
  case 0
  then have "\<not> in_bounds p 1" using in_bounds_one [of p] by simp
  with 0 show ?case
    by (simp add: strlen_loop.simps [of str p] load_byte_def access_check_def readable_def usable_def)
next
  case (Suc n)
  let ?p = "p\<lparr>cap_offset := cap_offset p + 1\<rparr>"
  have ib: "in_bounds p 1" using Suc.prems in_bounds_one [of p] by simp
  have ld: "load_byte p m = Inr (bytes m (cap_addr p))"
    using Suc.prems(1) ib by (simp add: load_byte_def access_check_def readable_def usable_def read_byte_def)
  have inc: "cheri_offset_increment p 1 = Inr ?p"
    using Suc.prems(1) by (simp add: cheri_offset_increment_def readable_def usable_def)
  define q where "q = ?p"
  have addr: "cap_addr q = cap_addr p + 1" by (simp add: q_def cap_addr_def)
  have "unat (cap_addr p) + 1 < 2 ^ 64"
    using Suc.prems ib by (simp add: in_bounds_def readable_def cap_wf_def)
  then have un: "unat (cap_addr q) = unat (cap_addr p) + 1"
    using unat_add_of_nat [of "cap_addr p" 1] addr by simp
  have p': "readable q" "in_bounds q 0" "room q = n"
    using Suc.prems ib un
    by (simp_all add: q_def readable_def usable_def cap_wf_def has_perm_def in_bounds_def room_def)
  have shift: "find P (map Suc xs) = map_option Suc (find (P \<circ> Suc) xs)" for P xs
    by (induction xs) auto
  show ?case
  proof (cases "bytes m (cap_addr p) = 0")
    case True
    then show ?thesis
      by (simp add: strlen_loop.simps [of str p] ld upt_conv_Cons del: upt_Suc)
  next
    case False
    then have "strlen_loop str p m = strlen_loop str q m"
      by (simp add: strlen_loop.simps [of str p] ld inc q_def)
    with False show ?thesis
      unfolding Suc.IH [OF p']
      by (simp add: upt_conv_Cons map_Suc_upt [symmetric] shift comp_def addr ac_simps del: upt_Suc
          split: option.splits)
  qed
qed

text \<open>
  C39. \<open>strlen\<close> always returns: on a readable pointer into its object it is the distance to the first
  zero byte when there is one before the end of the object, and a length fault when there is
  none, never a byte of another object.
\<close>

theorem strlen_first_nul:
  assumes "readable str" and "in_bounds str 0"
  shows "strlen str m = (case find (\<lambda>i. bytes m (cap_addr str + of_nat i) = 0) [0..<room str] of
     Some i \<Rightarrow> Some (Inr (of_nat i)) | None \<Rightarrow> Some (Inl Length_fault))"
  by (simp add: strlen_def strlen_loop_result [OF assms refl] split: option.splits)

theorem strlen_first_nul_witness:
  "strlen (example_ddc\<lparr>cap_length := 4\<rparr>) \<lparr>bytes = (\<lambda>_. 1)(0x10002 := 0), tags = \<lambda>_. False\<rparr>
     = Some (Inr 2)"
proof -
  let ?c = "example_ddc\<lparr>cap_length := 4\<rparr>"
  have "readable ?c" "in_bounds ?c 0" "room ?c = 4"
    by (simp_all add: readable_def usable_def cap_wf_def has_perm_def in_bounds_def room_def
        cap_addr_def example_ddc_def perm_defs)
  then show ?thesis
    using strlen_first_nul [of ?c "\<lparr>bytes = (\<lambda>_. 1)(0x10002 := 0), tags = \<lambda>_. False\<rparr>"]
    by (simp add: upt_conv_Cons numeral_eq_Suc cap_addr_def example_ddc_def)
qed

end
