(* ===== verification/MemCopy.thy ===== *)
theory MemCopy
  imports CrtInit
begin

text \<open>
  \<open>cheri-c-tests/clang-hybrid/memcpy.c\<close> for 256-bit capabilities: the one routine behind
  \<open>memcpy\<close>, \<open>memmove\<close>, \<open>bcopy\<close> and their capability versions. It copies bytes up to a word
  boundary, words of 8 bytes up to a capability boundary, capabilities of 32 bytes with their
  tags, and the remaining bytes, forward or backward.
\<close>

section \<open>Copying one unit\<close>

text \<open>
  \<open>dst[t] = src[t]\<close> for units of 1 byte, of a word or of a capability: a load and a store through
  the two pointers moved by \<open>t\<close>. Words and capabilities must be aligned.
\<close>

definition copy_unit :: "nat \<Rightarrow> cap \<Rightarrow> cap \<Rightarrow> memory \<Rightarrow> cheri_fault + memory" where
  "copy_unit w d s m =
     (let (load, load_fault, store, store_fault) =
        (if w = 32 then (PERM_LOAD_CAPABILITY, Load_capability_fault, PERM_STORE_CAPABILITY, Store_capability_fault)
         else (PERM_LOAD, Load_fault, PERM_STORE, Store_fault))
      in case access_check s load load_fault w of
           Some e \<Rightarrow> Inl e
         | None \<Rightarrow>
             if unat (cap_addr s) mod w \<noteq> 0 then Inl Address_error
             else case access_check d store store_fault w of
               Some e \<Rightarrow> Inl e
             | None \<Rightarrow>
                 if unat (cap_addr d) mod w \<noteq> 0 then Inl Address_error
                 else Inr (if w = 32 then write_granule (cap_addr d) (read_granule m (cap_addr s)) m
                           else write_bytes (cap_addr d) (read_bytes m (cap_addr s) w) m))"

definition copy_at :: "nat \<Rightarrow> cap \<Rightarrow> cap \<Rightarrow> u64 \<Rightarrow> memory \<Rightarrow> cheri_fault + memory" where
  "copy_at w dst src t m =
     (case cheri_offset_increment src t of
        Inl e \<Rightarrow> Inl e
      | Inr s \<Rightarrow>
          (case cheri_offset_increment dst t of Inl e \<Rightarrow> Inl e | Inr d \<Rightarrow> copy_unit w d s m))"

text \<open>The macro \<open>MIPSLOOP (index, last, statements, increment)\<close>.\<close>

partial_function (option) do_loop ::
  "(u64 \<Rightarrow> memory \<Rightarrow> cheri_fault + memory) \<Rightarrow> u64 \<Rightarrow> u64 \<Rightarrow> u64 \<Rightarrow> memory
     \<Rightarrow> (cheri_fault + memory) option" where
  "do_loop statements increment final index m =
     (case statements (index + increment) m of
        Inl e \<Rightarrow> Some (Inl e)
      | Inr m' \<Rightarrow>
          if index + increment \<noteq> final then do_loop statements increment final (index + increment) m'
          else Some (Inr m'))"

definition MIPSLOOP ::
  "u64 \<Rightarrow> u64 \<Rightarrow> (u64 \<Rightarrow> memory \<Rightarrow> cheri_fault + memory) \<Rightarrow> u64 \<Rightarrow> memory
     \<Rightarrow> (cheri_fault + memory) option" where
  "MIPSLOOP index final statements increment m =
     do_loop statements increment final (index - increment) m"

section \<open>The routine\<close>

record copy_state =
  dst :: cap
  src :: cap
  len :: u64
  mem :: memory

type_synonym copy_result = "(cheri_fault + copy_state) option"

definition andthen :: "copy_result \<Rightarrow> (copy_state \<Rightarrow> copy_result) \<Rightarrow> copy_result" where
  "andthen r f = (case r of None \<Rightarrow> None | Some (Inl e) \<Rightarrow> Some (Inl e) | Some (Inr st) \<Rightarrow> f st)"

text \<open>\<open>dst += t; src += t\<close>.\<close>

definition move :: "u64 \<Rightarrow> copy_state \<Rightarrow> copy_result" where
  "move t st =
     (case (cheri_offset_increment (dst st) t, cheri_offset_increment (src st) t) of
        (Inr d, Inr s) \<Rightarrow> Some (Inr (st\<lparr>dst := d, src := s\<rparr>))
      | (Inl e, _) \<Rightarrow> Some (Inl e)
      | (_, Inl e) \<Rightarrow> Some (Inl e))"

definition loop :: "nat \<Rightarrow> u64 \<Rightarrow> u64 \<Rightarrow> u64 \<Rightarrow> copy_state \<Rightarrow> copy_result" where
  "loop w index final increment st =
     (case MIPSLOOP index final (copy_at w (dst st) (src st)) increment (mem st) of
        None \<Rightarrow> None
      | Some (Inl e) \<Rightarrow> Some (Inl e)
      | Some (Inr m) \<Rightarrow> Some (Inr (st\<lparr>mem := m\<rparr>)))"

text \<open>
  The forward steps. A block moves the pointers behind its \<open>t\<close> bytes and counts up from \<open>-t\<close> to
  the last unit.
\<close>

definition forward_block :: "nat \<Rightarrow> u64 \<Rightarrow> copy_state \<Rightarrow> copy_result" where
  "forward_block w t st =
     andthen (move t st) (\<lambda>st. loop w (- t) (- of_nat w) (of_nat w) st)"

definition forward_align_word :: "copy_state \<Rightarrow> copy_result" where
  "forward_align_word st =
     (let t = cap_addr (src st)
      in if (t OR cap_addr (dst st)) AND 7 \<noteq> 0
         then let t = (if (t XOR cap_addr (dst st)) AND 7 \<noteq> 0 \<or> len st < 8 then len st
                       else 8 - (t AND 7))
              in forward_block 1 t (st\<lparr>len := len st - t\<rparr>)
         else Some (Inr st))"

definition forward_align_ptr :: "copy_state \<Rightarrow> copy_result" where
  "forward_align_ptr st =
     (let t = cap_addr (src st)
      in if (t OR cap_addr (dst st)) AND 31 \<noteq> 0
         then let t = (if (t XOR cap_addr (dst st)) AND 31 \<noteq> 0 \<or> len st < 32 then len st div 8
                       else (32 - (t AND 31)) div 8)
              in if t \<noteq> 0 then forward_block 8 (t * 8) (st\<lparr>len := len st - t * 8\<rparr>)
                 else Some (Inr st)
         else Some (Inr st))"

definition forward_ptrs :: "copy_state \<Rightarrow> copy_result" where
  "forward_ptrs st =
     (let t = len st div 32 in if t \<noteq> 0 then forward_block 32 (t * 32) st else Some (Inr st))"

definition forward_tail :: "copy_state \<Rightarrow> copy_result" where
  "forward_tail st =
     (let t = len st AND 31 in if t \<noteq> 0 then forward_block 1 t st else Some (Inr st))"

text \<open>The backward steps count down from the last unit of the block to 0.\<close>

definition backward_block :: "nat \<Rightarrow> u64 \<Rightarrow> copy_state \<Rightarrow> copy_result" where
  "backward_block w t st =
     andthen (move (- t) st) (\<lambda>st. loop w (t - of_nat w) 0 (- of_nat w) st)"

definition backward_align_word :: "copy_state \<Rightarrow> copy_result" where
  "backward_align_word st =
     (let t = cap_addr (src st)
      in if (t OR cap_addr (dst st)) AND 7 \<noteq> 0
         then let t = (if (t XOR cap_addr (dst st)) AND 7 \<noteq> 0 \<or> len st \<le> 8 then len st
                       else t AND 7)
              in backward_block 1 t (st\<lparr>len := len st - t\<rparr>)
         else Some (Inr st))"

definition backward_align_ptr :: "copy_state \<Rightarrow> copy_result" where
  "backward_align_ptr st =
     (let t = cap_addr (src st)
      in if (t OR cap_addr (dst st)) AND 31 \<noteq> 0
         then let t = (if (t XOR cap_addr (dst st)) AND 31 \<noteq> 0 \<or> len st < 32 then len st div 8
                       else (t AND 31) div 8)
              in if t \<noteq> 0 then backward_block 8 (t * 8) (st\<lparr>len := len st - t * 8\<rparr>)
                 else Some (Inr st)
         else Some (Inr st))"

definition backward_ptrs :: "copy_state \<Rightarrow> copy_result" where
  "backward_ptrs st =
     (let t = len st div 32 in if t \<noteq> 0 then backward_block 32 (t * 32) st else Some (Inr st))"

definition backward_tail :: "copy_state \<Rightarrow> copy_result" where
  "backward_tail st =
     (let t = len st AND 31 in if t \<noteq> 0 then backward_block 1 t st else Some (Inr st))"

definition copy_forward :: "copy_state \<Rightarrow> copy_result" where
  "copy_forward st =
     andthen (andthen (andthen (forward_align_word st) forward_align_ptr) forward_ptrs) forward_tail"

definition copy_backward :: "copy_state \<Rightarrow> copy_result" where
  "copy_backward st =
     andthen (andthen (andthen (andthen (move (len st) st) backward_align_word) backward_align_ptr)
       backward_ptrs) backward_tail"

text \<open>The body behind the two entry checks, from the pointers it works on.\<close>

definition copy_body :: "bool \<Rightarrow> cap \<Rightarrow> cap \<Rightarrow> u64 \<Rightarrow> memory \<Rightarrow> (cheri_fault + memory) option" where
  "copy_body handle_overlap d s n m =
     (let st = \<lparr>dst = d, src = s, len = n, mem = m\<rparr>
      in map_option (map_sum id mem)
           (if cap_less d s \<or> \<not> handle_overlap then copy_forward st else copy_backward st))"

text \<open>
  The capability versions work on the pointers they are given; the others make capabilities that
  span just the operands from the default data capability. All but \<open>bcopy\<close> return the
  destination they were given.
\<close>

definition copy_c :: "bool \<Rightarrow> cap \<Rightarrow> cap \<Rightarrow> u64 \<Rightarrow> memory \<Rightarrow> (cheri_fault + memory) option" where
  "copy_c handle_overlap dst0 src0 n m =
     (if n = 0 \<or> cap_eq src0 dst0 then Some (Inr m) else copy_body handle_overlap dst0 src0 n m)"

definition copy_p :: "bool \<Rightarrow> cap \<Rightarrow> u64 \<Rightarrow> u64 \<Rightarrow> u64 \<Rightarrow> memory \<Rightarrow> (cheri_fault + memory) option" where
  "copy_p handle_overlap ddc dst0 src0 n m =
     (if n = 0 \<or> src0 = dst0 then Some (Inr m)
      else case (cheri_bounds_set (to_cap ddc dst0) n, cheri_bounds_set (to_cap ddc src0) n) of
             (Inr d, Inr s) \<Rightarrow> copy_body handle_overlap d s n m
           | (Inl e, _) \<Rightarrow> Some (Inl e)
           | (_, Inl e) \<Rightarrow> Some (Inl e))"

definition returning :: "'p \<Rightarrow> (cheri_fault + memory) option \<Rightarrow> (cheri_fault + 'p \<times> memory) option" where
  "returning dst0 r = map_option (map_sum id (Pair dst0)) r"

definition cmemcpy_c :: "cap \<Rightarrow> cap \<Rightarrow> u64 \<Rightarrow> memory \<Rightarrow> (cheri_fault + cap \<times> memory) option" where
  "cmemcpy_c dst0 src0 n m = returning dst0 (copy_c False dst0 src0 n m)"

definition memmove_c :: "cap \<Rightarrow> cap \<Rightarrow> u64 \<Rightarrow> memory \<Rightarrow> (cheri_fault + cap \<times> memory) option" where
  "memmove_c dst0 src0 n m = returning dst0 (copy_c True dst0 src0 n m)"

definition cmemcpy :: "cap \<Rightarrow> u64 \<Rightarrow> u64 \<Rightarrow> u64 \<Rightarrow> memory \<Rightarrow> (cheri_fault + u64 \<times> memory) option" where
  "cmemcpy ddc dst0 src0 n m = returning dst0 (copy_p False ddc dst0 src0 n m)"

definition cmemmove :: "cap \<Rightarrow> u64 \<Rightarrow> u64 \<Rightarrow> u64 \<Rightarrow> memory \<Rightarrow> (cheri_fault + u64 \<times> memory) option" where
  "cmemmove ddc dst0 src0 n m = returning dst0 (copy_p True ddc dst0 src0 n m)"

definition bcopy :: "cap \<Rightarrow> u64 \<Rightarrow> u64 \<Rightarrow> u64 \<Rightarrow> memory \<Rightarrow> (cheri_fault + memory) option" where
  "bcopy ddc src0 dst0 n m = copy_p True ddc dst0 src0 n m"

lemma returning_Some [simp]: "returning p (Some (Inr m)) = Some (Inr (p, m))"
  by (simp add: returning_def)

end
