(* ===== verification/MemCopyCorrect.thy ===== *)
theory MemCopyCorrect
  imports MemCopy
begin

text \<open>
  What the routine of \<open>MemCopy\<close> does: the region it was asked to copy holds the bytes the source
  region held before, however the two overlap (for the versions that handle overlap), nothing else
  changes, and the tags of the granules that lie wholly in the region come along exactly when
  source and destination are congruent modulo the size of a capability.
\<close>

section \<open>Memory by numbers\<close>

definition byte_at :: "memory \<Rightarrow> nat \<Rightarrow> u8" where
  "byte_at m x = bytes m (word_of_nat x)"

definition tag_at :: "memory \<Rightarrow> nat \<Rightarrow> bool" where
  "tag_at m g = tags m (word_of_nat g)"

lemma unat_small: "x < 2 ^ 64 \<Longrightarrow> unat (word_of_nat x :: u64) = x"
  by (simp add: unat_of_nat)

lemma unat_small_le: "x + k \<le> 2 ^ 64 \<Longrightarrow> 0 < k \<Longrightarrow> unat (word_of_nat x :: u64) = x"
  by (rule unat_small) linarith

lemma granule_of_nat: "x < 2 ^ 64 \<Longrightarrow> granule (word_of_nat x) = word_of_nat (x div 32)"
  by (rule word_unat_eq_iff [THEN iffD2]) (simp add: granule_nat unat_small)

lemma byte_at_write_bytes:
  assumes "a + length vs \<le> 2 ^ 64" and "vs \<noteq> []" and "x < 2 ^ 64"
  shows "byte_at (write_bytes (word_of_nat a) vs m) x =
    (if a \<le> x \<and> x < a + length vs then vs ! (x - a) else byte_at m x)"
proof -
  have "unat (word_of_nat a :: u64) = a" using assms by (intro unat_small_le) auto
  then show ?thesis
    using assms by (simp add: byte_at_def bytes_write_bytes in_region_def unat_small)
qed

lemma tag_at_write_bytes:
  assumes "a + length vs \<le> 2 ^ 64" and "vs \<noteq> []" and "g < 2 ^ 59"
  shows "tag_at (write_bytes (word_of_nat a) vs m) g =
    (tag_at m g \<and> \<not> (\<exists>i<length vs. (a + i) div 32 = g))"
proof -
  have a: "unat (word_of_nat a :: u64) = a" using assms by (intro unat_small_le) auto
  have g: "word_of_nat x = (word_of_nat g :: u64) \<longleftrightarrow> x = g" if "x < 2 ^ 59" for x
  proof -
    have "x < 2 ^ 64" "g < 2 ^ 64" using that assms(3) by simp_all
    then show ?thesis by (metis unat_small)
  qed
  have "(\<exists>x. in_region x (word_of_nat a) (length vs) \<and> granule x = word_of_nat g) \<longleftrightarrow>
      (\<exists>i<length vs. (a + i) div 32 = g)"
  proof -
    have "granule (word_of_nat a + word_of_nat i) = word_of_nat g \<longleftrightarrow> (a + i) div 32 = g"
      if "i < length vs" for i
    proof -
      have "a + i < 2 ^ 64" using that assms(1) by linarith
      then have "(a + i) div 32 < 2 ^ 59" by simp
      then show ?thesis
        using granule_of_nat [OF \<open>a + i < 2 ^ 64\<close>] g by simp
    qed
    then show ?thesis
      using in_region_iff [of "word_of_nat a" "length vs"] assms(1) a by auto
  qed
  then show ?thesis
    using assms(1) a by (simp add: tag_at_def tags_write_bytes)
qed

lemma read_bytes_at: "i < w \<Longrightarrow> read_bytes m (word_of_nat a) w ! i = byte_at m (a + i)"
  by (simp add: read_bytes_nth byte_at_def)

section \<open>A region partly copied\<close>

text \<open>
  The region of \<open>n\<close> bytes from \<open>D\<close> is copied from \<open>S\<close>; \<open>m0\<close> is the memory before, \<open>R\<close> the set of
  the offsets copied so far. \<open>full g\<close>: granule \<open>g\<close> lies wholly in the region.
\<close>

definition full :: "nat \<Rightarrow> nat \<Rightarrow> nat \<Rightarrow> bool" where
  "full D n g \<longleftrightarrow> D \<le> 32 * g \<and> 32 * g + 32 \<le> D + n"

definition copied :: "nat \<Rightarrow> nat \<Rightarrow> nat \<Rightarrow> memory \<Rightarrow> nat set \<Rightarrow> memory \<Rightarrow> bool" where
  "copied D S n m0 R m \<longleftrightarrow>
     (\<forall>x<2 ^ 64. byte_at m x =
        (if D \<le> x \<and> x - D \<in> R then byte_at m0 (x - D + S) else byte_at m0 x)) \<and>
     (\<forall>g<2 ^ 59. tag_at m g =
        (if \<exists>i\<in>R. (D + i) div 32 = g
         then D mod 32 = S mod 32 \<and> full D n g \<and> tag_at m0 ((32 * g - D + S) div 32)
         else tag_at m0 g))"

lemma copied_start: "copied D S n m {} m"
  by (simp add: copied_def)

lemma copied_byte: "copied D S n m0 R m \<Longrightarrow> x < 2 ^ 64 \<Longrightarrow>
    byte_at m x = (if D \<le> x \<and> x - D \<in> R then byte_at m0 (x - D + S) else byte_at m0 x)"
  by (simp add: copied_def)

lemma copied_out: "copied D S n m0 R m \<Longrightarrow> x < 2 ^ 64 \<Longrightarrow> \<not> (D \<le> x \<and> x - D \<in> R) \<Longrightarrow>
    byte_at m x = byte_at m0 x"
  unfolding copied_def by metis

lemma copied_untouched: "copied D S n m0 R m \<Longrightarrow> g < 2 ^ 59 \<Longrightarrow> (\<And>i. i \<in> R \<Longrightarrow> (D + i) div 32 \<noteq> g) \<Longrightarrow>
    tag_at m g = tag_at m0 g"
  unfolding copied_def by metis

lemma aligned_block: "a mod 32 = 0 \<Longrightarrow> i < 32 \<Longrightarrow> (a + i) div 32 = a div (32::nat)"
  by auto

lemma same_mod: "(D + u) mod 32 = 0 \<Longrightarrow> (S + u) mod 32 = 0 \<Longrightarrow> D mod 32 = S mod (32::nat)"
proof -
  assume "(D + u) mod 32 = 0" "(S + u) mod 32 = 0"
  then have "32 dvd D + u" "32 dvd S + u" by (simp_all add: dvd_eq_mod_eq_0)
  then obtain p q where "D + u = 32 * p" "S + u = 32 * q" by (metis dvdE)
  then have "D + 32 * q = S + 32 * p" by linarith
  then have "(D + 32 * q) mod 32 = (S + 32 * p) mod 32" by simp
  then show ?thesis by simp
qed

lemma copied_tag: "copied D S n m0 R m \<Longrightarrow> g < 2 ^ 59 \<Longrightarrow>
    tag_at m g = (if \<exists>i\<in>R. (D + i) div 32 = g
      then D mod 32 = S mod 32 \<and> full D n g \<and> tag_at m0 ((32 * g - D + S) div 32) else tag_at m0 g)"
  by (simp add: copied_def)

text \<open>
  When the unit of \<open>w\<close> bytes at offset \<open>u\<close> can be copied next: its source was not overwritten yet;
  bytes and words do not belong to a granule whose tag has to be copied.
\<close>

definition unit_ok :: "nat \<Rightarrow> nat \<Rightarrow> nat \<Rightarrow> nat set \<Rightarrow> nat \<Rightarrow> nat \<Rightarrow> bool" where
  "unit_ok D S n R u w \<longleftrightarrow> u + w \<le> n \<and> 0 < w \<and> (D + u) mod w = 0 \<and> (S + u) mod w = 0 \<and>
     (if w = 32 then \<forall>r\<in>R. (D + r) div 32 \<noteq> (S + u) div 32
      else (\<forall>i<w. \<forall>r\<in>R. D + r \<noteq> S + u + i) \<and>
        (D mod 32 = S mod 32 \<longrightarrow> (\<forall>i<w. \<not> full D n ((D + u + i) div 32))))"

lemma copied_data_unit:
  assumes c: "copied D S n m0 R m" and nw: "D + n \<le> 2 ^ 64" "S + n \<le> 2 ^ 64"
    and u: "unit_ok D S n R u w" "w \<noteq> 32"
  shows "copied D S n m0 (R \<union> {u..<u + w})
    (write_bytes (word_of_nat (D + u)) (read_bytes m (word_of_nat (S + u)) w) m)"
    (is "copied D S n m0 ?R ?m")
proof -
  from u have w: "0 < w" "u + w \<le> n"
    and unread: "\<And>i r. i < w \<Longrightarrow> r \<in> R \<Longrightarrow> D + r \<noteq> S + u + i"
    and nofull: "\<And>i. D mod 32 = S mod 32 \<Longrightarrow> i < w \<Longrightarrow> \<not> full D n ((D + u + i) div 32)"
    by (auto simp: unit_ok_def)
  have len: "D + u + length (read_bytes m (word_of_nat (S + u)) w) \<le> 2 ^ 64"
    using nw w by simp
  have ne: "read_bytes m (word_of_nat (S + u)) w \<noteq> []"
    using w(1) by (metis length_read_bytes less_numeral_extra(3) list.size(3))
  have "byte_at ?m x = (if D \<le> x \<and> x - D \<in> ?R then byte_at m0 (x - D + S) else byte_at m0 x)"
    if x: "x < 2 ^ 64" for x
  proof (cases "D + u \<le> x \<and> x < D + u + w")
    case True
    then have i: "x - (D + u) < w" by linarith
    have "byte_at ?m x = byte_at m (S + u + (x - (D + u)))"
      using True byte_at_write_bytes [OF len ne x, of m] read_bytes_at [OF i, of m "S + u"]
      by (simp del: of_nat_add)
    also have "\<dots> = byte_at m0 (S + u + (x - (D + u)))"
    proof -
      have "S + u + (x - (D + u)) < 2 ^ 64" using i w nw by linarith
      moreover have "\<not> (D \<le> S + u + (x - (D + u)) \<and> S + u + (x - (D + u)) - D \<in> R)"
        using unread [OF i] by fastforce
      ultimately show ?thesis by (rule copied_out [OF c])
    qed
    also have "S + u + (x - (D + u)) = x - D + S" using True by linarith
    finally have "byte_at ?m x = byte_at m0 (x - D + S)" .
    moreover have "D \<le> x" "x - D \<in> ?R" using True by auto
    ultimately show ?thesis by simp
  next
    case False
    then have "D \<le> x \<Longrightarrow> x - D \<notin> {u..<u + w}" by auto
    then show ?thesis
      using byte_at_write_bytes [OF len ne x] False copied_byte [OF c x] by auto
  qed
  moreover have "tag_at ?m g =
      (if \<exists>i\<in>?R. (D + i) div 32 = g
       then D mod 32 = S mod 32 \<and> full D n g \<and> tag_at m0 ((32 * g - D + S) div 32)
       else tag_at m0 g)" if g: "g < 2 ^ 59" for g
  proof (cases "\<exists>i<w. (D + u + i) div 32 = g")
    case True
    then obtain i where i: "i < w" "(D + u + i) div 32 = g" by blast
    then have "u + i \<in> ?R" "(D + (u + i)) div 32 = g" by (auto simp: add.assoc)
    moreover have "\<not> (D mod 32 = S mod 32 \<and> full D n g)" using nofull i by blast
    moreover have "\<not> tag_at ?m g" using tag_at_write_bytes [OF len ne g] True by simp
    ultimately show ?thesis by auto
  next
    case False
    have "\<not> (\<exists>i\<in>{u..<u + w}. (D + i) div 32 = g)"
    proof
      assume "\<exists>i\<in>{u..<u + w}. (D + i) div 32 = g"
      then obtain i where i: "u \<le> i" "i < u + w" "(D + i) div 32 = g" by auto
      then have "i - u < w" "D + u + (i - u) = D + i" by linarith+
      with i(3) False show False by metis
    qed
    then have "(\<exists>i\<in>?R. (D + i) div 32 = g) \<longleftrightarrow> (\<exists>i\<in>R. (D + i) div 32 = g)" by blast
    then show ?thesis
      using tag_at_write_bytes [OF len ne g] False copied_tag [OF c g] by simp
  qed
  ultimately show ?thesis unfolding copied_def by blast
qed

lemma write_granule_bytes: "byte_at (write_granule a v m) x = byte_at (write_bytes a (fst v) m) x"
  by (simp add: byte_at_def write_granule_def Let_def)

lemma write_granule_tag:
  assumes "a < 2 ^ 64" "g < 2 ^ 59"
  shows "tag_at (write_granule (word_of_nat a) v m) g =
    (if a div 32 = g then snd v else tag_at (write_bytes (word_of_nat a) (fst v) m) g)"
proof -
  have "word_of_nat g = (word_of_nat (a div 32) :: u64) \<longleftrightarrow> a div 32 = g"
  proof -
    have "g < 2 ^ 64" "a div 32 < 2 ^ 64" using assms by simp_all
    then show ?thesis by (metis unat_small)
  qed
  then show ?thesis
    using granule_of_nat [OF assms(1)] by (simp add: tag_at_def write_granule_def Let_def)
qed

lemma copied_granule_unit:
  assumes c: "copied D S n m0 R m" and nw: "D + n \<le> 2 ^ 64" "S + n \<le> 2 ^ 64"
    and u: "unit_ok D S n R u 32"
  shows "copied D S n m0 (R \<union> {u..<u + 32})
    (write_granule (word_of_nat (D + u)) (read_granule m (word_of_nat (S + u))) m)"
    (is "copied D S n m0 ?R ?m")
proof -
  from u have u32: "u + 32 \<le> n" and al: "(D + u) mod 32 = 0" "(S + u) mod 32 = 0"
    and untouched: "\<And>r. r \<in> R \<Longrightarrow> (D + r) div 32 \<noteq> (S + u) div 32"
    by (auto simp: unit_ok_def)
  let ?vs = "read_bytes m (word_of_nat (S + u)) 32"
  have len: "D + u + length ?vs \<le> 2 ^ 64" using nw u32 by simp
  have ne: "?vs \<noteq> []" by (metis length_read_bytes list.size(3) zero_neq_numeral)
  have small: "D + u < 2 ^ 64" "S + u < 2 ^ 64" using nw u32 by linarith+
  have "byte_at ?m x = (if D \<le> x \<and> x - D \<in> ?R then byte_at m0 (x - D + S) else byte_at m0 x)"
    if x: "x < 2 ^ 64" for x
  proof (cases "D + u \<le> x \<and> x < D + u + 32")
    case True
    then have i: "x - (D + u) < 32" by linarith
    have "byte_at ?m x = byte_at m (S + u + (x - (D + u)))"
      using True byte_at_write_bytes [OF len ne x, of m] read_bytes_at [OF i, of m "S + u"]
      by (simp add: write_granule_bytes read_granule_def del: of_nat_add)
    also have "\<dots> = byte_at m0 (S + u + (x - (D + u)))"
    proof -
      have a: "S + u + (x - (D + u)) < 2 ^ 64" using i u32 nw by linarith
      have "(S + u + (x - (D + u))) div 32 = (S + u) div 32"
        using al(2) i by (rule aligned_block)
      then have "\<not> (D \<le> S + u + (x - (D + u)) \<and> S + u + (x - (D + u)) - D \<in> R)"
        using untouched [of "S + u + (x - (D + u)) - D"] by auto
      with a show ?thesis by (rule copied_out [OF c])
    qed
    also have "S + u + (x - (D + u)) = x - D + S" using True by linarith
    finally have "byte_at ?m x = byte_at m0 (x - D + S)" .
    moreover have "D \<le> x" "x - D \<in> ?R" using True by auto
    ultimately show ?thesis by simp
  next
    case False
    then have "D \<le> x \<Longrightarrow> x - D \<notin> {u..<u + 32}" by auto
    then show ?thesis
      using byte_at_write_bytes [OF len ne x, of m] False copied_byte [OF c x]
      by (auto simp: write_granule_bytes read_granule_def simp del: of_nat_add)
  qed
  moreover have "tag_at ?m g =
      (if \<exists>i\<in>?R. (D + i) div 32 = g
       then D mod 32 = S mod 32 \<and> full D n g \<and> tag_at m0 ((32 * g - D + S) div 32)
       else tag_at m0 g)" if g: "g < 2 ^ 59" for g
  proof (cases "(D + u) div 32 = g")
    case True
    then have gu: "32 * g = D + u" using al(1) by auto
    then have "full D n g" using u32 by (simp add: full_def)
    moreover have "D mod 32 = S mod 32"
      using al by (rule same_mod)
    moreover have "tag_at ?m g = tag_at m ((S + u) div 32)"
      using write_granule_tag [OF small(1) g] True granule_of_nat [OF small(2)]
      by (simp add: read_granule_def tag_at_def del: of_nat_add)
    moreover have "tag_at m ((S + u) div 32) = tag_at m0 ((S + u) div 32)"
    proof -
      have "(S + u) div 32 < 2 ^ 59" using small by simp
      then show ?thesis using untouched by (rule copied_untouched [OF c])
    qed
    moreover have "(32 * g - D + S) div 32 = (S + u) div 32" using gu by (simp add: add.commute)
    moreover have "\<exists>i\<in>?R. (D + i) div 32 = g" using True by (intro bexI [of _ u]) auto
    ultimately show ?thesis by (simp only: if_True simp_thms)
  next
    case False
    have "(D + u + i) div 32 = (D + u) div 32" if "i < 32" for i
      using al(1) that by (rule aligned_block)
    then have nt: "\<not> (\<exists>i<32. (D + u + i) div 32 = g)" using False by simp
    have "\<not> (\<exists>i\<in>{u..<u + 32}. (D + i) div 32 = g)"
    proof
      assume "\<exists>i\<in>{u..<u + 32}. (D + i) div 32 = g"
      then obtain i where i: "u \<le> i" "i < u + 32" "(D + i) div 32 = g" by auto
      then have "i - u < 32" "D + u + (i - u) = D + i" by linarith+
      with i(3) nt show False by metis
    qed
    then have "(\<exists>i\<in>?R. (D + i) div 32 = g) \<longleftrightarrow> (\<exists>i\<in>R. (D + i) div 32 = g)" by blast
    moreover have "tag_at ?m g = tag_at m g"
      using write_granule_tag [OF small(1) g] False tag_at_write_bytes [OF len ne g, of m] nt
      by (simp add: read_granule_def del: of_nat_add)
    ultimately show ?thesis using copied_tag [OF c g] by simp
  qed
  ultimately show ?thesis unfolding copied_def by blast
qed

section \<open>Blocks\<close>

text \<open>The capability may read and write the \<open>n\<close> bytes from \<open>lo\<close>, wherever it points.\<close>

definition covers :: "cap \<Rightarrow> nat \<Rightarrow> nat \<Rightarrow> bool" where
  "covers c lo n \<longleftrightarrow> usable c \<and> cap_wf c \<and>
     has_perm c PERM_LOAD \<and> has_perm c PERM_STORE \<and>
     has_perm c PERM_LOAD_CAPABILITY \<and> has_perm c PERM_STORE_CAPABILITY \<and>
     unat (cap_base c) \<le> lo \<and> lo + n \<le> unat (cap_base c) + unat (cap_length c)"

lemma covers_offset [simp]: "covers (c\<lparr>cap_offset := v\<rparr>) lo n = covers c lo n"
  by (simp add: covers_def usable_def cap_wf_def has_perm_def)

lemma covers_no_wrap: "covers c lo n \<Longrightarrow> lo + n < 2 ^ 64"
  by (simp add: covers_def cap_wf_def)

lemma covers_addr:
  assumes "covers c lo n" and "cap_addr c = word_of_nat (lo + u)" and "u + w \<le> n"
  shows "unat (cap_addr c) = lo + u"
  unfolding assms(2) using covers_no_wrap [OF assms(1)] assms(3) by (intro unat_small) linarith

lemma covers_check:
  assumes "covers c lo n" and "cap_addr c = word_of_nat (lo + u)" and "u + w \<le> n"
    and "p \<in> {PERM_LOAD, PERM_STORE, PERM_LOAD_CAPABILITY, PERM_STORE_CAPABILITY}"
  shows "access_check c p e w = None"
proof -
  note a = covers_addr [OF assms(1-3)]
  have "has_perm c p" using assms(1,4) by (auto simp: covers_def)
  moreover have "in_bounds c w" using assms(1,3) a by (simp add: in_bounds_def covers_def)
  ultimately show "access_check c p e w = None"
    using assms(1) by (simp add: access_check_def covers_def usable_def)
qed

lemma increment_usable:
  "usable c \<Longrightarrow> cheri_offset_increment c t = Inr (c\<lparr>cap_offset := cap_offset c + t\<rparr>)"
  by (simp add: cheri_offset_increment_def usable_def)

lemma cap_addr_move [simp]: "cap_addr (c\<lparr>cap_offset := cap_offset c + t\<rparr>) = cap_addr c + t"
  by (simp add: cap_addr_def)

lemma covers_usable: "covers c lo n \<Longrightarrow> usable c"
  by (simp add: covers_def)

lemma copy_unit_copied:
  assumes d: "covers d D n" "cap_addr d = word_of_nat (D + u)"
    and s: "covers s S n" "cap_addr s = word_of_nat (S + u)"
    and u: "unit_ok D S n R u w" and c: "copied D S n m0 R m"
  shows "\<exists>m'. copy_unit w d s m = Inr m' \<and> copied D S n m0 (R \<union> {u..<u + w}) m'"
proof -
  have uw: "u + w \<le> n" and al: "(D + u) mod w = 0" "(S + u) mod w = 0"
    using u by (simp_all add: unit_ok_def)
  have nw: "D + n \<le> 2 ^ 64" "S + n \<le> 2 ^ 64"
    using covers_no_wrap [OF d(1)] covers_no_wrap [OF s(1)] by linarith+
  note ch = covers_check [OF d uw] covers_check [OF s uw] covers_addr [OF d uw] covers_addr [OF s uw]
  show ?thesis
  proof (cases "w = 32")
    case True
    then have "copy_unit w d s m =
        Inr (write_granule (word_of_nat (D + u)) (read_granule m (word_of_nat (S + u))) m)"
      using ch al by (simp add: copy_unit_def flip: d(2) s(2) of_nat_add)
    with copied_granule_unit [OF c nw] u True show ?thesis by blast
  next
    case False
    then have "copy_unit w d s m =
        Inr (write_bytes (word_of_nat (D + u)) (read_bytes m (word_of_nat (S + u)) w) m)"
      using ch al by (simp add: copy_unit_def flip: d(2) s(2) of_nat_add)
    with copied_data_unit [OF c nw u False] show ?thesis by blast
  qed
qed

lemma copy_at_copied:
  assumes d: "covers d D n" "cap_addr d + t = word_of_nat (D + u)"
    and s: "covers s S n" "cap_addr s + t = word_of_nat (S + u)"
    and u: "unit_ok D S n R u w" and c: "copied D S n m0 R m"
  shows "\<exists>m'. copy_at w d s t m = Inr m' \<and> copied D S n m0 (R \<union> {u..<u + w}) m'"
  using copy_unit_copied [of "d\<lparr>cap_offset := cap_offset d + t\<rparr>" D n u "s\<lparr>cap_offset := cap_offset s + t\<rparr>" S R w m0 m]
    assms by (simp add: copy_at_def increment_usable covers_usable)

lemma of_nat_eq_small:
  "x < 2 ^ 64 \<Longrightarrow> y < 2 ^ 64 \<Longrightarrow> (word_of_nat x :: u64) = word_of_nat y \<longleftrightarrow> x = y"
  by (metis unat_small)

lemma forward_loop:
  assumes d: "covers d D n" "cap_addr d = word_of_nat (D + E)"
    and s: "covers s S n" "cap_addr s = word_of_nat (S + E)"
    and w: "0 < w" and E: "E \<le> n"
  shows "0 < k \<Longrightarrow> u + k * w = E \<Longrightarrow>
    (\<And>j. j < k \<Longrightarrow> unit_ok D S n (R \<union> {u..<u + j * w}) (u + j * w) w) \<Longrightarrow>
    copied D S n m0 R m \<Longrightarrow>
    \<exists>m'. do_loop (copy_at w d s) (of_nat w) (- of_nat w) (- of_nat (k * w) - of_nat w) m = Some (Inr m')
      \<and> copied D S n m0 (R \<union> {u..<E}) m'"
proof (induction k arbitrary: u R m)
  case 0
  then show ?case by simp
next
  case (Suc k)
  let ?t = "- of_nat (Suc k * w) :: u64"
  have addr: "word_of_nat (X + E) + ?t = word_of_nat (X + u)" for X
    using Suc.prems(2) by (simp add: algebra_simps flip: Suc.prems(2))
  have "unit_ok D S n R u w" using Suc.prems(3) [of 0] by simp
  then obtain m1 where m1: "copy_at w d s ?t m = Inr m1" "copied D S n m0 (R \<union> {u..<u + w}) m1"
    using copy_at_copied [OF d(1) _ s(1) _ _ Suc.prems(4), of ?t u w] d(2) s(2) addr by auto
  have lt: "Suc k * w < 2 ^ 64" using Suc.prems(2) E covers_no_wrap [OF d(1)] by linarith
  have idx: "- of_nat (Suc k * w) - of_nat w + of_nat w = ?t" by simp
  show ?case
  proof (cases "k = 0")
    case True
    then show ?thesis
      using m1 Suc.prems(2) by (subst do_loop.simps) (simp add: idx)
  next
    case False
    have "?t \<noteq> - of_nat w"
    proof
      assume "?t = - of_nat w"
      then have "(word_of_nat (Suc k * w) :: u64) = word_of_nat w" by simp
      moreover have "w < 2 ^ 64" using lt by simp
      ultimately show False using lt False w of_nat_eq_small [of "Suc k * w" w] by simp
    qed
    then have "do_loop (copy_at w d s) (of_nat w) (- of_nat w) (- of_nat (Suc k * w) - of_nat w) m
        = do_loop (copy_at w d s) (of_nat w) (- of_nat w) ?t m1"
      using m1(1) by (subst do_loop.simps) (simp only: idx sum.case if_True simp_thms)
    moreover have tk: "?t = - of_nat (k * w) - of_nat w" by simp
    ultimately have eq: "do_loop (copy_at w d s) (of_nat w) (- of_nat w) (- of_nat (Suc k * w) - of_nat w) m
        = do_loop (copy_at w d s) (of_nat w) (- of_nat w) (- of_nat (k * w) - of_nat w) m1"
      by (simp only: tk)
    have "unit_ok D S n ((R \<union> {u..<u + w}) \<union> {u + w..<u + w + j * w}) (u + w + j * w) w" if "j < k" for j
    proof -
      have "{u..<u + w} \<union> {u + w..<u + w + j * w} = {u..<u + Suc j * w}" by auto
      then show ?thesis using Suc.prems(3) [of "Suc j"] that by (simp add: Un_assoc add.assoc)
    qed
    moreover have "u + w + k * w = E" using Suc.prems(2) by simp
    ultimately obtain m2 where
      "do_loop (copy_at w d s) (of_nat w) (- of_nat w) (- of_nat (k * w) - of_nat w) m1 = Some (Inr m2)"
      "copied D S n m0 ((R \<union> {u..<u + w}) \<union> {u + w..<E}) m2"
      using Suc.IH [of "u + w" "R \<union> {u..<u + w}" m1] False m1(2) by auto
    moreover have "{u..<u + w} \<union> {u + w..<E} = {u..<E}" using Suc.prems(2) by auto
    ultimately show ?thesis unfolding eq by (auto simp: Un_assoc)
  qed
qed

lemma backward_loop:
  assumes d: "covers d D n" "cap_addr d = word_of_nat (D + b)"
    and s: "covers s S n" "cap_addr s = word_of_nat (S + b)"
    and w: "0 < w"
  shows "0 < k \<Longrightarrow> b + k * w \<le> n \<Longrightarrow>
    (\<And>j. j < k \<Longrightarrow> unit_ok D S n (R \<union> {b + Suc j * w..<b + k * w}) (b + j * w) w) \<Longrightarrow>
    copied D S n m0 R m \<Longrightarrow>
    \<exists>m'. do_loop (copy_at w d s) (- of_nat w) 0 (of_nat (k * w)) m = Some (Inr m')
      \<and> copied D S n m0 (R \<union> {b..<b + k * w}) m'"
proof (induction k arbitrary: R m)
  case 0
  then show ?case by simp
next
  case (Suc k)
  let ?t = "of_nat (k * w) :: u64"
  have idx: "of_nat (Suc k * w) + - of_nat w = ?t" by simp
  have addr: "word_of_nat (X + b) + ?t = word_of_nat (X + (b + k * w))" for X
    by (simp add: algebra_simps)
  have "unit_ok D S n R (b + k * w) w" using Suc.prems(3) [of k] by simp
  then obtain m1 where m1: "copy_at w d s ?t m = Inr m1"
    "copied D S n m0 (R \<union> {b + k * w..<b + k * w + w}) m1"
    using copy_at_copied [OF d(1) _ s(1) _ _ Suc.prems(4), of ?t "b + k * w" w] d(2) s(2) addr by auto
  show ?case
  proof (cases "k = 0")
    case True
    then show ?thesis
      using m1 by (subst do_loop.simps) (simp only: idx, simp)
  next
    case False
    have "k * w < 2 ^ 64" using Suc.prems(2) covers_no_wrap [OF d(1)] by simp
    then have "?t \<noteq> 0" using False w of_nat_eq_small [of "k * w" 0] by simp
    then have eq: "do_loop (copy_at w d s) (- of_nat w) 0 (of_nat (Suc k * w)) m
        = do_loop (copy_at w d s) (- of_nat w) 0 ?t m1"
      using m1(1) by (subst do_loop.simps) (simp only: idx sum.case if_True simp_thms)
    let ?R = "R \<union> {b + k * w..<b + k * w + w}"
    have "unit_ok D S n (?R \<union> {b + Suc j * w..<b + k * w}) (b + j * w) w" if "j < k" for j
    proof -
      have "Suc j * w \<le> k * w" using that by (intro mult_le_mono1) simp
      then have "{b + k * w..<b + k * w + w} \<union> {b + Suc j * w..<b + k * w} = {b + Suc j * w..<b + Suc k * w}"
        by auto
      then show ?thesis using Suc.prems(3) [of j] that by (simp add: Un_assoc)
    qed
    then obtain m2 where "do_loop (copy_at w d s) (- of_nat w) 0 (of_nat (k * w)) m1 = Some (Inr m2)"
      "copied D S n m0 (?R \<union> {b..<b + k * w}) m2"
      using Suc.IH [of ?R m1] False m1(2) Suc.prems(2) by auto
    moreover have "{b + k * w..<b + k * w + w} \<union> {b..<b + k * w} = {b..<b + Suc k * w}" by auto
    ultimately show ?thesis unfolding eq by (auto simp: Un_assoc)
  qed
qed

section \<open>Low bits\<close>

lemma low_bits:
  "unat (x AND 7) = unat (x :: u64) mod 8" "unat (x AND 31) = unat x mod 32"
proof -
  have "x AND 7 = take_bit 3 x" "x AND 31 = take_bit 5 x"
    by (simp_all add: take_bit_eq_mask mask_eq_exp_minus_1)
  then show "unat (x AND 7) = unat x mod 8" "unat (x AND 31) = unat x mod 32"
    by (simp_all add: take_bit_eq_mod unat_mod)
qed

lemma low_or:
  "(x OR y) AND 7 \<noteq> (0 :: u64) \<longleftrightarrow> unat x mod 8 \<noteq> 0 \<or> unat y mod 8 \<noteq> 0"
  "(x OR y) AND 31 \<noteq> (0 :: u64) \<longleftrightarrow> unat x mod 32 \<noteq> 0 \<or> unat y mod 32 \<noteq> 0"
  unfolding low_bits [symmetric]
  by (simp_all add: bit.conj_disj_distrib2 or_eq_0_iff unat_eq_0 del: low_bits)

lemma xor_eq_0: "x XOR y = 0 \<longleftrightarrow> x = (y :: u64)"
proof
  assume "x XOR y = 0"
  then have "(x XOR y) XOR y = 0 XOR y" by (rule arg_cong)
  then show "x = y" by (simp add: xor.assoc)
qed simp

lemma low_xor:
  "(x XOR y) AND 7 \<noteq> (0 :: u64) \<longleftrightarrow> unat x mod 8 \<noteq> unat y mod 8"
  "(x XOR y) AND 31 \<noteq> (0 :: u64) \<longleftrightarrow> unat x mod 32 \<noteq> unat y mod 32"
  unfolding low_bits [symmetric]
  by (simp_all add: bit.conj_xor_distrib2 xor_eq_0 word_unat_eq_iff [symmetric])

section \<open>Copying forward\<close>

definition fwd_at :: "nat \<Rightarrow> nat \<Rightarrow> nat \<Rightarrow> memory \<Rightarrow> nat \<Rightarrow> copy_state \<Rightarrow> bool" where
  "fwd_at D S n m0 u st \<longleftrightarrow> u \<le> n \<and> covers (dst st) D n \<and> covers (src st) S n \<and>
     cap_addr (dst st) = word_of_nat (D + u) \<and> cap_addr (src st) = word_of_nat (S + u) \<and>
     copied D S n m0 {..<u} (mem st)"

lemma fwd_block:
  assumes at: "fwd_at D S n m0 u st" and k: "0 < k" "0 < w" "u + k * w \<le> n"
    and ok: "\<And>j. j < k \<Longrightarrow> unit_ok D S n {..<u + j * w} (u + j * w) w"
  shows "\<exists>st'. forward_block w (of_nat (k * w)) st = Some (Inr st') \<and>
     fwd_at D S n m0 (u + k * w) st' \<and> len st' = len st"
proof -
  let ?t = "of_nat (k * w) :: u64"
  let ?d = "dst st\<lparr>cap_offset := cap_offset (dst st) + ?t\<rparr>"
  let ?s = "src st\<lparr>cap_offset := cap_offset (src st) + ?t\<rparr>"
  from at have at': "covers (dst st) D n" "covers (src st) S n"
    "cap_addr (dst st) = word_of_nat (D + u)" "cap_addr (src st) = word_of_nat (S + u)"
    "copied D S n m0 {..<u} (mem st)" by (simp_all add: fwd_at_def)
  have d: "covers ?d D n" "cap_addr ?d = word_of_nat (D + (u + k * w))"
    and s: "covers ?s S n" "cap_addr ?s = word_of_nat (S + (u + k * w))"
    using at' by (simp_all add: add.assoc)
  have "{..<u} \<union> {u..<u + j * w} = {..<u + j * w}" for j by auto
  then obtain m' where m': "do_loop (copy_at w ?d ?s) (of_nat w) (- of_nat w) (- ?t - of_nat w) (mem st) = Some (Inr m')"
    "copied D S n m0 ({..<u} \<union> {u..<u + k * w}) m'"
    using forward_loop [OF d s k(2) k(3) k(1) refl _ at'(5)] ok by auto
  have mv: "move ?t st = Some (Inr (st\<lparr>dst := ?d, src := ?s\<rparr>))"
    using at'(1,2) by (simp add: move_def increment_usable covers_usable)
  let ?st = "st\<lparr>dst := ?d, src := ?s, mem := m'\<rparr>"
  have "forward_block w ?t st = Some (Inr ?st)"
    using m'(1) by (simp add: forward_block_def andthen_def mv loop_def MIPSLOOP_def del: of_nat_mult)
  moreover have "{..<u} \<union> {u..<u + k * w} = {..<u + k * w}" by auto
  then have "fwd_at D S n m0 (u + k * w) ?st"
    using d s m'(2) k(3) by (simp add: fwd_at_def del: of_nat_mult of_nat_add)
  ultimately show ?thesis by auto
qed

text \<open>Copying forward is safe when the destination starts below the source or behind its end.\<close>

definition fwd_safe :: "nat \<Rightarrow> nat \<Rightarrow> nat \<Rightarrow> bool" where
  "fwd_safe D S n \<longleftrightarrow> D \<le> S \<or> S + n \<le> D"

lemma fwd_unit_data:
  assumes "fwd_safe D S n" and "u + w \<le> n" and "0 < w" and "w \<noteq> 32"
    and "(D + u) mod w = 0" and "(S + u) mod w = 0"
    and "\<And>x. D mod 32 = S mod 32 \<Longrightarrow> D + u \<le> x \<Longrightarrow> x < D + u + w \<Longrightarrow> \<not> full D n (x div 32)"
  shows "unit_ok D S n {..<u} u w"
proof -
  have "D + r \<noteq> S + u + i" if "i < w" "r < u" for i r
    using that assms(1,2) by (auto simp: fwd_safe_def)
  then show ?thesis using assms by (auto simp: unit_ok_def)
qed

lemma aligned_div_less:
  assumes "a < b" and "b mod 32 = 0"
  shows "a div 32 < b div (32::nat)"
proof -
  obtain q where "b = 32 * q" using assms(2) by auto
  with assms(1) show ?thesis by (auto simp: less_mult_imp_div_less mult.commute)
qed

lemma fwd_unit_ptr:
  assumes "fwd_safe D S n" and "u + 32 \<le> n" and "(D + u) mod 32 = 0" and "(S + u) mod 32 = 0"
  shows "unit_ok D S n {..<u} u 32"
proof -
  have "(D + r) div 32 \<noteq> (S + u) div 32" if r: "r < u" for r
  proof (cases "D \<le> S")
    case True
    have "(D + r) div 32 < (D + u) div 32"
      using r assms(3) by (intro aligned_div_less) auto
    also have "\<dots> \<le> (S + u) div 32" using True by (simp add: div_le_mono)
    finally show ?thesis by simp
  next
    case False
    then have "S + u + 32 \<le> D + r" using assms(1,2) by (simp add: fwd_safe_def)
    then have "(S + u + 32) div 32 \<le> (D + r) div 32" by (rule div_le_mono)
    then show ?thesis by simp
  qed
  then show ?thesis using assms by (simp add: unit_ok_def)
qed

lemma mod32_mod8: "D mod 32 = S mod (32::nat) \<Longrightarrow> D mod 8 = S mod 8"
proof -
  assume "D mod 32 = S mod 32"
  then have "D mod 32 mod 8 = S mod 32 mod 8" by simp
  then show ?thesis by (simp add: mod_mod_cancel)
qed

text \<open>After the first step the pointers are aligned to words, less than a word further on.\<close>

definition at_word :: "nat \<Rightarrow> nat \<Rightarrow> nat \<Rightarrow> bool" where
  "at_word D S u \<longleftrightarrow> u < 8 \<and> (D + u) mod 8 = 0 \<and> (S + u) mod 8 = 0"

lemma full_behind_word:
  assumes "at_word D S u" and "full D n g"
  shows "D + u \<le> 32 * g"
proof -
  from assms(1) obtain q where q: "D + u = 8 * q" by (auto simp: at_word_def)
  from assms have "8 * q < 32 * g + 8" by (simp add: at_word_def full_def flip: q)
  then have "q < 4 * g + 1" by simp
  then show ?thesis using q by simp
qed

lemma fwd_at_addrs:
  assumes "fwd_at D S n m0 u st"
  shows "u < n \<Longrightarrow> unat (cap_addr (dst st)) = D + u" "u < n \<Longrightarrow> unat (cap_addr (src st)) = S + u"
  using assms covers_addr [of "dst st" D n u 1] covers_addr [of "src st" S n u 1]
  by (simp_all add: fwd_at_def)

lemma fwd_at_len [simp]: "fwd_at D S n m0 u (st\<lparr>len := v\<rparr>) = fwd_at D S n m0 u st"
  by (simp add: fwd_at_def)

text \<open>The state between the steps: \<open>u\<close> bytes are copied, the rest is still to do.\<close>

definition fwd_inv :: "nat \<Rightarrow> nat \<Rightarrow> nat \<Rightarrow> memory \<Rightarrow> nat \<Rightarrow> copy_state \<Rightarrow> bool" where
  "fwd_inv D S n m0 u st \<longleftrightarrow> fwd_at D S n m0 u st \<and> len st = of_nat (n - u)"

lemma fwd_bytes:
  assumes at: "fwd_at D S n m0 u st" and safe: "fwd_safe D S n"
    and k: "0 < k" "u + k \<le> n"
    and nofull: "\<And>x. D mod 32 = S mod 32 \<Longrightarrow> D + u \<le> x \<Longrightarrow> x < D + u + k \<Longrightarrow> \<not> full D n (x div 32)"
  shows "\<exists>st'. forward_block 1 (of_nat k) st = Some (Inr st') \<and>
     fwd_at D S n m0 (u + k) st' \<and> len st' = len st"
  using fwd_block [OF at k(1), of 1] fwd_unit_data [OF safe, of "u + _" 1] k nofull by simp

lemma fwd_words:
  assumes at: "fwd_at D S n m0 u st" and safe: "fwd_safe D S n"
    and k: "0 < k" "u + k * 8 \<le> n" and al: "(D + u) mod 8 = 0" "(S + u) mod 8 = 0"
    and nofull: "\<And>x. D mod 32 = S mod 32 \<Longrightarrow> D + u \<le> x \<Longrightarrow> x < D + u + k * 8 \<Longrightarrow> \<not> full D n (x div 32)"
  shows "\<exists>st'. forward_block 8 (of_nat (k * 8)) st = Some (Inr st') \<and>
     fwd_at D S n m0 (u + k * 8) st' \<and> len st' = len st"
proof (rule fwd_block [OF at k(1) _ k(2)])
  fix j assume "j < k"
  then have "j * 8 + 8 \<le> k * 8" by simp
  with al nofull k show "unit_ok D S n {..<u + j * 8} (u + j * 8) 8"
    by (intro fwd_unit_data [OF safe]) (simp_all add: add.assoc [symmetric])
qed simp

lemma fwd_ptrs:
  assumes at: "fwd_at D S n m0 u st" and safe: "fwd_safe D S n"
    and k: "0 < k" "u + k * 32 \<le> n" and al: "(D + u) mod 32 = 0" "(S + u) mod 32 = 0"
  shows "\<exists>st'. forward_block 32 (of_nat (k * 32)) st = Some (Inr st') \<and>
     fwd_at D S n m0 (u + k * 32) st' \<and> len st' = len st"
proof (rule fwd_block [OF at k(1) _ k(2)])
  fix j assume "j < k"
  then have "j * 32 + 32 \<le> k * 32" by simp
  with al k show "unit_ok D S n {..<u + j * 32} (u + j * 32) 32"
    by (intro fwd_unit_ptr [OF safe]) (simp_all add: add.assoc [symmetric])
qed simp

lemma forward_align_word_step:
  assumes inv: "fwd_inv D S n m0 0 st" and safe: "fwd_safe D S n" and n: "0 < n"
  shows "\<exists>u st'. forward_align_word st = Some (Inr st') \<and> fwd_inv D S n m0 u st' \<and>
     (u = n \<or> at_word D S u)"
proof -
  have at: "fwd_at D S n m0 0 st" and len: "len st = of_nat n" using inv by (simp_all add: fwd_inv_def)
  have ad: "unat (cap_addr (dst st)) = D" "unat (cap_addr (src st)) = S"
    using fwd_at_addrs [OF at] n by simp_all
  have n64: "n < 2 ^ 64" using at covers_no_wrap [of "dst st" D n] by (simp add: fwd_at_def)
  have ul: "unat (len st) = n" using n64 by (simp add: len unat_small)
  show ?thesis
  proof (cases "D mod 8 = 0 \<and> S mod 8 = 0")
    case True
    then have "forward_align_word st = Some (Inr st)"
      using low_or(1) [of "cap_addr (src st)" "cap_addr (dst st)"]
      by (simp add: forward_align_word_def Let_def ad)
    with inv True show ?thesis by (auto simp: at_word_def)
  next
    case unaligned: False
    define t where "t = (if S mod 8 \<noteq> D mod 8 \<or> n < 8 then n else 8 - S mod 8)"
    have t: "0 < t" "t \<le> n" using n by (auto simp: t_def)
    have tw: "(if (cap_addr (src st) XOR cap_addr (dst st)) AND 7 \<noteq> 0 \<or> len st < 8 then len st
        else 8 - (cap_addr (src st) AND 7)) = of_nat t"
    proof -
      have "len st < 8 \<longleftrightarrow> n < 8" by (simp add: word_less_nat_alt ul)
      moreover have "8 - (cap_addr (src st) AND 7) = of_nat (8 - S mod 8)"
      proof -
        have "cap_addr (src st) AND 7 = of_nat (S mod 8)"
          by (rule word_unat_eq_iff [THEN iffD2]) (simp add: low_bits(1) ad unat_small)
        then show ?thesis by (simp add: of_nat_diff)
      qed
      ultimately show ?thesis
        by (simp add: low_xor(1) ad t_def len)
    qed
    have nofull: "\<not> full D n (x div 32)"
      if cong: "D mod 32 = S mod 32" and x: "D + 0 \<le> x" "x < D + 0 + t" for x
    proof (cases "n < 8")
      case True
      then show ?thesis by (simp add: full_def)
    next
      case False
      have c8: "S mod 8 = D mod 8"
        by (rule mod32_mod8 [OF cong, symmetric])
      then have "t = 8 - D mod 8" "D mod 8 \<noteq> 0" using False unaligned by (auto simp: t_def)
      then have "x < D - D mod 8 + 8" "D mod 8 \<noteq> 0" using x by auto
      moreover have "D - D mod 8 = 8 * (D div 8)" by (simp add: minus_mod_eq_mult_div)
      ultimately have "x < 8 * (D div 8) + 8" "8 * (D div 8) < D"
        using \<open>D mod 8 \<noteq> 0\<close> mult_div_mod_eq [of 8 D] by linarith+
      have "\<not> D \<le> 32 * (x div 32)"
      proof
        assume "D \<le> 32 * (x div 32)"
        then have "8 * (D div 8) < 8 * (4 * (x div 32))" using \<open>8 * (D div 8) < D\<close> by linarith
        then have "D div 8 + 1 \<le> 4 * (x div 32)" by simp
        then have "8 * (D div 8) + 8 \<le> 32 * (x div 32)" by simp
        also have "\<dots> \<le> x" by simp
        finally show False using \<open>x < 8 * (D div 8) + 8\<close> by simp
      qed
      then show ?thesis by (simp add: full_def)
    qed
    obtain st' where st': "forward_block 1 (of_nat t) (st\<lparr>len := len st - of_nat t\<rparr>) = Some (Inr st')"
      "fwd_at D S n m0 t st'" "len st' = len st - of_nat t"
      using fwd_bytes [of D S n m0 0 "st\<lparr>len := len st - of_nat t\<rparr>" t] at safe t nofull by auto
    have cond: "(cap_addr (src st) OR cap_addr (dst st)) AND 7 \<noteq> 0"
      using unaligned unfolding low_or(1) ad by linarith
    have "forward_align_word st = Some (Inr st')"
      unfolding forward_align_word_def Let_def if_P [OF cond] tw by (rule st'(1))
    moreover have "len st' = of_nat (n - t)" using st'(3) t by (simp add: len of_nat_diff)
    moreover have "t = n \<or> at_word D S t"
    proof (cases "S mod 8 \<noteq> D mod 8 \<or> n < 8")
      case False
      then have "t = 8 - D mod 8" "t = 8 - S mod 8" "D mod 8 \<noteq> 0" using unaligned by (auto simp: t_def)
      then have "t < 8" "(D + t) mod 8 = 0" "(S + t) mod 8 = 0" by presburger+
      then show ?thesis by (simp add: at_word_def)
    qed (simp add: t_def)
    ultimately show ?thesis using st'(2) by (auto simp: fwd_inv_def)
  qed
qed

text \<open>From here on nothing left to copy as data belongs to a whole granule.\<close>

definition no_full :: "nat \<Rightarrow> nat \<Rightarrow> nat \<Rightarrow> nat \<Rightarrow> nat \<Rightarrow> bool" where
  "no_full D S n lo hi \<longleftrightarrow>
     (D mod 32 = S mod 32 \<longrightarrow> (\<forall>x. D + lo \<le> x \<longrightarrow> x < D + hi \<longrightarrow> \<not> full D n (x div 32)))"

lemma no_full_mono: "no_full D S n lo hi \<Longrightarrow> lo \<le> lo' \<Longrightarrow> hi' \<le> hi \<Longrightarrow> no_full D S n lo' hi'"
  unfolding no_full_def by (meson le_trans less_le_trans add_le_mono1 add_left_mono)

lemma no_full_short:
  assumes "at_word D S u" and "n - u < 32"
  shows "no_full D S n u n"
proof -
  have "\<not> full D n g" for g
  proof
    assume f: "full D n g"
    with full_behind_word [OF assms(1) f] assms(2) show False by (simp add: full_def)
  qed
  then show ?thesis by (simp add: no_full_def)
qed

lemma no_full_block:
  assumes "at_word D S u" and "(D + u) mod 32 \<noteq> 0" and "k \<le> 32 - (D + u) mod 32"
  shows "no_full D S n u (u + k)"
proof -
  let ?b = "(D + u) div 32"
  have b: "D + u = 32 * ?b + (D + u) mod 32" by simp
  have "\<not> full D n (x div 32)" if "D + u \<le> x" "x < D + (u + k)" for x
  proof
    assume f: "full D n (x div 32)"
    have "x < 32 * ?b + 32" using that(2) assms(3) b by linarith
    then have "x div 32 < ?b + 1" by (simp add: less_mult_imp_div_less mult.commute)
    then have "32 * (x div 32) \<le> 32 * ?b" by simp
    also have "\<dots> < D + u" using b assms(2) by linarith
    finally show False using full_behind_word [OF assms(1) f] by simp
  qed
  then show ?thesis by (simp add: no_full_def)
qed

lemma no_full_tail:
  assumes "(D + u) mod 32 = 0" and "n - u < 32"
  shows "no_full D S n u n"
proof -
  obtain q where q: "D + u = 32 * q" using assms(1) by auto
  have "\<not> full D n (x div 32)" if "D + u \<le> x" for x
  proof
    assume "full D n (x div 32)"
    moreover have "q \<le> x div 32" using div_le_mono [OF that, of 32] q by simp
    ultimately show False using assms(2) q by (simp add: full_def)
  qed
  then show ?thesis by (simp add: no_full_def)
qed

text \<open>
  After the second step either both pointers are aligned to capabilities, or less than a word is
  left and none of it belongs to a whole granule.
\<close>

definition at_ptr :: "nat \<Rightarrow> nat \<Rightarrow> nat \<Rightarrow> nat \<Rightarrow> bool" where
  "at_ptr D S n u \<longleftrightarrow> ((D + u) mod 32 = 0 \<and> (S + u) mod 32 = 0) \<or> (n - u < 8 \<and> no_full D S n u n)"

lemma fwd_inv_len:
  assumes "fwd_inv D S n m0 u st"
  shows "unat (len st) = n - u" and "u \<le> n" and "n < 2 ^ 64"
proof -
  show n: "n < 2 ^ 64" "u \<le> n"
    using assms covers_no_wrap [of "dst st" D n] by (simp_all add: fwd_inv_def fwd_at_def)
  then show "unat (len st) = n - u" using assms by (simp add: fwd_inv_def unat_small del: of_nat_diff)
qed

lemma word_div_of_nat: "x < 2 ^ 64 \<Longrightarrow> k < 2 ^ 64 \<Longrightarrow> (of_nat x :: u64) div of_nat k = of_nat (x div k)"
  by (rule word_unat_eq_iff [THEN iffD2]) (simp add: unat_div unat_small div_le_dividend [THEN le_less_trans])

lemma mod_fill: "(a + (32 - a mod 32)) mod 32 = (0::nat)"
proof -
  have "a + (32 - a mod 32) = 32 * (a div 32) + 32"
    using mult_div_mod_eq [of 32 a] mod_less_divisor [of 32 a] by linarith
  then show ?thesis by simp
qed

lemma forward_align_ptr_step:
  assumes inv: "fwd_inv D S n m0 u st" and safe: "fwd_safe D S n" and u: "u = n \<or> at_word D S u"
  shows "\<exists>v st'. forward_align_ptr st = Some (Inr st') \<and> fwd_inv D S n m0 v st' \<and> at_ptr D S n v"
proof -
  have at: "fwd_at D S n m0 u st" and len: "len st = of_nat (n - u)" using inv by (simp_all add: fwd_inv_def)
  note ln = fwd_inv_len [OF inv]
  show ?thesis
  proof (cases "u = n")
    case True
    then have "len st = 0" using len by simp
    then have "forward_align_ptr st = Some (Inr st)" by (simp add: forward_align_ptr_def Let_def)
    moreover have "at_ptr D S n u" using True by (simp add: at_ptr_def no_full_def)
    ultimately show ?thesis using inv by blast
  next
    case False
    then have un: "u < n" and w: "at_word D S u" using ln(2) u by auto
    note ad = fwd_at_addrs [OF at un]
    show ?thesis
    proof (cases "(D + u) mod 32 = 0 \<and> (S + u) mod 32 = 0")
      case True
      then have "\<not> (cap_addr (src st) OR cap_addr (dst st)) AND 31 \<noteq> 0"
        by (simp only: low_or(2) ad) simp
      then have "forward_align_ptr st = Some (Inr st)"
        unfolding forward_align_ptr_def Let_def by (simp only: if_False)
      with inv True show ?thesis by (auto simp: at_ptr_def)
    next
      case unaligned: False
      have cond: "(cap_addr (src st) OR cap_addr (dst st)) AND 31 \<noteq> 0"
        using unaligned unfolding low_or(2) ad by linarith
      define short where "short \<longleftrightarrow> (S + u) mod 32 \<noteq> (D + u) mod 32 \<or> n - u < 32"
      define k where "k = (if short then (n - u) div 8 else (32 - (S + u) mod 32) div 8)"
      have kw: "(if (cap_addr (src st) XOR cap_addr (dst st)) AND 31 \<noteq> 0 \<or> len st < 32 then len st div 8
          else (32 - (cap_addr (src st) AND 31)) div 8) = of_nat k"
      proof -
        have "len st < 32 \<longleftrightarrow> n - u < 32" by (simp add: word_less_nat_alt ln(1))
        moreover have "len st div 8 = of_nat ((n - u) div 8)"
          using word_div_of_nat [of "n - u" 8] ln(3) len by simp
        moreover have "(32 - (cap_addr (src st) AND 31)) div 8 = of_nat ((32 - (S + u) mod 32) div 8)"
        proof -
          have "cap_addr (src st) AND 31 = of_nat ((S + u) mod 32)"
            by (rule word_unat_eq_iff [THEN iffD2]) (simp add: low_bits(2) ad unat_small del: of_nat_add)
          then have "32 - (cap_addr (src st) AND 31) = of_nat (32 - (S + u) mod 32)"
            by (simp add: of_nat_diff)
          then show ?thesis using word_div_of_nat [of "32 - (S + u) mod 32" 8] by simp
        qed
        ultimately show ?thesis
          by (simp only: low_xor(2) ad k_def short_def) simp
      qed
      have k8: "u + k * 8 \<le> n" "k * 8 \<le> n - u"
      proof -
        have "k * 8 \<le> n - u"
        proof (cases short)
          case False
          then have "32 \<le> n - u" by (simp add: short_def)
          moreover have "k * 8 \<le> 32" by (simp add: k_def False)
          ultimately show ?thesis by simp
        qed (simp add: k_def)
        then show "u + k * 8 \<le> n" "k * 8 \<le> n - u" using ln(2) by linarith+
      qed
      have nofull: "no_full D S n u (u + k * 8)"
      proof (cases short)
        case True
        show ?thesis
        proof (cases "n - u < 32")
          case True
          then show ?thesis using no_full_mono [OF no_full_short [OF w] order_refl k8(1)] by blast
        next
          case False
          with True have "(S + u) mod 32 \<noteq> (D + u) mod 32" by (simp add: short_def)
          then have "D mod 32 \<noteq> S mod 32" by (metis mod_add_cong)
          then show ?thesis by (simp add: no_full_def)
        qed
      next
        case False
        then have "(D + u) mod 32 = (S + u) mod 32" "(D + u) mod 32 \<noteq> 0"
          using unaligned by (auto simp: short_def)
        then show ?thesis using False by (intro no_full_block [OF w]) (simp_all add: k_def)
      qed
      have at': "at_ptr D S n (u + k * 8)"
      proof (cases short)
        case True
        then have lt: "n - (u + k * 8) < 8" by (simp add: k_def)
        moreover have "no_full D S n (u + k * 8) n"
        proof (cases "n - u < 32")
          case True
          then show ?thesis using no_full_mono [OF no_full_short [OF w], of n "u + k * 8" n] by simp
        next
          case False
          with True have "(S + u) mod 32 \<noteq> (D + u) mod 32" by (simp add: short_def)
          then have "D mod 32 \<noteq> S mod 32" by (metis mod_add_cong)
          then show ?thesis by (simp add: no_full_def)
        qed
        ultimately show ?thesis by (simp add: at_ptr_def)
      next
        case False
        then have s: "(D + u) mod 32 = (S + u) mod 32" by (simp add: short_def)
        have "(S + u) mod 8 = 0" using w by (simp add: at_word_def)
        then have "(S + u) mod 32 mod 8 = 0" by (simp add: mod_mod_cancel)
        then obtain q where "(S + u) mod 32 = 8 * q" by (metis mod_0_imp_dvd dvdE)
        then have "k * 8 = 32 - (S + u) mod 32"
          using False by (simp add: k_def)
        moreover have "D + (u + k * 8) = D + u + k * 8" "S + (u + k * 8) = S + u + k * 8" by simp_all
        ultimately have "(D + (u + k * 8)) mod 32 = 0" "(S + (u + k * 8)) mod 32 = 0"
          using mod_fill [of "D + u"] mod_fill [of "S + u"] s by (simp_all only:)
        then show ?thesis by (simp add: at_ptr_def)
      qed
      show ?thesis
      proof (cases "k = 0")
        case True
        then have "forward_align_ptr st = Some (Inr st)"
          unfolding forward_align_ptr_def Let_def if_P [OF cond] kw by simp
        with inv at' True show ?thesis by auto
      next
        case False
        have "k < 2 ^ 64" using k8(2) ln(3) by linarith
        then have ne: "(of_nat k :: u64) \<noteq> 0" using False of_nat_eq_small [of k 0] by simp
        let ?st = "st\<lparr>len := len st - of_nat k * 8\<rparr>"
        obtain st' where st': "forward_block 8 (of_nat (k * 8)) ?st = Some (Inr st')"
          "fwd_at D S n m0 (u + k * 8) st'" "len st' = len ?st"
          using fwd_words [of D S n m0 u ?st k] at safe False k8 w nofull
          by (auto simp: at_word_def no_full_def add.assoc)
        have "forward_align_ptr st = Some (Inr st')"
          unfolding forward_align_ptr_def Let_def if_P [OF cond] kw if_P [OF ne]
          using st'(1) by simp
        moreover have "len st' = of_nat (n - (u + k * 8))"
          using st'(3) k8 by (simp add: len of_nat_diff)
        ultimately show ?thesis using st'(2) at' by (auto simp: fwd_inv_def)
      qed
    qed
  qed
qed

lemma forward_ptrs_step:
  assumes inv: "fwd_inv D S n m0 u st" and safe: "fwd_safe D S n" and u: "at_ptr D S n u"
  shows "\<exists>v st'. forward_ptrs st = Some (Inr st') \<and> fwd_at D S n m0 v st' \<and>
     unat (len st') mod 32 = n - v \<and> no_full D S n v n"
proof -
  have at: "fwd_at D S n m0 u st" and len: "len st = of_nat (n - u)" using inv by (simp_all add: fwd_inv_def)
  note ln = fwd_inv_len [OF inv]
  define k where "k = (n - u) div 32"
  have t: "len st div 32 = of_nat k"
    using word_div_of_nat [of "n - u" 32] ln(3) len by (simp add: k_def)
  have md: "(n - u) mod 32 = n - (u + k * 32)"
    using minus_div_mult_eq_mod [of "n - u" 32] by (simp add: k_def)
  show ?thesis
  proof (cases "k = 0")
    case True
    then have "forward_ptrs st = Some (Inr st)" by (simp add: forward_ptrs_def Let_def t)
    moreover have "no_full D S n u n"
    proof (cases "n - u < 8 \<and> no_full D S n u n")
      case False
      then have "(D + u) mod 32 = 0" using u by (auto simp: at_ptr_def)
      moreover have "n - u < 32" using True by (simp add: k_def div_eq_0_iff)
      ultimately show ?thesis by (rule no_full_tail)
    qed blast
    ultimately show ?thesis using at md True by (auto simp: ln(1))
  next
    case False
    then have "32 \<le> n - u" by (simp add: k_def div_eq_0_iff not_less)
    then have al: "(D + u) mod 32 = 0" "(S + u) mod 32 = 0" using u by (auto simp: at_ptr_def)
    have k32: "u + k * 32 \<le> n" using ln(2) by (simp add: k_def)
    have "k < 2 ^ 64" using k32 ln(3) by linarith
    then have ne: "(of_nat k :: u64) \<noteq> 0" using False of_nat_eq_small [of k 0] by simp
    obtain st' where st': "forward_block 32 (of_nat (k * 32)) st = Some (Inr st')"
      "fwd_at D S n m0 (u + k * 32) st'" "len st' = len st"
      using fwd_ptrs [OF at safe _ k32 al] False by auto
    have "forward_ptrs st = Some (Inr st')"
      using st'(1) ne by (simp add: forward_ptrs_def Let_def t)
    moreover have "no_full D S n (u + k * 32) n"
    proof (rule no_full_tail)
      show "(D + (u + k * 32)) mod 32 = 0" using al(1) by (simp add: add.assoc [symmetric])
      show "n - (u + k * 32) < 32" unfolding md [symmetric] by simp
    qed
    ultimately show ?thesis using st' md by (auto simp: ln(1))
  qed
qed

lemma forward_tail_step:
  assumes at: "fwd_at D S n m0 u st" and safe: "fwd_safe D S n"
    and len: "unat (len st) mod 32 = n - u" and nofull: "no_full D S n u n"
  shows "\<exists>st'. forward_tail st = Some (Inr st') \<and> fwd_at D S n m0 n st'"
proof -
  have un: "u \<le> n" using at by (simp add: fwd_at_def)
  have lt: "n - u < 32" using len by (metis mod_less_divisor zero_less_numeral)
  then have t: "len st AND 31 = of_nat (n - u)"
    by (intro word_unat_eq_iff [THEN iffD2]) (simp add: low_bits(2) len unat_small del: of_nat_diff)
  show ?thesis
  proof (cases "u = n")
    case True
    then show ?thesis using at t by (simp add: forward_tail_def Let_def)
  next
    case False
    have ne: "len st AND 31 \<noteq> 0"
      unfolding t using of_nat_eq_small [of "n - u" 0] lt False un by (simp del: of_nat_diff)
    obtain st' where "forward_block 1 (of_nat (n - u)) st = Some (Inr st')" "fwd_at D S n m0 (u + (n - u)) st'"
      using fwd_bytes [OF at safe, of "n - u"] False un nofull by (auto simp: no_full_def)
    moreover have "forward_tail st = forward_block 1 (of_nat (n - u)) st"
      using ne by (simp add: forward_tail_def Let_def t del: of_nat_diff)
    ultimately show ?thesis using un by simp
  qed
qed

lemma andthen_Some [simp]: "andthen (Some (Inr st)) f = f st"
  by (simp add: andthen_def)

lemma copy_forward_copied:
  assumes "fwd_inv D S n m0 0 st" and "fwd_safe D S n" and "0 < n"
  shows "\<exists>st'. copy_forward st = Some (Inr st') \<and> copied D S n m0 {..<n} (mem st')"
proof -
  obtain u st1 where 1: "forward_align_word st = Some (Inr st1)" "fwd_inv D S n m0 u st1"
    "u = n \<or> at_word D S u"
    using forward_align_word_step [OF assms] by blast
  obtain v st2 where 2: "forward_align_ptr st1 = Some (Inr st2)" "fwd_inv D S n m0 v st2" "at_ptr D S n v"
    using forward_align_ptr_step [OF 1(2) assms(2) 1(3)] by blast
  obtain w st3 where 3: "forward_ptrs st2 = Some (Inr st3)" "fwd_at D S n m0 w st3"
    "unat (len st3) mod 32 = n - w" "no_full D S n w n"
    using forward_ptrs_step [OF 2(2) assms(2) 2(3)] by blast
  obtain st4 where 4: "forward_tail st3 = Some (Inr st4)" "fwd_at D S n m0 n st4"
    using forward_tail_step [OF 3(2) assms(2) 3(3,4)] by blast
  have "copy_forward st = Some (Inr st4)" by (simp add: copy_forward_def 1(1) 2(1) 3(1) 4(1))
  then show ?thesis using 4(2) by (simp add: fwd_at_def)
qed

end
