(* ===== verification/MemCopyBack.thy ===== *)
theory MemCopyBack
  imports MemCopyCorrect
begin

text \<open>
  The backward direction of the copying routine, and what the routine as a whole does.
\<close>

section \<open>Copying backward\<close>

definition bwd_at :: "nat \<Rightarrow> nat \<Rightarrow> nat \<Rightarrow> memory \<Rightarrow> nat \<Rightarrow> copy_state \<Rightarrow> bool" where
  "bwd_at D S n m0 b st \<longleftrightarrow> b \<le> n \<and> covers (dst st) D n \<and> covers (src st) S n \<and>
     cap_addr (dst st) = word_of_nat (D + b) \<and> cap_addr (src st) = word_of_nat (S + b) \<and>
     copied D S n m0 {b..<n} (mem st)"

lemma bwd_at_len [simp]: "bwd_at D S n m0 b (st\<lparr>len := v\<rparr>) = bwd_at D S n m0 b st"
  by (simp add: bwd_at_def)

lemma bwd_at_addrs:
  assumes "bwd_at D S n m0 b st"
  shows "unat (cap_addr (dst st)) = D + b" "unat (cap_addr (src st)) = S + b" "n < 2 ^ 64" "b \<le> n"
  using assms covers_addr [of "dst st" D n b 0] covers_addr [of "src st" S n b 0]
    covers_no_wrap [of "dst st" D n]
  by (simp_all add: bwd_at_def)

lemma bwd_block:
  assumes at: "bwd_at D S n m0 (c + k * w) st" and k: "0 < k" "0 < w"
    and ok: "\<And>j. j < k \<Longrightarrow> unit_ok D S n {c + Suc j * w..<n} (c + j * w) w"
  shows "\<exists>st'. backward_block w (of_nat (k * w)) st = Some (Inr st') \<and>
     bwd_at D S n m0 c st' \<and> len st' = len st"
proof -
  let ?t = "of_nat (k * w) :: u64"
  let ?d = "dst st\<lparr>cap_offset := cap_offset (dst st) + - ?t\<rparr>"
  let ?s = "src st\<lparr>cap_offset := cap_offset (src st) + - ?t\<rparr>"
  from at have at': "covers (dst st) D n" "covers (src st) S n" "c + k * w \<le> n"
    "cap_addr (dst st) = word_of_nat (D + (c + k * w))" "cap_addr (src st) = word_of_nat (S + (c + k * w))"
    "copied D S n m0 {c + k * w..<n} (mem st)" by (simp_all add: bwd_at_def)
  have d: "covers ?d D n" "cap_addr ?d = word_of_nat (D + c)"
    and s: "covers ?s S n" "cap_addr ?s = word_of_nat (S + c)"
    using at' by (simp_all only: covers_offset cap_addr_move) simp_all
  have un: "{c + k * w..<n} \<union> {c + Suc j * w..<c + k * w} = {c + Suc j * w..<n}" if "j < k" for j
  proof -
    have "Suc j * w \<le> k * w" using that by (intro mult_le_mono1) simp
    then show ?thesis using at'(3) by auto
  qed
  then obtain m' where m': "do_loop (copy_at w ?d ?s) (- of_nat w) 0 ?t (mem st) = Some (Inr m')"
    "copied D S n m0 ({c + k * w..<n} \<union> {c..<c + k * w}) m'"
    using backward_loop [OF d s k(2,1) at'(3) _ at'(6)] ok by auto
  have mv: "move (- ?t) st = Some (Inr (st\<lparr>dst := ?d, src := ?s\<rparr>))"
    using at'(1,2) by (simp add: move_def increment_usable covers_usable)
  let ?st = "st\<lparr>dst := ?d, src := ?s, mem := m'\<rparr>"
  have "backward_block w ?t st = Some (Inr ?st)"
    using m'(1) by (simp add: backward_block_def andthen_def mv loop_def MIPSLOOP_def del: of_nat_mult)
  moreover have "{c + k * w..<n} \<union> {c..<c + k * w} = {c..<n}" using at'(3) by auto
  then have "bwd_at D S n m0 c ?st"
    using d s m'(2) at'(3) by (simp add: bwd_at_def del: of_nat_mult of_nat_add)
  ultimately show ?thesis by auto
qed

text \<open>Copying backward is safe when the source starts below the destination or behind its end.\<close>

definition bwd_safe :: "nat \<Rightarrow> nat \<Rightarrow> nat \<Rightarrow> bool" where
  "bwd_safe D S n \<longleftrightarrow> S \<le> D \<or> D + n \<le> S"

lemma bwd_unit_data:
  assumes "bwd_safe D S n" and "u + w \<le> n" and "0 < w" and "w \<noteq> 32"
    and "(D + u) mod w = 0" and "(S + u) mod w = 0"
    and "\<And>x. D mod 32 = S mod 32 \<Longrightarrow> D + u \<le> x \<Longrightarrow> x < D + u + w \<Longrightarrow> \<not> full D n (x div 32)"
  shows "unit_ok D S n {u + w..<n} u w"
proof -
  have "D + r \<noteq> S + u + i" if "i < w" "u + w \<le> r" "r < n" for i r
    using that assms(1) by (auto simp: bwd_safe_def)
  then show ?thesis using assms by (auto simp: unit_ok_def)
qed

lemma bwd_unit_ptr:
  assumes "bwd_safe D S n" and "u + 32 \<le> n" and "(D + u) mod 32 = 0" and "(S + u) mod 32 = 0"
  shows "unit_ok D S n {u + 32..<n} u 32"
proof -
  have "(D + r) div 32 \<noteq> (S + u) div 32" if r: "u + 32 \<le> r" "r < n" for r
  proof (cases "S \<le> D")
    case True
    then have "S + u + 32 \<le> D + r" using r by simp
    then have "(S + u + 32) div 32 \<le> (D + r) div 32" by (rule div_le_mono)
    then show ?thesis by simp
  next
    case False
    then have "D + r < S + u" using r assms(1) by (simp add: bwd_safe_def)
    then show ?thesis using aligned_div_less [of "D + r" "S + u"] assms(4) by simp
  qed
  then show ?thesis using assms by (auto simp: unit_ok_def)
qed

lemma bwd_bytes:
  assumes at: "bwd_at D S n m0 (c + k) st" and safe: "bwd_safe D S n" and k: "0 < k"
    and nofull: "no_full D S n c (c + k)"
  shows "\<exists>st'. backward_block 1 (of_nat k) st = Some (Inr st') \<and> bwd_at D S n m0 c st' \<and> len st' = len st"
  using bwd_block [of D S n m0 c k 1 st] bwd_unit_data [OF safe, of "c + _" 1] bwd_at_addrs(4) [OF at] at k nofull
  by (auto simp: no_full_def)

lemma bwd_words:
  assumes at: "bwd_at D S n m0 (c + k * 8) st" and safe: "bwd_safe D S n" and k: "0 < k"
    and al: "(D + c) mod 8 = 0" "(S + c) mod 8 = 0" and nofull: "no_full D S n c (c + k * 8)"
  shows "\<exists>st'. backward_block 8 (of_nat (k * 8)) st = Some (Inr st') \<and> bwd_at D S n m0 c st' \<and> len st' = len st"
proof (rule bwd_block [OF at k])
  fix j assume "j < k"
  then have "j * 8 + 8 \<le> k * 8" by simp
  with al nofull bwd_at_addrs(4) [OF at]
  have "unit_ok D S n {c + j * 8 + 8..<n} (c + j * 8) 8"
    by (intro bwd_unit_data [OF safe]) (simp_all add: add.assoc [symmetric] no_full_def)
  moreover have "c + Suc j * 8 = c + j * 8 + 8" by simp
  ultimately show "unit_ok D S n {c + Suc j * 8..<n} (c + j * 8) 8" by (simp only:)
qed simp

lemma bwd_ptrs:
  assumes at: "bwd_at D S n m0 (c + k * 32) st" and safe: "bwd_safe D S n" and k: "0 < k"
    and al: "(D + c) mod 32 = 0" "(S + c) mod 32 = 0"
  shows "\<exists>st'. backward_block 32 (of_nat (k * 32)) st = Some (Inr st') \<and> bwd_at D S n m0 c st' \<and> len st' = len st"
proof (rule bwd_block [OF at k])
  fix j assume "j < k"
  then have "j * 32 + 32 \<le> k * 32" by simp
  with al bwd_at_addrs(4) [OF at]
  have "unit_ok D S n {c + j * 32 + 32..<n} (c + j * 32) 32"
    by (intro bwd_unit_ptr [OF safe]) (simp_all add: add.assoc [symmetric])
  moreover have "c + Suc j * 32 = c + j * 32 + 32" by simp
  ultimately show "unit_ok D S n {c + Suc j * 32..<n} (c + j * 32) 32" by (simp only:)
qed simp

text \<open>The steps, the mirror image of the forward ones.\<close>

definition at_word_end :: "nat \<Rightarrow> nat \<Rightarrow> nat \<Rightarrow> nat \<Rightarrow> bool" where
  "at_word_end D S n b \<longleftrightarrow> b \<le> n \<and> n - b < 8 \<and> (D + b) mod 8 = 0 \<and> (S + b) mod 8 = 0"

lemma full_before_word:
  assumes "at_word_end D S n b" and "full D n g"
  shows "32 * g + 32 \<le> D + b"
proof -
  from assms(1) obtain q where q: "D + b = 8 * q" by (auto simp: at_word_end_def)
  have "D + n < D + b + 8" "32 * g + 32 \<le> D + n"
    using assms by (auto simp: at_word_end_def full_def)
  then have "32 * g + 32 < 8 * q + 8" using q by linarith
  then have "4 * g + 4 < q + 1" by simp
  then show ?thesis using q by simp
qed

lemma no_full_end_bytes:
  assumes "at_word_end D S n b"
  shows "no_full D S n b n"
proof -
  have "\<not> full D n (x div 32)" if "D + b \<le> x" for x
  proof
    assume "full D n (x div 32)"
    then have "32 * (x div 32) + 32 \<le> x" using full_before_word [OF assms] that by fastforce
    then show False by simp
  qed
  then show ?thesis by (simp add: no_full_def)
qed

lemma no_full_end_short:
  assumes "at_word_end D S n b" and "b < 32"
  shows "no_full D S n 0 b"
proof -
  have "\<not> full D n g" for g
    using full_before_word [OF assms(1), of g] assms(2) by (auto simp: full_def)
  then show ?thesis by (simp add: no_full_def)
qed

lemma no_full_end_block:
  assumes "at_word_end D S n b" and "(D + b) mod 32 \<noteq> 0" and "c \<le> b" and "b - c \<le> (D + b) mod 32"
  shows "no_full D S n c b"
proof -
  let ?q = "(D + b) div 32"
  have b: "D + b = 32 * ?q + (D + b) mod 32" by simp
  have "\<not> full D n (x div 32)" if "D + c \<le> x" for x
  proof
    assume f: "full D n (x div 32)"
    have "32 * ?q \<le> x" using that assms(3,4) b by linarith
    then have "?q \<le> x div 32" using div_le_mono [of "32 * ?q" x 32] by simp
    then have "32 * ?q + 32 \<le> D + b" using full_before_word [OF assms(1) f] by linarith
    then show False using b mod_less_divisor [of 32 "D + b"] by linarith
  qed
  then show ?thesis by (simp add: no_full_def)
qed

lemma no_full_head:
  assumes "(D + b) mod 32 = 0" and "b < 32"
  shows "no_full D S n 0 b"
proof -
  obtain q where q: "D + b = 32 * q" using assms(1) by auto
  have "\<not> full D n (x div 32)" if "x < D + b" for x
  proof
    assume "full D n (x div 32)"
    moreover have "x div 32 < q" using that q by (simp add: less_mult_imp_div_less mult.commute)
    ultimately show False using assms(2) q by (simp add: full_def)
  qed
  then show ?thesis by (simp add: no_full_def)
qed

definition bwd_inv :: "nat \<Rightarrow> nat \<Rightarrow> nat \<Rightarrow> memory \<Rightarrow> nat \<Rightarrow> copy_state \<Rightarrow> bool" where
  "bwd_inv D S n m0 b st \<longleftrightarrow> bwd_at D S n m0 b st \<and> len st = of_nat b"

lemma bwd_inv_len: "bwd_inv D S n m0 b st \<Longrightarrow> unat (len st) = b"
  using bwd_at_addrs(3,4) [of D S n m0 b st] by (auto simp: bwd_inv_def intro!: unat_small)

lemma backward_align_word_step:
  assumes inv: "bwd_inv D S n m0 n st" and safe: "bwd_safe D S n" and n: "0 < n"
  shows "\<exists>b st'. backward_align_word st = Some (Inr st') \<and> bwd_inv D S n m0 b st' \<and>
     (b = 0 \<or> at_word_end D S n b)"
proof -
  have at: "bwd_at D S n m0 n st" and len: "len st = of_nat n" using inv by (simp_all add: bwd_inv_def)
  note ad = bwd_at_addrs(1,2) [OF at]
  note ul = bwd_inv_len [OF inv]
  show ?thesis
  proof (cases "(D + n) mod 8 = 0 \<and> (S + n) mod 8 = 0")
    case True
    then have "\<not> (cap_addr (src st) OR cap_addr (dst st)) AND 7 \<noteq> 0"
      unfolding low_or(1) ad by linarith
    then have "backward_align_word st = Some (Inr st)"
      unfolding backward_align_word_def Let_def by (simp only: if_False)
    with inv True show ?thesis by (auto simp: at_word_end_def)
  next
    case unaligned: False
    have cond: "(cap_addr (src st) OR cap_addr (dst st)) AND 7 \<noteq> 0"
      using unaligned unfolding low_or(1) ad by linarith
    define all where "all \<longleftrightarrow> (S + n) mod 8 \<noteq> (D + n) mod 8 \<or> n \<le> 8"
    define t where "t = (if all then n else (S + n) mod 8)"
    have t: "0 < t" "t \<le> n"
    proof -
      have "(S + n) mod 8 < 8" by simp
      then show "t \<le> n" by (auto simp: t_def all_def)
      show "0 < t" using n unaligned by (auto simp: t_def all_def)
    qed
    have tw: "(if (cap_addr (src st) XOR cap_addr (dst st)) AND 7 \<noteq> 0 \<or> len st \<le> 8 then len st
        else cap_addr (src st) AND 7) = of_nat t"
    proof -
      have "len st \<le> 8 \<longleftrightarrow> n \<le> 8" by (simp add: word_le_nat_alt ul)
      moreover have "cap_addr (src st) AND 7 = of_nat ((S + n) mod 8)"
        by (rule word_unat_eq_iff [THEN iffD2]) (simp add: low_bits(1) ad unat_small del: of_nat_add)
      ultimately show ?thesis by (simp only: low_xor(1) ad t_def all_def len) simp
    qed
    have b: "n - t = 0 \<or> at_word_end D S n (n - t)"
    proof (cases all)
      case False
      then have m: "(S + n) mod 8 = (D + n) mod 8" "t = (S + n) mod 8" by (simp_all add: t_def all_def)
      have "(D + (n - t)) mod 8 = 0" "(S + (n - t)) mod 8 = 0"
        using t(2) m mult_div_mod_eq [of 8 "D + n"] mult_div_mod_eq [of 8 "S + n"]
        by (metis Nat.add_diff_assoc add_diff_cancel_right' mod_mult_self1_is_0 mult.commute)+
      moreover have "t < 8" using m by simp
      ultimately show ?thesis using t(2) by (simp add: at_word_end_def)
    qed (simp add: t_def)
    have nofull: "no_full D S n (n - t) (n - t + t)"
    proof (cases "n - t = 0")
      case True
      then have "t = n" using t(2) by simp
      show ?thesis
      proof (cases "n \<le> 8")
        case True
        then show ?thesis by (auto simp: no_full_def full_def)
      next
        case False
        have "(S + n) mod 8 < 8" by simp
        then have "all" using \<open>t = n\<close> False by (auto simp: t_def split: if_splits)
        then have "(S + n) mod 8 \<noteq> (D + n) mod 8" using False by (simp add: all_def)
        then have "D mod 32 \<noteq> S mod 32" using mod32_mod8 by (metis mod_add_cong)
        then show ?thesis by (simp add: no_full_def)
      qed
    next
      case False
      then show ?thesis using no_full_end_bytes [of D S n "n - t"] b t(2) by simp
    qed
    have at0: "bwd_at D S n m0 (n - t + t) (st\<lparr>len := len st - of_nat t\<rparr>)" using at t(2) by simp
    obtain st' where st': "backward_block 1 (of_nat t) (st\<lparr>len := len st - of_nat t\<rparr>) = Some (Inr st')"
      "bwd_at D S n m0 (n - t) st'" "len st' = len st - of_nat t"
      using bwd_bytes [OF at0 safe t(1) nofull] by auto
    have "backward_align_word st = Some (Inr st')"
      unfolding backward_align_word_def Let_def if_P [OF cond] tw by (rule st'(1))
    moreover have "len st' = of_nat (n - t)" using st'(3) t by (simp add: len of_nat_diff)
    ultimately show ?thesis using st'(2) b by (auto simp: bwd_inv_def)
  qed
qed

definition at_ptr_end :: "nat \<Rightarrow> nat \<Rightarrow> nat \<Rightarrow> nat \<Rightarrow> bool" where
  "at_ptr_end D S n b \<longleftrightarrow> ((D + b) mod 32 = 0 \<and> (S + b) mod 32 = 0) \<or> (b < 8 \<and> no_full D S n 0 b)"

lemma no_full_incongruent: "(S + b) mod 32 \<noteq> (D + b) mod 32 \<Longrightarrow> no_full D S n lo hi"
  unfolding no_full_def by (metis mod_add_cong)

lemma backward_align_ptr_step:
  assumes inv: "bwd_inv D S n m0 b st" and safe: "bwd_safe D S n" and b: "b = 0 \<or> at_word_end D S n b"
  shows "\<exists>v st'. backward_align_ptr st = Some (Inr st') \<and> bwd_inv D S n m0 v st' \<and> at_ptr_end D S n v"
proof -
  have at: "bwd_at D S n m0 b st" and len: "len st = of_nat b" using inv by (simp_all add: bwd_inv_def)
  note ad = bwd_at_addrs [OF at]
  note ul = bwd_inv_len [OF inv]
  show ?thesis
  proof (cases "(D + b) mod 32 = 0 \<and> (S + b) mod 32 = 0")
    case True
    then have "\<not> (cap_addr (src st) OR cap_addr (dst st)) AND 31 \<noteq> 0"
      unfolding low_or(2) ad by linarith
    then have "backward_align_ptr st = Some (Inr st)"
      unfolding backward_align_ptr_def Let_def by (simp only: if_False)
    with inv True show ?thesis by (auto simp: at_ptr_end_def)
  next
    case unaligned: False
    have cond: "(cap_addr (src st) OR cap_addr (dst st)) AND 31 \<noteq> 0"
      using unaligned unfolding low_or(2) ad by linarith
    define short where "short \<longleftrightarrow> (S + b) mod 32 \<noteq> (D + b) mod 32 \<or> b < 32"
    define k where "k = (if short then b div 8 else (S + b) mod 32 div 8)"
    define c where "c = b - k * 8"
    have kw: "(if (cap_addr (src st) XOR cap_addr (dst st)) AND 31 \<noteq> 0 \<or> len st < 32 then len st div 8
        else (cap_addr (src st) AND 31) div 8) = of_nat k"
    proof -
      have "len st < 32 \<longleftrightarrow> b < 32" by (simp add: word_less_nat_alt ul)
      moreover have "len st div 8 = of_nat (b div 8)"
        using word_div_of_nat [of b 8] ad(3,4) len by simp
      moreover have "(cap_addr (src st) AND 31) div 8 = of_nat ((S + b) mod 32 div 8)"
      proof -
        have "cap_addr (src st) AND 31 = of_nat ((S + b) mod 32)"
          by (rule word_unat_eq_iff [THEN iffD2]) (simp add: low_bits(2) ad unat_small del: of_nat_add)
        then show ?thesis using word_div_of_nat [of "(S + b) mod 32" 8] by simp
      qed
      ultimately show ?thesis by (simp only: low_xor(2) ad k_def short_def) simp
    qed
    have k8: "k * 8 \<le> b"
    proof (cases short)
      case False
      have "k * 8 \<le> (S + b) mod 32" by (simp add: k_def False)
      also have "\<dots> < 32" by simp
      finally show ?thesis using False by (simp add: short_def)
    qed (simp add: k_def)
    then have cb: "c + k * 8 = b" by (simp add: c_def)
    have facts: "no_full D S n c b \<and> at_ptr_end D S n c \<and> (0 < k \<longrightarrow> (D + c) mod 8 = 0 \<and> (S + c) mod 8 = 0)"
    proof (cases "b = 0")
      case True
      then show ?thesis using k8 by (auto simp: no_full_def at_ptr_end_def c_def)
    next
      case False
      with b have w: "at_word_end D S n b" by simp
      have "(D + c) mod 8 = (D + b) mod 8" "(S + c) mod 8 = (S + b) mod 8"
        using mod_mult_self1 [of "D + c" k 8] mod_mult_self1 [of "S + c" k 8] cb
        by (simp_all only: add.assoc)
      then have al: "(D + c) mod 8 = 0 \<and> (S + c) mod 8 = 0"
        using w by (simp add: at_word_end_def)
      show ?thesis
      proof (cases short)
        case True
        then have "c < 8" by (simp add: c_def k_def)
        moreover have "no_full D S n 0 b"
        proof (cases "b < 32")
          case True
          then show ?thesis by (rule no_full_end_short [OF w])
        next
          case False
          with True show ?thesis by (intro no_full_incongruent [of S b D]) (simp add: short_def)
        qed
        ultimately show ?thesis
          using al no_full_mono [of D S n 0 b c b] no_full_mono [of D S n 0 b 0 c] cb
          by (simp add: at_ptr_end_def)
      next
        case False
        then have s: "(S + b) mod 32 = (D + b) mod 32" by (simp add: short_def)
        have "(S + b) mod 8 = 0" using w by (simp add: at_word_end_def)
        then have "(S + b) mod 32 mod 8 = 0" by (simp add: mod_mod_cancel)
        then obtain q where "(S + b) mod 32 = 8 * q" by (metis mod_0_imp_dvd dvdE)
        then have k: "k * 8 = (S + b) mod 32" "k * 8 = (D + b) mod 32" using False s by (simp_all add: k_def)
        have "D + b = 32 * ((D + b) div 32) + k * 8" "S + b = 32 * ((S + b) div 32) + k * 8"
          using k mult_div_mod_eq [of 32 "D + b"] mult_div_mod_eq [of 32 "S + b"] by simp_all
        then have "D + c = 32 * ((D + b) div 32)" "S + c = 32 * ((S + b) div 32)"
          using cb by linarith+
        then have "at_ptr_end D S n c" by (simp add: at_ptr_end_def)
        moreover have "no_full D S n c b"
          using unaligned s k cb by (intro no_full_end_block [OF w]) auto
        ultimately show ?thesis using al by blast
      qed
    qed
    show ?thesis
    proof (cases "k = 0")
      case True
      then have "backward_align_ptr st = Some (Inr st)"
        unfolding backward_align_ptr_def Let_def if_P [OF cond] kw by simp
      with inv facts True show ?thesis by (auto simp: c_def)
    next
      case False
      have "k < 2 ^ 64" using k8 ad(3,4) by linarith
      then have ne: "(of_nat k :: u64) \<noteq> 0" using False of_nat_eq_small [of k 0] by simp
      let ?st = "st\<lparr>len := len st - of_nat k * 8\<rparr>"
      have at0: "bwd_at D S n m0 (c + k * 8) ?st" using at cb by simp
      obtain st' where st': "backward_block 8 (of_nat (k * 8)) ?st = Some (Inr st')"
        "bwd_at D S n m0 c st'" "len st' = len ?st"
        using bwd_words [OF at0 safe] False facts cb by auto
      have "backward_align_ptr st = Some (Inr st')"
        unfolding backward_align_ptr_def Let_def if_P [OF cond] kw if_P [OF ne]
        using st'(1) by simp
      moreover have "len st' = of_nat c"
        using st'(3) k8 by (simp add: len c_def of_nat_diff)
      ultimately show ?thesis using st'(2) facts by (auto simp: bwd_inv_def)
    qed
  qed
qed

lemma backward_ptrs_step:
  assumes inv: "bwd_inv D S n m0 b st" and safe: "bwd_safe D S n" and b: "at_ptr_end D S n b"
  shows "\<exists>v st'. backward_ptrs st = Some (Inr st') \<and> bwd_at D S n m0 v st' \<and>
     unat (len st') mod 32 = v \<and> no_full D S n 0 v"
proof -
  have at: "bwd_at D S n m0 b st" and len: "len st = of_nat b" using inv by (simp_all add: bwd_inv_def)
  note ad = bwd_at_addrs [OF at]
  note ul = bwd_inv_len [OF inv]
  define k where "k = b div 32"
  have t: "len st div 32 = of_nat k"
    using word_div_of_nat [of b 32] ad(3,4) len by (simp add: k_def)
  have md: "b mod 32 + k * 32 = b" by (simp add: k_def)
  show ?thesis
  proof (cases "k = 0")
    case True
    then have "backward_ptrs st = Some (Inr st)" by (simp add: backward_ptrs_def Let_def t)
    moreover have lt: "b < 32" using True by (simp add: k_def div_eq_0_iff)
    moreover have "no_full D S n 0 b"
      using b no_full_head [OF _ lt] by (auto simp: at_ptr_end_def)
    ultimately show ?thesis using at by (auto simp: ul)
  next
    case False
    then have "32 \<le> b" by (simp add: k_def div_eq_0_iff not_less)
    then have alb: "(D + b) mod 32 = 0" "(S + b) mod 32 = 0" using b by (auto simp: at_ptr_end_def)
    have al: "(D + b mod 32) mod 32 = 0" "(S + b mod 32) mod 32 = 0"
      using alb by (simp_all only: mod_add_right_eq)
    have "k < 2 ^ 64" using ad(3,4) by (simp add: k_def)
    then have ne: "(of_nat k :: u64) \<noteq> 0" using False of_nat_eq_small [of k 0] by simp
    have at0: "bwd_at D S n m0 (b mod 32 + k * 32) st" using at md by simp
    obtain st' where st': "backward_block 32 (of_nat (k * 32)) st = Some (Inr st')"
      "bwd_at D S n m0 (b mod 32) st'" "len st' = len st"
      using bwd_ptrs [OF at0 safe _ al] False by auto
    have "backward_ptrs st = Some (Inr st')"
      using st'(1) ne by (simp add: backward_ptrs_def Let_def t)
    moreover have "no_full D S n 0 (b mod 32)" by (rule no_full_head [OF al(1)]) simp
    ultimately show ?thesis using st' by (auto simp: ul)
  qed
qed

lemma backward_tail_step:
  assumes at: "bwd_at D S n m0 b st" and safe: "bwd_safe D S n"
    and len: "unat (len st) mod 32 = b" and nofull: "no_full D S n 0 b"
  shows "\<exists>st'. backward_tail st = Some (Inr st') \<and> bwd_at D S n m0 0 st'"
proof -
  have lt: "b < 32" using len by (metis mod_less_divisor zero_less_numeral)
  then have t: "len st AND 31 = of_nat b"
    by (intro word_unat_eq_iff [THEN iffD2]) (simp add: low_bits(2) len unat_small)
  show ?thesis
  proof (cases "b = 0")
    case True
    then show ?thesis using at t by (simp add: backward_tail_def Let_def)
  next
    case False
    have ne: "len st AND 31 \<noteq> 0"
      unfolding t using of_nat_eq_small [of b 0] lt False by simp
    have at0: "bwd_at D S n m0 (0 + b) st" using at by simp
    obtain st' where "backward_block 1 (of_nat b) st = Some (Inr st')" "bwd_at D S n m0 0 st'"
      using bwd_bytes [OF at0 safe] False nofull by auto
    moreover have "backward_tail st = backward_block 1 (of_nat b) st"
      using ne by (simp add: backward_tail_def Let_def t)
    ultimately show ?thesis by simp
  qed
qed

lemma copy_backward_copied:
  assumes d: "covers (dst st) D n" "cap_addr (dst st) = word_of_nat D"
    and s: "covers (src st) S n" "cap_addr (src st) = word_of_nat S"
    and len: "len st = of_nat n" and safe: "bwd_safe D S n" and n: "0 < n"
  shows "\<exists>st'. copy_backward st = Some (Inr st') \<and> copied D S n (mem st) {..<n} (mem st')"
proof -
  let ?st = "st\<lparr>dst := dst st\<lparr>cap_offset := cap_offset (dst st) + len st\<rparr>,
    src := src st\<lparr>cap_offset := cap_offset (src st) + len st\<rparr>\<rparr>"
  have mv: "move (len st) st = Some (Inr ?st)"
    using d s by (simp add: move_def increment_usable covers_usable)
  have inv: "bwd_inv D S n (mem st) n ?st"
    using d s len by (simp add: bwd_inv_def bwd_at_def covers_offset cap_addr_move copied_start)
  obtain u st1 where 1: "backward_align_word ?st = Some (Inr st1)" "bwd_inv D S n (mem st) u st1"
    "u = 0 \<or> at_word_end D S n u"
    using backward_align_word_step [OF inv safe n] by blast
  obtain v st2 where 2: "backward_align_ptr st1 = Some (Inr st2)" "bwd_inv D S n (mem st) v st2"
    "at_ptr_end D S n v"
    using backward_align_ptr_step [OF 1(2) safe 1(3)] by blast
  obtain w st3 where 3: "backward_ptrs st2 = Some (Inr st3)" "bwd_at D S n (mem st) w st3"
    "unat (len st3) mod 32 = w" "no_full D S n 0 w"
    using backward_ptrs_step [OF 2(2) safe 2(3)] by blast
  obtain st4 where 4: "backward_tail st3 = Some (Inr st4)" "bwd_at D S n (mem st) 0 st4"
    using backward_tail_step [OF 3(2) safe 3(3,4)] by blast
  have "copy_backward st = Some (Inr st4)"
    unfolding copy_backward_def mv by (simp add: 1(1) 2(1) 3(1) 4(1))
  then show ?thesis using 4(2) by (simp add: bwd_at_def atLeast0LessThan)
qed

section \<open>The routine\<close>

lemma cap_less_addr: "usable a \<Longrightarrow> usable b \<Longrightarrow> cap_less a b \<longleftrightarrow> cap_addr a < cap_addr b"
  by (simp add: cap_less_def usable_def)

lemma cap_eq_addr: "usable a \<Longrightarrow> usable b \<Longrightarrow> cap_eq a b \<longleftrightarrow> cap_addr a = cap_addr b"
  by (simp add: cap_eq_def usable_def)

lemma covers_self: "covers c (unat (cap_addr c)) n \<Longrightarrow> cap_addr c = word_of_nat (unat (cap_addr c))"
  by simp

lemma copy_body_copied:
  assumes d: "covers d (unat (cap_addr d)) (unat n)" and s: "covers s (unat (cap_addr s)) (unat n)"
    and ne: "cap_addr d \<noteq> cap_addr s" and n: "n \<noteq> 0"
    and ov: "handle_overlap \<or> fwd_safe (unat (cap_addr d)) (unat (cap_addr s)) (unat n)"
  shows "\<exists>m'. copy_body handle_overlap d s n m = Some (Inr m') \<and>
    copied (unat (cap_addr d)) (unat (cap_addr s)) (unat n) m {..<unat n} m'"
proof -
  let ?D = "unat (cap_addr d)" and ?S = "unat (cap_addr s)" and ?n = "unat n"
  let ?st = "\<lparr>dst = d, src = s, len = n, mem = m\<rparr>"
  have n0: "0 < ?n" using n by (simp add: unat_gt_0)
  have less: "cap_less d s \<longleftrightarrow> ?D < ?S"
    using cap_less_addr covers_usable [OF d] covers_usable [OF s] by (simp add: word_less_nat_alt)
  show ?thesis
  proof (cases "cap_less d s \<or> \<not> handle_overlap")
    case True
    then have "fwd_safe ?D ?S ?n" using ov less by (auto simp: fwd_safe_def)
    moreover have "fwd_inv ?D ?S ?n m 0 ?st"
      using d s by (simp add: fwd_inv_def fwd_at_def copied_start)
    ultimately obtain st' where "copy_forward ?st = Some (Inr st')" "copied ?D ?S ?n m {..<?n} (mem st')"
      using copy_forward_copied n0 by blast
    then show ?thesis using True by (auto simp: copy_body_def)
  next
    case False
    then have "bwd_safe ?D ?S ?n" using less by (simp add: bwd_safe_def)
    then obtain st' where "copy_backward ?st = Some (Inr st')" "copied ?D ?S ?n m {..<?n} (mem st')"
      using copy_backward_copied [of ?st ?D ?n ?S] d s n0 by auto
    then show ?thesis using False by (auto simp: copy_body_def)
  qed
qed

text \<open>What the caller of any version sees.\<close>

definition moved :: "u64 \<Rightarrow> u64 \<Rightarrow> u64 \<Rightarrow> memory \<Rightarrow> memory \<Rightarrow> bool" where
  "moved d s n m m' \<longleftrightarrow>
     (if n = 0 \<or> d = s then m' = m
      else (\<forall>x<2 ^ 64. byte_at m' x =
          (if unat d \<le> x \<and> x < unat d + unat n then byte_at m (x - unat d + unat s) else byte_at m x)) \<and>
        (\<forall>g<2 ^ 59. tag_at m' g =
          (if 32 * g + 32 \<le> unat d \<or> unat d + unat n \<le> 32 * g then tag_at m g
           else unat d mod 32 = unat s mod 32 \<and> unat d \<le> 32 * g \<and> 32 * g + 32 \<le> unat d + unat n \<and>
             tag_at m ((32 * g - unat d + unat s) div 32))))"

lemma granule_met: "(\<exists>i\<in>{..<n}. (D + i) div 32 = g) \<longleftrightarrow> 0 < n \<and> D < 32 * g + 32 \<and> 32 * g < D + (n :: nat)"
proof
  assume "\<exists>i\<in>{..<n}. (D + i) div 32 = g"
  then obtain i where "i < n" "g = (D + i) div 32" by auto
  moreover have "32 * ((D + i) div 32) \<le> D + i" "D + i < 32 * ((D + i) div 32) + 32"
    by linarith+
  ultimately show "0 < n \<and> D < 32 * g + 32 \<and> 32 * g < D + n" by linarith
next
  assume a: "0 < n \<and> D < 32 * g + 32 \<and> 32 * g < D + n"
  show "\<exists>i\<in>{..<n}. (D + i) div 32 = g"
  proof (cases "D \<le> 32 * g")
    case True
    then show ?thesis using a by (intro bexI [of _ "32 * g - D"]) auto
  next
    case False
    then have "D div 32 = g" using a by (intro div_nat_eqI) auto
    then show ?thesis using a by (intro bexI [of _ 0]) auto
  qed
qed

lemma copied_moved:
  assumes "copied (unat d) (unat s) (unat n) m {..<unat n} m'" and "n \<noteq> 0" and "d \<noteq> s"
  shows "moved d s n m m'"
proof -
  have n: "0 < unat n" using assms(2) by (simp add: unat_gt_0)
  have 1: "unat d \<le> x \<and> x - unat d \<in> {..<unat n} \<longleftrightarrow> unat d \<le> x \<and> x < unat d + unat n" for x
    by auto
  have 2: "(32 * g + 32 \<le> unat d \<or> unat d + unat n \<le> 32 * g) \<longleftrightarrow>
      \<not> (\<exists>i\<in>{..<unat n}. (unat d + i) div 32 = g)" for g
    unfolding granule_met using n by linarith
  have "byte_at m' x = (if unat d \<le> x \<and> x < unat d + unat n then byte_at m (x - unat d + unat s)
      else byte_at m x)" if "x < 2 ^ 64" for x
    using copied_byte [OF assms(1) that] unfolding 1 .
  moreover have "tag_at m' g = (if 32 * g + 32 \<le> unat d \<or> unat d + unat n \<le> 32 * g then tag_at m g
      else unat d mod 32 = unat s mod 32 \<and> unat d \<le> 32 * g \<and> 32 * g + 32 \<le> unat d + unat n \<and>
        tag_at m ((32 * g - unat d + unat s) div 32))" if "g < 2 ^ 59" for g
    using copied_tag [OF assms(1) that] unfolding 2 full_def
    by (cases "\<exists>i\<in>{..<unat n}. (unat d + i) div 32 = g")
      (simp_all only: if_True if_False simp_thms conj_assoc)
  ultimately show ?thesis using assms(2,3) unfolding moved_def by (simp only: if_False simp_thms) blast
qed

lemma moved_0 [simp]: "moved d s 0 m m' \<longleftrightarrow> m' = m" "moved d d n m m' \<longleftrightarrow> m' = m"
  by (simp_all add: moved_def)

lemma copy_c_moved:
  assumes "covers d (unat (cap_addr d)) (unat n)" and "covers s (unat (cap_addr s)) (unat n)"
    and "handle_overlap \<or> fwd_safe (unat (cap_addr d)) (unat (cap_addr s)) (unat n)"
  shows "\<exists>m'. copy_c handle_overlap d s n m = Some (Inr m') \<and> moved (cap_addr d) (cap_addr s) n m m'"
proof (cases "n = 0 \<or> cap_addr d = cap_addr s")
  case True
  then show ?thesis
    using cap_eq_addr [of s d] assms covers_usable by (auto simp: copy_c_def)
next
  case False
  then have f: "cap_addr d \<noteq> cap_addr s" "n \<noteq> 0" by simp_all
  obtain m' where "copy_body handle_overlap d s n m = Some (Inr m')"
    "copied (unat (cap_addr d)) (unat (cap_addr s)) (unat n) m {..<unat n} m'"
    using copy_body_copied [OF assms(1,2) f assms(3)] by blast
  moreover have "\<not> cap_eq s d"
    using f cap_eq_addr [OF covers_usable [OF assms(2)] covers_usable [OF assms(1)]] by simp
  ultimately show ?thesis using copied_moved f by (simp add: copy_c_def)
qed

end
