(* ===== verification/MemCopyProps.thy ===== *)
theory MemCopyProps
  imports MemCopyBack
begin

text \<open>
  The contract of the copying routines, entry by entry: what they move, and that no version ever
  writes outside the bounds of the destination capability.
\<close>

section \<open>Through the default data capability\<close>

lemma to_cap_addr: "a \<noteq> 0 \<Longrightarrow> cap_addr (to_cap ddc a) = cap_base ddc + a"
  by (simp add: to_cap_def cap_addr_def)

lemma to_cap_covers [simp]: "a \<noteq> 0 \<Longrightarrow> covers (to_cap ddc a) lo n = covers ddc lo n"
  by (simp add: to_cap_def)

lemma bounds_set_covers:
  assumes "covers c (unat (cap_addr c)) (unat n)"
  shows "\<exists>r. cheri_bounds_set c n = Inr r \<and> cap_addr r = cap_addr c \<and> covers r (unat (cap_addr c)) (unat n)"
proof -
  let ?r = "c\<lparr>cap_base := cap_addr c, cap_length := n, cap_offset := 0\<rparr>"
  have "in_bounds c (unat n)" using assms by (simp add: in_bounds_def covers_def)
  then have "cheri_bounds_set c n = Inr ?r"
    using assms by (simp add: cheri_bounds_set_def covers_def usable_def)
  moreover have "covers ?r (unat (cap_addr c)) (unat n)"
    using assms covers_no_wrap [OF assms] by (simp add: covers_def usable_def cap_wf_def has_perm_def)
  moreover have "cap_addr ?r = cap_addr c" by (simp add: cap_addr_def)
  ultimately show ?thesis by blast
qed

text \<open>A pointer that the default data capability covers for \<open>n\<close> bytes.\<close>

definition points_to :: "cap \<Rightarrow> u64 \<Rightarrow> u64 \<Rightarrow> bool" where
  "points_to ddc p n \<longleftrightarrow> p \<noteq> 0 \<and> covers ddc (unat (cap_base ddc + p)) (unat n)"

lemma copy_p_moved:
  assumes d: "points_to ddc dst0 n" and s: "points_to ddc src0 n"
    and ov: "handle_overlap \<or>
      fwd_safe (unat (cap_base ddc + dst0)) (unat (cap_base ddc + src0)) (unat n)"
  shows "\<exists>m'. copy_p handle_overlap ddc dst0 src0 n m = Some (Inr m') \<and>
    moved (cap_base ddc + dst0) (cap_base ddc + src0) n m m'"
proof (cases "n = 0 \<or> src0 = dst0")
  case True
  then show ?thesis by (auto simp: copy_p_def)
next
  case False
  have da: "cap_addr (to_cap ddc dst0) = cap_base ddc + dst0"
    and sa: "cap_addr (to_cap ddc src0) = cap_base ddc + src0"
    using d s by (simp_all add: to_cap_addr points_to_def)
  obtain d' where d': "cheri_bounds_set (to_cap ddc dst0) n = Inr d'" "cap_addr d' = cap_base ddc + dst0"
    "covers d' (unat (cap_addr d')) (unat n)"
    using bounds_set_covers [of "to_cap ddc dst0" n] d da by (auto simp: points_to_def)
  obtain s' where s': "cheri_bounds_set (to_cap ddc src0) n = Inr s'" "cap_addr s' = cap_base ddc + src0"
    "covers s' (unat (cap_addr s')) (unat n)"
    using bounds_set_covers [of "to_cap ddc src0" n] s sa by (auto simp: points_to_def)
  have ne: "cap_addr d' \<noteq> cap_addr s'" using False d'(2) s'(2) by auto
  obtain m' where "copy_body handle_overlap d' s' n m = Some (Inr m')"
    "copied (unat (cap_addr d')) (unat (cap_addr s')) (unat n) m {..<unat n} m'"
    using copy_body_copied [OF d'(3) s'(3) ne, of handle_overlap m] False ov d'(2) s'(2) by auto
  then show ?thesis
    using copied_moved [of "cap_addr d'" "cap_addr s'" n m m'] ne False d'(1,2) s'(1,2)
    by (simp add: copy_p_def)
qed

text \<open>A capability for an object of \<open>n\<close> bytes with every permission of data.\<close>

definition object_cap :: "u64 \<Rightarrow> u64 \<Rightarrow> cap" where
  "object_cap a n =
     \<lparr>cap_tag = True, cap_sealed = False, cap_perms = 0x3d, cap_otype = 0, cap_base = a,
      cap_length = n, cap_offset = 0\<rparr>"

lemma object_cap_addr [simp]: "cap_addr (object_cap a n) = a"
  by (simp add: object_cap_def cap_addr_def)

lemma object_cap_perms:
  "has_perm (object_cap a n) PERM_LOAD" "has_perm (object_cap a n) PERM_STORE"
  "has_perm (object_cap a n) PERM_LOAD_CAPABILITY" "has_perm (object_cap a n) PERM_STORE_CAPABILITY"
  by (simp_all add: object_cap_def has_perm_def perm_defs)

lemma object_cap_covers:
  "unat a + unat n < 2 ^ 64 \<Longrightarrow> unat a \<le> lo \<Longrightarrow> lo + k \<le> unat a + unat n \<Longrightarrow> covers (object_cap a n) lo k"
  using object_cap_perms [of a n]
  by (simp add: covers_def usable_def cap_wf_def) (simp add: object_cap_def)

section \<open>What they move\<close>

text \<open>C1. Whatever the overlap of the two regions, \<open>memmove_c\<close> leaves in the destination what the
  source held before the call, changes no other byte, and carries the tags of the capabilities
  that lie wholly inside the region when both pointers have the same position in a capability;
  every other tag the region touches is cleared. It returns the destination.
\<close>

theorem memmove_c_moves:
  assumes "covers d (unat (cap_addr d)) (unat n)" and "covers s (unat (cap_addr s)) (unat n)"
  shows "\<exists>m'. memmove_c d s n m = Some (Inr (d, m')) \<and> moved (cap_addr d) (cap_addr s) n m m'"
  using copy_c_moved [OF assms, of True m] by (auto simp: memmove_c_def)

theorem memmove_c_moves_witness:
  "\<exists>m'. memmove_c (object_cap 4096 96) (object_cap 4099 90) 90 (\<lparr>bytes = \<lambda>x. ucast x, tags = \<lambda>_. True\<rparr>) =
       Some (Inr (object_cap 4096 96, m')) \<and>
     moved 4096 4099 90 (\<lparr>bytes = \<lambda>x. ucast x, tags = \<lambda>_. True\<rparr>) m'"
  using memmove_c_moves [of "object_cap 4096 96" 90 "object_cap 4099 90"
      "\<lparr>bytes = \<lambda>x. ucast x, tags = \<lambda>_. True\<rparr>"]
  by (simp add: object_cap_covers)

text \<open>C19. \<open>cmemcpy_c\<close>, which always copies forward, does the same unless the destination starts
  inside the source region.
\<close>

theorem cmemcpy_c_moves:
  assumes "covers d (unat (cap_addr d)) (unat n)" and "covers s (unat (cap_addr s)) (unat n)"
    and "cap_addr d \<le> cap_addr s \<or> unat (cap_addr s) + unat n \<le> unat (cap_addr d)"
  shows "\<exists>m'. cmemcpy_c d s n m = Some (Inr (d, m')) \<and> moved (cap_addr d) (cap_addr s) n m m'"
  using copy_c_moved [OF assms(1,2), of False m] assms(3)
  by (auto simp: cmemcpy_c_def fwd_safe_def word_le_nat_alt)

theorem cmemcpy_c_moves_witness:
  "\<exists>m'. cmemcpy_c (object_cap 8192 96) (object_cap 4096 96) 96 (\<lparr>bytes = \<lambda>x. ucast x, tags = \<lambda>_. True\<rparr>) =
       Some (Inr (object_cap 8192 96, m')) \<and>
     moved 8192 4096 96 (\<lparr>bytes = \<lambda>x. ucast x, tags = \<lambda>_. True\<rparr>) m'"
  using cmemcpy_c_moves [of "object_cap 8192 96" 96 "object_cap 4096 96"
      "\<lparr>bytes = \<lambda>x. ucast x, tags = \<lambda>_. True\<rparr>"]
  by (simp add: object_cap_covers)

text \<open>C26. \<open>bcopy\<close> takes its operands in the other order; it and \<open>cmemmove\<close> move the same bytes
  between any two regions that the default data capability covers.
\<close>

theorem bcopy_moves:
  assumes "points_to ddc a n" and "points_to ddc b n"
  shows "\<exists>m'. bcopy ddc b a n m = Some (Inr m') \<and> cmemmove ddc a b n m = Some (Inr (a, m')) \<and>
    moved (cap_base ddc + a) (cap_base ddc + b) n m m'"
  using copy_p_moved [OF assms, of True m] by (auto simp: bcopy_def cmemmove_def)


theorem bcopy_moves_witness:
  "\<exists>m'. bcopy (object_cap 4096 8192) 100 40 90 (\<lparr>bytes = \<lambda>x. ucast x, tags = \<lambda>_. True\<rparr>) = Some (Inr m') \<and>
     cmemmove (object_cap 4096 8192) 40 100 90 (\<lparr>bytes = \<lambda>x. ucast x, tags = \<lambda>_. True\<rparr>) = Some (Inr (40, m')) \<and>
     moved 4136 4196 90 (\<lparr>bytes = \<lambda>x. ucast x, tags = \<lambda>_. True\<rparr>) m'"
proof -
  have "cap_base (object_cap 4096 8192) = 4096" by (simp add: object_cap_def)
  then show ?thesis
    using bcopy_moves [of "object_cap 4096 8192" 40 90 100 "\<lparr>bytes = \<lambda>x. ucast x, tags = \<lambda>_. True\<rparr>"]
    by (simp add: points_to_def object_cap_covers)
qed

section \<open>Confinement\<close>

text \<open>Only bytes within the bounds of the capability differ.\<close>

definition confined :: "cap \<Rightarrow> memory \<Rightarrow> memory \<Rightarrow> bool" where
  "confined c m m' \<longleftrightarrow>
     (\<forall>x. bytes m' x \<noteq> bytes m x \<longrightarrow> in_region x (cap_base c) (unat (cap_length c)))"

definition same_bounds :: "cap \<Rightarrow> cap \<Rightarrow> bool" where
  "same_bounds c d \<longleftrightarrow> cap_base c = cap_base d \<and> cap_length c = cap_length d"

lemma confined_refl [simp]: "confined c m m"
  by (simp add: confined_def)

lemma confined_trans: "confined c m m' \<Longrightarrow> confined c m' m'' \<Longrightarrow> confined c m m''"
  by (auto simp: confined_def) metis

lemma confined_same: "same_bounds c d \<Longrightarrow> confined c m m' = confined d m m'"
  by (simp add: confined_def same_bounds_def)

lemma increment_bounds: "cheri_offset_increment c t = Inr d \<Longrightarrow> same_bounds d c"
  by (auto simp: cheri_offset_increment_def same_bounds_def split: if_splits)

lemma same_bounds_trans: "same_bounds a b \<Longrightarrow> same_bounds b c \<Longrightarrow> same_bounds a c"
  by (simp add: same_bounds_def)

lemma bytes_write_granule: "bytes (write_granule a v m) = bytes (write_bytes a (fst v) m)"
  by (simp add: write_granule_def Let_def)

lemma write_bytes_confined:
  assumes "in_bounds d (length vs)" and "cap_wf d"
  shows "confined d m (write_bytes (cap_addr d) vs m)"
proof -
  have "unat (cap_addr d) + length vs \<le> 2 ^ 64"
    using assms by (simp add: in_bounds_def cap_wf_def)
  then show ?thesis
    using assms(1) by (auto simp: confined_def bytes_write_bytes in_region_def in_bounds_def)
qed

lemma copy_unit_confined:
  assumes "copy_unit w d s m = Inr m'" and "cap_wf d"
  shows "confined d m m'"
proof -
  have "in_bounds d w"
    using assms(1) by (auto simp: copy_unit_def access_check_def split: if_splits option.splits)
  then have "confined d m (write_bytes (cap_addr d) (read_bytes m (cap_addr s) w) m)"
    using assms(2) by (intro write_bytes_confined) simp_all
  moreover have "bytes m' = bytes (write_bytes (cap_addr d) (read_bytes m (cap_addr s) w) m)"
    using assms(1) by (auto simp: copy_unit_def bytes_write_granule read_granule_def split: if_splits option.splits)
  ultimately show ?thesis by (simp add: confined_def)
qed

lemma copy_at_confined:
  assumes "copy_at w d s t m = Inr m'" and "cap_wf d"
  shows "confined d m m'"
proof -
  obtain s' d' where *: "cheri_offset_increment d t = Inr d'" "copy_unit w d' s' m = Inr m'"
    using assms(1) by (auto simp: copy_at_def split: sum.splits)
  then have b: "same_bounds d' d" by (simp add: increment_bounds)
  then have "cap_wf d'" using assms(2) by (simp add: cap_wf_def same_bounds_def)
  then show ?thesis using copy_unit_confined [OF *(2)] confined_same [OF b] by simp
qed

lemma do_loop_keeps:
  assumes step: "\<And>i m m'. stm i m = Inr m' \<Longrightarrow> P m \<Longrightarrow> P m'"
    and run: "do_loop stm inc final i m = Some (Inr m')" and "P m"
  shows "P m'"
proof -
  let ?Q = "\<lambda>stm (inc :: u64) (final :: u64) (i :: u64) m (r :: cheri_fault + memory).
    (\<forall>i m m'. stm i m = Inr m' \<longrightarrow> P m \<longrightarrow> P m') \<longrightarrow> P m \<longrightarrow> (\<forall>m'. r = Inr m' \<longrightarrow> P m')"
  have "?Q stm inc final i m (Inr m')"
  proof (rule do_loop.raw_induct [OF _ run], intro impI allI)
    fix f stm inc final i m r m'
    assume ih: "\<And>stm inc final i m r. f stm inc final i m = Some r \<Longrightarrow> ?Q stm inc final i m r"
      and body: "(case stm (i + inc) m of
          Inl e \<Rightarrow> Some (Inl e)
        | Inr m' \<Rightarrow> if i + inc \<noteq> final then f stm inc final (i + inc) m' else Some (Inr m')) = Some r"
      and keep: "\<forall>i m m'. stm i m = Inr m' \<longrightarrow> P m \<longrightarrow> P m'" and P: "P m" and r: "r = Inr m'"
    obtain m1 where m1: "stm (i + inc) m = Inr m1" using body r by (cases "stm (i + inc) m") auto
    then have "P m1" using keep P by blast
    then show "P m'"
      using ih [of stm inc final "i + inc" m1 r] body keep r m1 by (simp split: if_splits)
  qed
  then show ?thesis using assms by blast
qed

text \<open>Every step keeps the bounds of the destination and writes only within them.\<close>

definition keeps :: "cap \<Rightarrow> memory \<Rightarrow> copy_state \<Rightarrow> bool" where
  "keeps d m st \<longleftrightarrow> same_bounds (dst st) d \<and> confined d m (mem st)"

lemma keeps_len [simp]: "keeps d m (st\<lparr>len := v\<rparr>) = keeps d m st"
  by (simp add: keeps_def)

definition kept :: "cap \<Rightarrow> memory \<Rightarrow> copy_result \<Rightarrow> bool" where
  "kept d m r \<longleftrightarrow> (\<forall>st'. r = Some (Inr st') \<longrightarrow> keeps d m st')"

lemma kept_return: "keeps d m st \<Longrightarrow> kept d m (Some (Inr st))"
  by (simp add: kept_def)

lemma kept_andthen:
  "kept d m r \<Longrightarrow> (\<And>st. keeps d m st \<Longrightarrow> kept d m (f st)) \<Longrightarrow> kept d m (andthen r f)"
  by (auto simp: kept_def andthen_def split: option.splits sum.splits)

lemma kept_move: "keeps d m st \<Longrightarrow> kept d m (move t st)"
  by (auto simp: move_def kept_def keeps_def split: sum.splits
      dest!: increment_bounds intro: same_bounds_trans)

lemma kept_loop:
  assumes k: "keeps d m st" and "cap_wf d"
  shows "kept d m (loop w i final inc st)"
proof -
  have b: "same_bounds (dst st) d" and c: "confined d m (mem st)" using k by (simp_all add: keeps_def)
  have wf: "cap_wf (dst st)" using b assms(2) by (simp add: cap_wf_def same_bounds_def)
  have step: "confined d m m2"
    if "copy_at w (dst st) (src st) t m1 = Inr m2" "confined d m m1" for t m1 m2
    using copy_at_confined [OF that(1) wf] confined_same [OF b] confined_trans [OF that(2)] by simp
  have "confined d m m'"
    if "MIPSLOOP i final (copy_at w (dst st) (src st)) inc (mem st) = Some (Inr m')" for m'
    using do_loop_keeps [where P = "confined d m", OF step that [unfolded MIPSLOOP_def] c] .
  then show ?thesis
    using b by (auto simp: kept_def keeps_def loop_def split: option.splits sum.splits)
qed

lemma kept_block:
  assumes "keeps d m st" and "cap_wf d"
  shows "kept d m (forward_block w t st)" and "kept d m (backward_block w t st)"
  unfolding forward_block_def backward_block_def using assms
  by (simp_all add: kept_andthen kept_move kept_loop)

lemmas step_defs =
  forward_align_word_def forward_align_ptr_def forward_ptrs_def forward_tail_def
  backward_align_word_def backward_align_ptr_def backward_ptrs_def backward_tail_def

lemma kept_steps:
  assumes "keeps d m st" and "cap_wf d"
  shows "kept d m (forward_align_word st)" "kept d m (forward_align_ptr st)"
    "kept d m (forward_ptrs st)" "kept d m (forward_tail st)"
    "kept d m (backward_align_word st)" "kept d m (backward_align_ptr st)"
    "kept d m (backward_ptrs st)" "kept d m (backward_tail st)"
  unfolding step_defs Let_def using assms by (simp_all add: kept_block kept_return)

lemma kept_directions:
  assumes "keeps d m st" and "cap_wf d"
  shows "kept d m (copy_forward st)" "kept d m (copy_backward st)"
  unfolding copy_forward_def copy_backward_def using assms
  by (simp_all add: kept_andthen kept_move kept_steps)

lemma copy_body_confined:
  assumes "copy_body h d s n m = Some (Inr m')" and "cap_wf d"
  shows "confined d m m'"
proof -
  let ?st = "\<lparr>dst = d, src = s, len = n, mem = m\<rparr>"
  have k: "keeps d m ?st" by (simp add: keeps_def same_bounds_def)
  define r where "r = (if cap_less d s \<or> \<not> h then copy_forward ?st else copy_backward ?st)"
  have r: "map_option (map_sum id mem) r = Some (Inr m')"
    using assms(1) by (simp only: copy_body_def r_def Let_def)
  have "r = copy_forward ?st \<or> r = copy_backward ?st" by (simp add: r_def)
  then have "kept d m r" using kept_directions [OF k assms(2)] by metis
  moreover obtain y where y: "r = Some y" "map_sum id mem y = Inr m'" using r by blast
  moreover obtain st' where "y = Inr st'" "m' = mem st'" using y(2) by (cases y) auto
  ultimately show ?thesis by (simp add: kept_def keeps_def)
qed

lemma returning_elim: "returning p x = Some (Inr (r, m)) \<Longrightarrow> x = Some (Inr m) \<and> r = p"
  by (cases x; cases "the x") (auto simp: returning_def)

text \<open>
  A call with a well-formed destination that returns has changed no byte outside the bounds of the
  destination capability, whatever the other operands are.
\<close>

theorem copies_confined:
  assumes "cap_wf d" and "memmove_c d s n m = Some (Inr (r, m')) \<or> cmemcpy_c d s n m = Some (Inr (r, m'))"
  shows "r = d \<and> (\<forall>x. bytes m' x \<noteq> bytes m x \<longrightarrow> in_region x (cap_base d) (unat (cap_length d)))"
proof -
  obtain h where "copy_c h d s n m = Some (Inr m')" "r = d"
    using assms(2) returning_elim unfolding memmove_c_def cmemcpy_c_def by metis
  then have "r = d" "confined d m m'"
    using copy_body_confined [OF _ assms(1)] by (auto simp: copy_c_def split: if_splits)
  then show ?thesis by (simp add: confined_def)
qed

theorem copies_confined_witness:
  "\<exists>m'. memmove_c (object_cap 4096 96) (object_cap 4099 90) 90 (\<lparr>bytes = \<lambda>x. ucast x, tags = \<lambda>_. True\<rparr>) =
       Some (Inr (object_cap 4096 96, m')) \<and> bytes m' 4192 = ucast (4192 :: u64)"
proof -
  let ?m = "\<lparr>bytes = \<lambda>x. ucast x, tags = \<lambda>_. True\<rparr>"
  obtain m' where m': "memmove_c (object_cap 4096 96) (object_cap 4099 90) 90 ?m =
      Some (Inr (object_cap 4096 96, m'))"
    using copy_c_moved [of "object_cap 4096 96" 90 "object_cap 4099 90" True ?m]
    by (auto simp: memmove_c_def object_cap_covers)
  moreover have "cap_wf (object_cap 4096 96)" by (simp add: object_cap_def cap_wf_def)
  ultimately have "bytes m' 4192 \<noteq> bytes ?m 4192 \<Longrightarrow> in_region 4192 4096 96"
    using copies_confined [of "object_cap 4096 96" "object_cap 4099 90" 90 ?m "object_cap 4096 96" m']
    by (auto simp: object_cap_def)
  then show ?thesis using m' by (auto simp: in_region_def)
qed

end
