(* ===== verification/CopyTest.thy ===== *)
theory CopyTest
  imports MemCopyProps
begin

text \<open>
  The tests of the copying routines: \<open>cheri-c-tests/libc/libc_memcpy.c\<close>, \<open>libc_memmove.c\<close> and
  \<open>cheri-c-tests/clang-hybrid/clang_hybrid_memcpy.c\<close>, \<open>clang_hybrid_memmove.c\<close> and
  \<open>clang_hybrid_bcopy.c\<close>. Each is the list of its statements; the routine under test and the
  addresses of the local variables are arguments.
\<close>

section \<open>Statements\<close>

text \<open>A test stops at a fault, at a failed assertion, or in a call that does not return.\<close>

datatype test_error = Fault cheri_fault | Failed | Hangs

type_synonym stmt = "memory \<Rightarrow> test_error + memory"

fun run :: "stmt list \<Rightarrow> memory \<Rightarrow> test_error + memory" where
  "run [] m = Inr m"
| "run (s # ss) m = (case s m of Inl e \<Rightarrow> Inl e | Inr m' \<Rightarrow> run ss m')"

text \<open>The element \<open>k\<close> bytes into the object a pointer designates.\<close>

definition ptr_add :: "cap \<Rightarrow> u64 \<Rightarrow> cap" where
  "ptr_add c k = c\<lparr>cap_offset := cap_offset c + k\<rparr>"

definition put_byte :: "cap \<Rightarrow> u64 \<Rightarrow> u8 \<Rightarrow> stmt" where
  "put_byte c k v m =
     (case access_check (ptr_add c k) PERM_STORE Store_fault 1 of
        Some e \<Rightarrow> Inl (Fault e)
      | None \<Rightarrow> Inr (write_byte (cap_addr (ptr_add c k)) v m))"

definition put_pointer :: "cap \<Rightarrow> u64 \<Rightarrow> cap \<Rightarrow> stmt" where
  "put_pointer c k v m = map_sum Fault id (store_cap (ptr_add c k) v m)"

text \<open>\<open>assert\<close> of a \<open>char\<close> against an integer.\<close>

definition assert_byte :: "cap \<Rightarrow> u64 \<Rightarrow> int \<Rightarrow> stmt" where
  "assert_byte c k v m =
     (case load_byte (ptr_add c k) m of
        Inl e \<Rightarrow> Inl (Fault e)
      | Inr b \<Rightarrow> if sint b = v then Inr m else Inl Failed)"

definition assert_pointer :: "cap \<Rightarrow> u64 \<Rightarrow> (cap \<Rightarrow> bool) \<Rightarrow> stmt" where
  "assert_pointer c k P m =
     (case load_cap (ptr_add c k) m of
        Inl e \<Rightarrow> Inl (Fault e)
      | Inr p \<Rightarrow> if P p then Inr m else Inl Failed)"

section \<open>The two ABIs\<close>

text \<open>
  What a pointer is differs: a capability in the purecap tests, an address under the default data
  capability in the hybrid ones. \<open>same_pointer\<close> is the comparison of the capability in the
  structure with a pointer to the structure.
\<close>

record 'p abi =
  as_cap :: "'p \<Rightarrow> cap"
  advance :: "'p \<Rightarrow> u64 \<Rightarrow> 'p"
  same_pointer :: "cap \<Rightarrow> 'p \<Rightarrow> bool"
  equal_pointers :: "'p \<Rightarrow> 'p \<Rightarrow> bool"

definition purecap :: "cap abi" where
  "purecap = \<lparr>as_cap = (\<lambda>p. p), advance = ptr_add, same_pointer = cap_eq, equal_pointers = cap_eq\<rparr>"

definition hybrid :: "cap \<Rightarrow> u64 abi" where
  "hybrid ddc = \<lparr>as_cap = to_cap ddc, advance = (+), same_pointer = (\<lambda>c p. from_cap ddc c = p),
     equal_pointers = (=)\<rparr>"

type_synonym 'p copier = "'p \<Rightarrow> 'p \<Rightarrow> u64 \<Rightarrow> memory \<Rightarrow> (cheri_fault + 'p \<times> memory) option"

section \<open>The common parts\<close>

text \<open>\<open>struct Test\<close> has \<open>pad0\<close> at 0, the capability \<open>y\<close> at 32 and \<open>pad1\<close> at 64, 96 bytes in all.\<close>

definition check :: "'p abi \<Rightarrow> 'p \<Rightarrow> nat \<Rightarrow> nat \<Rightarrow> stmt list" where
  "check A t start final =
     map (\<lambda>i. assert_byte (as_cap A t) (of_nat i) (int i)) [start..<32] @
     [assert_pointer (as_cap A t) 32 (\<lambda>y. same_pointer A y t),
      assert_pointer (as_cap A t) 32 cap_tag] @
     map (\<lambda>i. assert_byte (as_cap A t) (64 + of_nat i) (int i)) [0..<final]"

text \<open>\<open>invalidate\<close> never moves its pointer: all 96 stores go to the first byte.\<close>

definition invalidate :: "'p abi \<Rightarrow> 'p \<Rightarrow> stmt list" where
  "invalidate A t = map (\<lambda>_. put_byte (as_cap A t) 0 0xa5) [0..<96]"

definition fill_test :: "'p abi \<Rightarrow> 'p \<Rightarrow> stmt list" where
  "fill_test A t =
     concat (map (\<lambda>i. [put_byte (as_cap A t) (of_nat i) (of_nat i),
                       put_byte (as_cap A t) (64 + of_nat i) (of_nat i)]) [0..<32])"

text \<open>A call of the routine, with the assertion on the pointer it returns.\<close>

definition call_copy :: "'p abi \<Rightarrow> 'p copier \<Rightarrow> 'p \<Rightarrow> 'p \<Rightarrow> u64 \<Rightarrow> 'p \<Rightarrow> stmt" where
  "call_copy A copy d s n expected m =
     (case copy d s n m of
        None \<Rightarrow> Inl Hangs
      | Some (Inl e) \<Rightarrow> Inl (Fault e)
      | Some (Inr (p, m')) \<Rightarrow> if equal_pointers A p expected then Inr m' else Inl Failed)"

definition copy_part :: "'p abi \<Rightarrow> 'p copier \<Rightarrow> 'p \<Rightarrow> 'p \<Rightarrow> u64 \<Rightarrow> u64 \<Rightarrow> u64 \<Rightarrow> stmt" where
  "copy_part A copy t2 t1 d s n =
     call_copy A copy (advance A t2 d) (advance A t1 s) n (advance A t2 d)"

text \<open>The aligned copies: whole, with an unaligned start, an unaligned end, and both.\<close>

definition unaligned_copies :: "'p abi \<Rightarrow> 'p copier \<Rightarrow> 'p \<Rightarrow> 'p \<Rightarrow> stmt list" where
  "unaligned_copies A copy t2 t1 =
     [copy_part A copy t2 t1 3 3 93] @ check A t2 3 32 @
     [copy_part A copy t2 t1 0 0 93] @ check A t2 0 29 @
     [copy_part A copy t2 t1 3 3 90] @ check A t2 3 29 @
     invalidate A t2"

text \<open>The copy with different alignment, which must invalidate the capability.\<close>

definition shifted_copy :: "'p abi \<Rightarrow> 'p copier \<Rightarrow> 'p \<Rightarrow> 'p \<Rightarrow> stmt list" where
  "shifted_copy A copy t2 t1 =
     [copy_part A copy t2 t1 0 1 95,
      assert_pointer (as_cap A t2) 32 (\<lambda>y. \<not> cap_tag y)] @
     concat (map (\<lambda>i. [assert_byte (as_cap A t2) (of_nat i) (int i + 1),
                       assert_byte (as_cap A t2) (64 + of_nat i) (int i + 1)]) [0..<31])"

definition whole_copy :: "'p abi \<Rightarrow> 'p copier \<Rightarrow> 'p \<Rightarrow> 'p \<Rightarrow> stmt list" where
  "whole_copy A copy t2 t1 = [copy_part A copy t2 t1 0 0 96] @ check A t2 0 32 @ invalidate A t2"

section \<open>The test programs\<close>

text \<open>The first call of the \<open>memcpy\<close> tests takes its destination from the structure.\<close>

definition copy_through_y :: "'p abi \<Rightarrow> cap copier \<Rightarrow> 'p \<Rightarrow> 'p \<Rightarrow> stmt" where
  "copy_through_y A memcpy t2 t1 m =
     (case load_cap (ptr_add (as_cap A t1) 32) m of
        Inl e \<Rightarrow> Inl (Fault e)
      | Inr y \<Rightarrow>
          (case memcpy y (as_cap A t1) 96 m of
             None \<Rightarrow> Inl Hangs
           | Some (Inl e) \<Rightarrow> Inl (Fault e)
           | Some (Inr (p, m')) \<Rightarrow> if same_pointer A p t2 then Inr m' else Inl Failed))"

definition libc_memcpy :: "cap copier \<Rightarrow> cap \<Rightarrow> cap \<Rightarrow> memory \<Rightarrow> test_error + memory" where
  "libc_memcpy memcpy t1 t2 = run
     (invalidate purecap t2 @ fill_test purecap t1 @ [put_pointer t1 32 t2] @ invalidate purecap t2 @
      [copy_through_y purecap memcpy t2 t1] @ check purecap t2 0 32 @ invalidate purecap t2 @
      unaligned_copies purecap memcpy t2 t1 @ shifted_copy purecap memcpy t2 t1 @
      invalidate purecap t2 @
      whole_copy purecap memcpy t2 t1 @
      unaligned_copies purecap memcpy t2 t1 @ shifted_copy purecap memcpy t2 t1 @
      invalidate purecap t2 @
      [copy_part purecap memcpy t2 t1 3 3 90] @ check purecap t2 3 29)"

text \<open>In the hybrid tests pointers become capabilities for the calls of \<open>cmemcpy_c\<close>.\<close>

definition with_caps :: "cap \<Rightarrow> cap copier \<Rightarrow> u64 copier" where
  "with_caps ddc copy d s n m =
     map_option (map_sum id (map_prod (from_cap ddc) id)) (copy (to_cap ddc d) (to_cap ddc s) n m)"

text \<open>The result of \<open>memmove\<close> is not looked at; \<open>bcopy\<close> returns nothing.\<close>

definition from_memmove :: "u64 copier \<Rightarrow> u64 copier" where
  "from_memmove copy d s n m = map_option (map_sum id (\<lambda>(_, m'). (d, m'))) (copy d s n m)"

definition from_bcopy :: "(u64 \<Rightarrow> u64 \<Rightarrow> u64 \<Rightarrow> memory \<Rightarrow> (cheri_fault + memory) option) \<Rightarrow> u64 copier" where
  "from_bcopy copy d s n m = returning d (copy s d n m)"

definition hybrid_memcpy :: "cap copier \<Rightarrow> u64 copier \<Rightarrow> cap \<Rightarrow> u64 \<Rightarrow> u64 \<Rightarrow> memory \<Rightarrow> test_error + memory" where
  "hybrid_memcpy memcpy_c memcpy ddc t1 t2 =
     (let A = hybrid ddc; copy_c = with_caps ddc memcpy_c in run
     (invalidate A t2 @ fill_test A t1 @ [put_pointer (to_cap ddc t1) 32 (to_cap ddc t2)] @
      invalidate A t2 @
      [copy_through_y A memcpy_c t2 t1] @ check A t2 0 32 @ invalidate A t2 @
      unaligned_copies A copy_c t2 t1 @ shifted_copy A copy_c t2 t1 @
      invalidate A t2 @
      whole_copy A memcpy t2 t1 @ unaligned_copies A memcpy t2 t1 @ shifted_copy A memcpy t2 t1 @
      invalidate A t2 @
      [copy_part A copy_c t2 t1 3 3 90] @
      invalidate A t2 @
      [copy_part A copy_c (t2 - 1) (t1 - 1) 1 1 96] @ check A t2 0 32))"

text \<open>
  \<open>memmove\<close> and \<open>bcopy\<close> are also tried in the other direction; \<open>memmove\<close> with one more copy.
\<close>

definition both_directions :: "u64 copier \<Rightarrow> stmt list \<Rightarrow> cap \<Rightarrow> u64 \<Rightarrow> u64 \<Rightarrow> memory \<Rightarrow> test_error + memory" where
  "both_directions copy special ddc t1 t2 =
     (let A = hybrid ddc in run
     (invalidate A t2 @ fill_test A t1 @ [put_pointer (to_cap ddc t1) 32 (to_cap ddc t2)] @
      whole_copy A copy t2 t1 @ unaligned_copies A copy t2 t1 @ shifted_copy A copy t2 t1 @
      [copy_part A copy t2 t1 0 0 96, put_pointer (to_cap ddc t2) 32 (to_cap ddc t1)] @
      invalidate A t1 @
      whole_copy A copy t1 t2 @ unaligned_copies A copy t1 t2 @ special @ shifted_copy A copy t1 t2))"

definition hybrid_memmove :: "u64 copier \<Rightarrow> cap \<Rightarrow> u64 \<Rightarrow> u64 \<Rightarrow> memory \<Rightarrow> test_error + memory" where
  "hybrid_memmove memmove ddc t1 t2 =
     both_directions (from_memmove memmove)
       ([copy_part (hybrid ddc) (from_memmove memmove) t1 t2 12 12 80] @ check (hybrid ddc) t1 12 12)
       ddc t1 t2"

definition hybrid_bcopy ::
  "(u64 \<Rightarrow> u64 \<Rightarrow> u64 \<Rightarrow> memory \<Rightarrow> (cheri_fault + memory) option) \<Rightarrow> cap \<Rightarrow> u64 \<Rightarrow> u64 \<Rightarrow> memory \<Rightarrow> test_error + memory" where
  "hybrid_bcopy copy ddc t1 t2 = both_directions (from_bcopy copy) [] ddc t1 t2"

text \<open>\<open>libc_memmove\<close>: the last eight pointers of the array move to its front.\<close>

definition assert_pointee :: "cap \<Rightarrow> u64 \<Rightarrow> int \<Rightarrow> stmt" where
  "assert_pointee c k v m =
     (case load_cap (ptr_add c k) m of
        Inl e \<Rightarrow> Inl (Fault e)
      | Inr p \<Rightarrow> assert_byte p 0 v m)"

definition call_memmove :: "cap copier \<Rightarrow> cap \<Rightarrow> cap \<Rightarrow> u64 \<Rightarrow> stmt" where
  "call_memmove memmove d s n m =
     (case memmove d s n m of
        None \<Rightarrow> Inl Hangs | Some (Inl e) \<Rightarrow> Inl (Fault e) | Some (Inr (p, m')) \<Rightarrow> Inr m')"

definition libc_memmove :: "cap copier \<Rightarrow> cap \<Rightarrow> memory \<Rightarrow> test_error + memory" where
  "libc_memmove memmove buffer = run
     ([call_memmove memmove buffer (ptr_add buffer (2 * 32)) (320 - 2 * 32)] @
      map (\<lambda>i. assert_pointee buffer (of_nat i * 32) (48 + int i + 2)) [0..<8])"

end
