(* ===== verification/CopyTestProps.thy ===== *)
theory CopyTestProps
  imports CopyTest
begin

text \<open>
  The tests of the copying routines pass for every routine that keeps the contract of \<open>MemCopy\<close>,
  and so for the routines of \<open>memcpy.c\<close> themselves.
\<close>

section \<open>Statements that pass\<close>

definition passes :: "(memory \<Rightarrow> bool) \<Rightarrow> stmt list \<Rightarrow> (memory \<Rightarrow> bool) \<Rightarrow> bool" where
  "passes P ss Q \<longleftrightarrow> (\<forall>m. P m \<longrightarrow> (\<exists>m'. run ss m = Inr m' \<and> Q m'))"

lemma run_append: "run (xs @ ys) m = (case run xs m of Inl e \<Rightarrow> Inl e | Inr m' \<Rightarrow> run ys m')"
  by (induction xs arbitrary: m) (simp_all split: sum.split)

lemma passes_append: "passes P xs Q \<Longrightarrow> passes Q ys R \<Longrightarrow> passes P (xs @ ys) R"
  by (fastforce simp: passes_def run_append)

lemma passes_Cons: "passes P [x] Q \<Longrightarrow> passes Q xs R \<Longrightarrow> passes P (x # xs) R"
  using passes_append [of P "[x]"] by simp

lemma passes_Nil: "passes P [] P"
  by (simp add: passes_def)

lemma passes_weaken: "passes P xs Q \<Longrightarrow> (\<And>m. P' m \<Longrightarrow> P m) \<Longrightarrow> (\<And>m. Q m \<Longrightarrow> Q' m) \<Longrightarrow> passes P' xs Q'"
  by (fastforce simp: passes_def)

lemma passes_one: "(\<And>m. P m \<Longrightarrow> \<exists>m'. s m = Inr m' \<and> Q m') \<Longrightarrow> passes P [s] Q"
  by (fastforce simp: passes_def)

lemma passes_effects:
  "(\<And>s m. s \<in> set ss \<Longrightarrow> P m \<Longrightarrow> \<exists>m'. s m = Inr m' \<and> P m') \<Longrightarrow> passes P ss P"
proof (induction ss)
  case (Cons s ss)
  have "passes P [s] P" using Cons.prems by (intro passes_one) simp
  moreover have "passes P ss P" using Cons.prems by (intro Cons.IH) simp
  ultimately show ?case by (rule passes_Cons)
qed (rule passes_Nil)

lemma passes_asserts:
  "(\<And>s m. s \<in> set ss \<Longrightarrow> P m \<Longrightarrow> s m = Inr m) \<Longrightarrow> passes P ss P"
  by (rule passes_effects) blast

section \<open>Accesses\<close>

lemma covers_sub: "covers c lo n \<Longrightarrow> lo \<le> lo' \<Longrightarrow> lo' + n' \<le> lo + n \<Longrightarrow> covers c lo' n'"
  by (simp add: covers_def)

lemma ptr_add_addr [simp]: "cap_addr (ptr_add c k) = cap_addr c + k"
  by (simp add: ptr_add_def cap_addr_def)

lemma ptr_add_covers [simp]: "covers (ptr_add c k) lo n = covers c lo n"
  by (simp add: ptr_add_def)

text \<open>The pointer designates the \<open>n\<close> bytes from the address \<open>a\<close> and may use them.\<close>

definition object_at :: "cap \<Rightarrow> nat \<Rightarrow> nat \<Rightarrow> bool" where
  "object_at c a n \<longleftrightarrow> covers c a n \<and> cap_addr c = of_nat a"

lemma object_at_end: "object_at c a n \<Longrightarrow> a + n < 2 ^ 64"
  using covers_no_wrap by (auto simp: object_at_def)

lemma object_at_addr: "object_at c a n \<Longrightarrow> cap_addr (ptr_add c (of_nat k)) = of_nat (a + k)"
  by (simp add: object_at_def)

lemma object_at_element:
  assumes "object_at c a n" and "k + w \<le> n"
    and "p \<in> {PERM_LOAD, PERM_STORE, PERM_LOAD_CAPABILITY, PERM_STORE_CAPABILITY}"
  shows "access_check (ptr_add c (of_nat k)) p e w = None"
  using assms covers_check [of "ptr_add c (of_nat k)" a n k w p e] by (simp_all add: object_at_def)

lemma load_byte_at:
  assumes "object_at c a n" and "k < n"
  shows "load_byte (ptr_add c (of_nat k)) m = Inr (byte_at m (a + k))"
  using object_at_element [OF assms(1), of k 1 PERM_LOAD Load_fault] object_at_addr [OF assms(1), of k] assms(2)
  by (simp add: load_byte_def read_byte_def byte_at_def)

lemma assert_byte_at:
  assumes "object_at c a n" and "k < n" and "byte_at m (a + k) = of_nat j" and "j < 128"
  shows "assert_byte c (of_nat k) (int j) m = Inr m"
proof -
  have "sint (of_nat j :: u8) = int j"
    using assms(4) by (simp add: sint_uint unsigned_of_nat take_bit_nat_eq_self signed_take_bit_int_eq_self)
  then show ?thesis using load_byte_at [OF assms(1,2)] assms(3) by (simp add: assert_byte_def)
qed

lemma put_byte_at:
  assumes "object_at c a n" and "k < n"
  shows "put_byte c (of_nat k) v m = Inr (write_byte (of_nat (a + k)) v m)"
  using object_at_element [OF assms(1), of k 1 PERM_STORE Store_fault] object_at_addr [OF assms(1), of k] assms(2)
  by (simp add: put_byte_def)

lemma byte_at_write_byte:
  assumes "a < 2 ^ 64" and "x < 2 ^ 64"
  shows "byte_at (write_byte (of_nat a) v m) x = (if x = a then v else byte_at m x)"
  using byte_at_write_bytes [of a "[v]" x m] assms by simp

lemma tag_at_write_byte:
  assumes "a < 2 ^ 64" and "g < 2 ^ 59"
  shows "tag_at (write_byte (of_nat a) v m) g = (tag_at m g \<and> a div 32 \<noteq> g)"
  using tag_at_write_bytes [of a "[v]" g m] assms by simp

text \<open>The capability at the address \<open>a\<close>, tagged.\<close>

definition pointer_in :: "memory \<Rightarrow> nat \<Rightarrow> cap \<Rightarrow> bool" where
  "pointer_in m a v \<longleftrightarrow>
     (\<forall>i<32. byte_at m (a + i) = cap_image v ! i) \<and> tag_at m (a div 32) = cap_tag v"

lemma load_cap_at:
  assumes "object_at c a n" and "k + 32 \<le> n" and "(a + k) mod 32 = 0"
  shows "load_cap (ptr_add c (of_nat k)) m =
    Inr (image_cap (map (\<lambda>i. byte_at m (a + k + i)) [0..<32], tag_at m ((a + k) div 32)))"
proof -
  note el = object_at_element [OF assms(1,2), of PERM_LOAD_CAPABILITY Load_capability_fault]
  have lt: "a + k < 2 ^ 64" using object_at_end [OF assms(1)] assms(2) by linarith
  have "read_granule m (of_nat (a + k)) = (map (\<lambda>i. byte_at m (a + k + i)) [0..<32], tag_at m ((a + k) div 32))"
    using granule_of_nat [OF lt]
    by (simp add: read_granule_def read_bytes_def byte_at_def tag_at_def del: upt_Suc)
  then show ?thesis
    using el object_at_addr [OF assms(1), of k] assms(3) lt by (simp add: load_cap_def unat_small del: of_nat_add)
qed

lemma load_pointer_in:
  assumes "object_at c a n" and "k + 32 \<le> n" and "(a + k) mod 32 = 0" and "pointer_in m (a + k) v"
  shows "load_cap (ptr_add c (of_nat k)) m = Inr v"
proof -
  have "map (\<lambda>i. byte_at m (a + k + i)) [0..<32] = cap_image v"
    using assms(4) by (intro nth_equalityI) (simp_all add: pointer_in_def del: upt_Suc)
  then show ?thesis
    using load_cap_at [OF assms(1-3)] assms(4) by (simp add: pointer_in_def del: upt_Suc)
qed

section \<open>The structure\<close>

definition addr :: "'p abi \<Rightarrow> 'p \<Rightarrow> nat" where
  "addr A t = unat (cap_addr (as_cap A t))"

definition test_struct :: "'p abi \<Rightarrow> 'p \<Rightarrow> bool" where
  "test_struct A t \<longleftrightarrow> object_at (as_cap A t) (addr A t) 96 \<and> addr A t mod 32 = 0"

text \<open>\<open>pad0\<close> from \<open>lo\<close> on, the pointer, and \<open>pad1\<close> up to \<open>hi\<close>, as \<open>check\<close> wants them.\<close>

definition holds :: "nat \<Rightarrow> cap \<Rightarrow> nat \<Rightarrow> nat \<Rightarrow> memory \<Rightarrow> bool" where
  "holds a v lo hi m \<longleftrightarrow>
     (\<forall>i. lo \<le> i \<longrightarrow> i < 32 \<longrightarrow> byte_at m (a + i) = of_nat i) \<and> pointer_in m (a + 32) v \<and>
     (\<forall>i<hi. byte_at m (a + 64 + i) = of_nat i)"

lemma check_passes:
  assumes t: "test_struct A t" and v: "same_pointer A v t" "cap_tag v" and hi: "hi \<le> 32"
    and P: "\<And>m. P m \<Longrightarrow> holds (addr A t) v lo hi m"
  shows "passes P (check A t lo hi) P"
  unfolding check_def
proof (intro passes_asserts)
  fix s m
  assume s: "s \<in> set (map (\<lambda>i. assert_byte (as_cap A t) (of_nat i) (int i)) [lo..<32] @
      [assert_pointer (as_cap A t) 32 (\<lambda>y. same_pointer A y t), assert_pointer (as_cap A t) 32 cap_tag] @
      map (\<lambda>i. assert_byte (as_cap A t) (64 + of_nat i) (int i)) [0..<hi])" and "P m"
  from P [OF \<open>P m\<close>] have h: "holds (addr A t) v lo hi m" .
  have ob: "object_at (as_cap A t) (addr A t) 96" and al: "addr A t mod 32 = 0"
    using t by (simp_all add: test_struct_def)
  have y: "load_cap (ptr_add (as_cap A t) 32) m = Inr v"
    using load_pointer_in [OF ob, of 32 m v] h al by (simp add: holds_def)
  consider i where "lo \<le> i" "i < 32" "s = assert_byte (as_cap A t) (of_nat i) (int i)"
    | "s = assert_pointer (as_cap A t) 32 (\<lambda>y. same_pointer A y t)"
    | "s = assert_pointer (as_cap A t) 32 cap_tag"
    | i where "i < hi" "s = assert_byte (as_cap A t) (64 + of_nat i) (int i)"
    using s by auto
  then show "s m = Inr m"
  proof cases
    case 1
    then show ?thesis using assert_byte_at [OF ob, of i m i] h by (simp add: holds_def)
  next
    case 4
    then show ?thesis
      using assert_byte_at [OF ob, of "64 + i" m i] h hi by (simp add: holds_def add.assoc)
  qed (simp_all add: assert_pointer_def y v)
qed

text \<open>Stores into the structure at \<open>b\<close> do not touch the one at \<open>a\<close>.\<close>

definition apart :: "nat \<Rightarrow> nat \<Rightarrow> bool" where
  "apart a b \<longleftrightarrow> a + 96 \<le> b \<or> b + 96 \<le> a"

lemma granule_apart:
  assumes "a mod 32 = 0" "b mod 32 = 0" "apart a b" "i < 96" "j < 96"
  shows "(a + i) div 32 \<noteq> (b + j) div 32"
proof -
  obtain p where "a = 32 * p" using assms(1) by auto
  moreover obtain q where "b = 32 * q" using assms(2) by auto
  ultimately show ?thesis using assms(3-5) by (auto simp: apart_def)
qed

lemma holds_same:
  assumes "holds a v lo hi m" and "hi \<le> 32" and "a mod 32 = 0"
    and "\<And>i. i < 96 \<Longrightarrow> byte_at m' (a + i) = byte_at m (a + i)"
    and "tag_at m' ((a + 32) div 32) = tag_at m ((a + 32) div 32)"
  shows "holds a v lo hi m'"
proof -
  have "byte_at m' (a + i) = byte_at m (a + i)" "byte_at m' (a + 32 + i) = byte_at m (a + 32 + i)"
    "byte_at m' (a + 64 + i) = byte_at m (a + 64 + i)" if "i < 32" for i
    using that assms(4) [of i] assms(4) [of "32 + i"] assms(4) [of "64 + i"] by (simp_all add: add.assoc)
  then show ?thesis using assms(1,2,5) by (auto simp: holds_def pointer_in_def)
qed

lemma invalidate_passes:
  assumes t: "test_struct A t" and a: "a mod 32 = 0" "apart a (addr A t)" "a + 96 < 2 ^ 64" and "hi \<le> 32"
  shows "passes (holds a v lo hi) (invalidate A t) (holds a v lo hi)"
  unfolding invalidate_def
proof (intro passes_effects)
  fix s m
  assume s: "s \<in> set (map (\<lambda>_. put_byte (as_cap A t) 0 0xa5) [0..<96])" and h: "holds a v lo hi m"
  have ob: "object_at (as_cap A t) (addr A t) 96" and al: "addr A t mod 32 = 0"
    using t by (simp_all add: test_struct_def)
  have lt: "addr A t < 2 ^ 64" using object_at_end [OF ob] by simp
  let ?m = "write_byte (of_nat (addr A t)) 0xa5 m"
  have "s m = Inr ?m" using s put_byte_at [OF ob, of 0 "0xa5" m] by auto
  moreover have "holds a v lo hi ?m"
  proof (rule holds_same [OF h \<open>hi \<le> 32\<close> a(1)])
    fix i :: nat assume "i < 96"
    then show "byte_at ?m (a + i) = byte_at m (a + i)"
      using a(2,3) byte_at_write_byte [OF lt, of "a + i"] by (auto simp: apart_def)
  next
    have "(a + 32) div 32 < 2 ^ 59" using a(3) by simp
    moreover have "addr A t div 32 \<noteq> (a + 32) div 32"
      using granule_apart [OF a(1) al a(2), of 32 0] by simp
    ultimately show "tag_at ?m ((a + 32) div 32) = tag_at m ((a + 32) div 32)"
      using tag_at_write_byte [OF lt, of "(a + 32) div 32"] by simp
  qed
  ultimately show "\<exists>m'. s m = Inr m' \<and> holds a v lo hi m'" by blast
qed

lemma fill_passes:
  assumes t: "test_struct A t"
  shows "passes (\<lambda>_. True) (fill_test A t)
    (\<lambda>m. \<forall>i<32. byte_at m (addr A t + i) = of_nat i \<and> byte_at m (addr A t + 64 + i) = of_nat i)"
proof -
  have ob: "object_at (as_cap A t) (addr A t) 96" using t by (simp add: test_struct_def)
  note nw = object_at_end [OF ob]
  let ?a = "addr A t"
  let ?Q = "\<lambda>k m. \<forall>i<k. byte_at m (?a + i) = of_nat i \<and> byte_at m (?a + 64 + i) = of_nat i"
  let ?ss = "\<lambda>i. [put_byte (as_cap A t) (of_nat i) (of_nat i), put_byte (as_cap A t) (64 + of_nat i) (of_nat i)]"
  have step: "passes (?Q k) (?ss k) (?Q (Suc k))" if k: "k < 32" for k
    unfolding passes_def
  proof (intro allI impI)
    fix m assume Q: "?Q k m"
    let ?m = "write_byte (of_nat (?a + (64 + k))) (of_nat k) (write_byte (of_nat (?a + k)) (of_nat k) m)"
    have "run (?ss k) m = Inr ?m"
      using put_byte_at [OF ob, of k] put_byte_at [OF ob, of "64 + k"] k by simp
    moreover have "?Q (Suc k) ?m"
      using Q k nw by (auto simp: byte_at_write_byte less_Suc_eq simp del: of_nat_add)
    ultimately show "\<exists>m'. run (?ss k) m = Inr m' \<and> ?Q (Suc k) m'" by blast
  qed
  have "passes (\<lambda>_. True) (concat (map ?ss [0..<k])) (?Q k)" if "k \<le> 32" for k
    using that
  proof (induction k)
    case (Suc k)
    then have "passes (\<lambda>_. True) (concat (map ?ss [0..<k]) @ ?ss k) (?Q (Suc k))"
      by (intro passes_append [OF Suc.IH step]) simp_all
    then show ?case by simp
  qed (simp add: passes_def)
  from this [of 32] show ?thesis by (simp add: fill_test_def)
qed

lemma put_pointer_passes:
  assumes t: "test_struct A t"
  shows "passes (\<lambda>m. \<forall>i<32. byte_at m (addr A t + i) = of_nat i \<and> byte_at m (addr A t + 64 + i) = of_nat i)
    [put_pointer (as_cap A t) 32 v] (holds (addr A t) v 0 32)"
proof (rule passes_one)
  let ?a = "addr A t"
  fix m assume Q: "\<forall>i<32. byte_at m (?a + i) = of_nat i \<and> byte_at m (?a + 64 + i) = of_nat i"
  have ob: "object_at (as_cap A t) ?a 96" and al: "?a mod 32 = 0"
    using t by (simp_all add: test_struct_def)
  note nw = object_at_end [OF ob]
  have lt: "?a + 32 < 2 ^ 64" using nw by simp
  define m2 where "m2 = write_granule (of_nat (?a + 32)) (cap_image v, cap_tag v) m"
  have "put_pointer (as_cap A t) 32 v m = Inr m2"
    using object_at_element [OF ob, of 32 32 PERM_STORE_CAPABILITY Store_capability_fault]
      object_at_addr [OF ob, of 32] al lt
    by (simp add: m2_def put_pointer_def store_cap_def unat_small del: of_nat_add)
  moreover have b: "byte_at m2 x = (if ?a + 32 \<le> x \<and> x < ?a + 64 then cap_image v ! (x - (?a + 32)) else byte_at m x)"
    if "x < 2 ^ 64" for x
  proof -
    have "cap_image v \<noteq> []" by (metis length_cap_image list.size(3) zero_neq_numeral)
    then show ?thesis
      using byte_at_write_bytes [of "?a + 32" "cap_image v" x m] nw that
      by (simp add: m2_def write_granule_bytes add.assoc del: of_nat_add)
  qed
  have tg: "tag_at m2 ((?a + 32) div 32) = cap_tag v"
    using write_granule_tag [OF lt, of "(?a + 32) div 32"] lt by (simp add: m2_def del: of_nat_add)
  ultimately show "\<exists>m'. put_pointer (as_cap A t) 32 v m = Inr m' \<and> holds ?a v 0 32 m'"
    using Q nw tg b by (auto simp: holds_def pointer_in_def add.assoc)
qed

section \<open>Copies between the structures\<close>

text \<open>\<open>moved\<close> by numbers, between two structures.\<close>

definition copied_part :: "nat \<Rightarrow> nat \<Rightarrow> nat \<Rightarrow> nat \<Rightarrow> nat \<Rightarrow> memory \<Rightarrow> memory \<Rightarrow> bool" where
  "copied_part b d a s n m m' \<longleftrightarrow>
     moved (of_nat (b + d)) (of_nat (a + s)) (of_nat n) m m' \<and> 0 < n \<and> d + n \<le> 96 \<and> s + n \<le> 96"

definition two_structs :: "nat \<Rightarrow> nat \<Rightarrow> bool" where
  "two_structs a b \<longleftrightarrow> a mod 32 = 0 \<and> b mod 32 = 0 \<and> apart a b \<and> a + 96 < 2 ^ 64 \<and> b + 96 < 2 ^ 64"

lemma copied_part_facts:
  assumes c: "copied_part b d a s n m m'" and ab: "two_structs a b"
  shows "x < 2 ^ 64 \<Longrightarrow> byte_at m' x =
      (if b + d \<le> x \<and> x < b + d + n then byte_at m (x - (b + d) + (a + s)) else byte_at m x)" (is "_ \<Longrightarrow> ?B")
    and "g < 2 ^ 59 \<Longrightarrow> tag_at m' g =
      (if 32 * g + 32 \<le> b + d \<or> b + d + n \<le> 32 * g then tag_at m g
       else (b + d) mod 32 = (a + s) mod 32 \<and> b + d \<le> 32 * g \<and> 32 * g + 32 \<le> b + d + n \<and>
         tag_at m ((32 * g - (b + d) + (a + s)) div 32))" (is "_ \<Longrightarrow> ?T")
proof -
  from c ab have b: "b + d < 2 ^ 64" "a + s < 2 ^ 64" "n < 2 ^ 64" "0 < n" "b + d \<noteq> a + s"
    by (auto simp: copied_part_def two_structs_def apart_def)
  then have u: "unat (of_nat (b + d) :: u64) = b + d" "unat (of_nat (a + s) :: u64) = a + s"
    "unat (of_nat n :: u64) = n" by (simp_all only: unat_small)
  then have ne: "\<not> ((of_nat n :: u64) = 0 \<or> (of_nat (b + d) :: u64) = of_nat (a + s))"
    using b by (metis less_numeral_extra(3) unat_0)
  have "moved (of_nat (b + d)) (of_nat (a + s)) (of_nat n) m m'" using c by (simp add: copied_part_def)
  then show "x < 2 ^ 64 \<Longrightarrow> ?B" and "g < 2 ^ 59 \<Longrightarrow> ?T"
    unfolding moved_def if_not_P [OF ne] u by blast+
qed

lemma source_kept:
  assumes h: "holds a v 0 32 m" and c: "copied_part b d a s n m m'" and ab: "two_structs a b"
  shows "holds a v 0 32 m'"
proof (rule holds_same [OF h order_refl])
  show "a mod 32 = 0" using ab by (simp add: two_structs_def)
next
  fix i :: nat assume "i < 96"
  then show "byte_at m' (a + i) = byte_at m (a + i)"
    using copied_part_facts(1) [OF c ab, of "a + i"] c ab
    by (auto simp: copied_part_def two_structs_def apart_def)
next
  obtain p where p: "a = 32 * p" using ab by (auto simp: two_structs_def)
  have g: "(a + 32) div 32 = p + 1" by (simp add: p)
  have "32 * (p + 1) + 32 \<le> b + d \<or> b + d + n \<le> 32 * (p + 1)"
    using c ab p by (auto simp: copied_part_def two_structs_def apart_def)
  moreover have "p + 1 < 2 ^ 59" using ab p by (simp add: two_structs_def)
  ultimately show "tag_at m' ((a + 32) div 32) = tag_at m ((a + 32) div 32)"
    unfolding g using copied_part_facts(2) [OF c ab, of "p + 1"] by (simp only: if_True)
qed

lemma aligned_copy_holds:
  assumes h: "holds a v 0 32 m" and c: "copied_part b d a d n m m'" and ab: "two_structs a b"
    and d: "d \<le> 32" "64 \<le> d + n"
  shows "holds b v d (d + n - 64) m'"
proof -
  have n: "d + n \<le> 96" using c by (simp add: copied_part_def)
  have "byte_at m' (b + i) = byte_at m (a + i)" if "d \<le> i" "i < d + n" for i
  proof -
    have "b + i < 2 ^ 64" using that n ab by (simp add: two_structs_def)
    moreover have "b + i - (b + d) + (a + d) = a + i" using that by simp
    ultimately show ?thesis using copied_part_facts(1) [OF c ab, of "b + i"] that by (simp add: add.commute)
  qed
  note moved_byte = this
  have "byte_at m' (b + i) = byte_at m (a + i)" if "d \<le> i" "i < 32" for i
    using moved_byte [of i] that d by simp
  moreover have "byte_at m' (b + 32 + i) = byte_at m (a + 32 + i)" if "i < 32" for i
    using moved_byte [of "32 + i"] that d by (simp add: add.assoc)
  moreover have "byte_at m' (b + 64 + i) = byte_at m (a + 64 + i)" if "i < d + n - 64" for i
    using moved_byte [of "64 + i"] that d by (simp add: add.assoc)
  moreover have "tag_at m' ((b + 32) div 32) = tag_at m ((a + 32) div 32)"
  proof -
    obtain p where p: "a = 32 * p" using ab by (auto simp: two_structs_def)
    obtain q where q: "b = 32 * q" using ab by (auto simp: two_structs_def)
    have g: "(b + 32) div 32 = q + 1" "q + 1 < 2 ^ 59" using ab by (simp_all add: q two_structs_def)
    have "\<not> (32 * (q + 1) + 32 \<le> b + d \<or> b + d + n \<le> 32 * (q + 1))"
      "b + d \<le> 32 * (q + 1)" "32 * (q + 1) + 32 \<le> b + d + n"
      using d q by auto
    moreover have "(b + d) mod 32 = (a + d) mod 32" by (simp add: p q)
    moreover have "(32 * (q + 1) - (b + d) + (a + d)) div 32 = (a + 32) div 32"
    proof -
      have "32 * (q + 1) - (b + d) + (a + d) = a + 32" using d q by simp
      then show ?thesis by simp
    qed
    ultimately show ?thesis
      unfolding g(1) using copied_part_facts(2) [OF c ab g(2)] by (simp only: if_False simp_thms)
  qed
  ultimately show ?thesis using h d n by (auto simp: holds_def pointer_in_def)
qed

text \<open>What the last copy of a round leaves.\<close>

definition shifted :: "nat \<Rightarrow> memory \<Rightarrow> bool" where
  "shifted b m \<longleftrightarrow> \<not> tag_at m ((b + 32) div 32) \<and>
     (\<forall>i<31. byte_at m (b + i) = of_nat (i + 1) \<and> byte_at m (b + 64 + i) = of_nat (i + 1))"

lemma shifted_copy_shifts:
  assumes h: "holds a v 0 32 m" and c: "copied_part b 0 a 1 95 m m'" and ab: "two_structs a b"
  shows "shifted b m'"
proof -
  have "byte_at m' (b + i) = byte_at m (a + (i + 1))" if "i < 95" for i
  proof -
    have "b + i < 2 ^ 64" using that ab by (simp add: two_structs_def)
    moreover have "b + i - b + (a + 1) = a + (i + 1)" by simp
    ultimately show ?thesis using copied_part_facts(1) [OF c ab, of "b + i"] that by (simp add: add.commute)
  qed
  then have "byte_at m' (b + i) = byte_at m (a + (i + 1))"
    "byte_at m' (b + 64 + i) = byte_at m (a + 64 + (i + 1))" if "i < 31" for i
    using that by (simp_all add: add.assoc)
  moreover have src: "byte_at m (a + j) = of_nat j" "byte_at m (a + 64 + j) = of_nat j" if "j < 32" for j
    using h that by (simp_all add: holds_def)
  have "byte_at m (a + (i + 1)) = of_nat (i + 1)" "byte_at m (a + 64 + (i + 1)) = of_nat (i + 1)"
    if "i < 31" for i
    by (rule src, use that in simp)+
  moreover have "\<not> tag_at m' ((b + 32) div 32)"
  proof -
    obtain p where p: "a = 32 * p" using ab by (auto simp: two_structs_def)
    obtain q where q: "b = 32 * q" using ab by (auto simp: two_structs_def)
    have "(b + 32) div 32 = q + 1" "q + 1 < 2 ^ 59" using ab by (simp_all add: q two_structs_def)
    moreover have "\<not> (32 * (q + 1) + 32 \<le> b + 0 \<or> b + 0 + 95 \<le> 32 * (q + 1))" using q by simp
    moreover have "(b + 0) mod 32 \<noteq> (a + 1) mod 32" by (simp add: p q)
    ultimately show ?thesis
      using copied_part_facts(2) [OF c ab, of "q + 1"] by (simp only: if_False simp_thms)
  qed
  ultimately show ?thesis by (simp add: shifted_def)
qed

section \<open>The contract of the routine under test\<close>

locale pointer_abi =
  fixes A :: "'p abi"
  assumes advance_cap: "object_at (as_cap A p) (addr A p) n \<Longrightarrow> unat k < n \<Longrightarrow>
      as_cap A (advance A p k) = ptr_add (as_cap A p) k"
    and equal_refl: "equal_pointers A p p"
    and same_refl: "usable (as_cap A p) \<Longrightarrow> same_pointer A (as_cap A p) p"
begin

lemma struct_usable: "test_struct A t \<Longrightarrow> usable (as_cap A t)"
  by (auto simp: test_struct_def object_at_def dest: covers_usable)

lemma advance_object:
  assumes "test_struct A t" and "d + n \<le> 96" and "0 < n"
  shows "object_at (as_cap A (advance A t (of_nat d))) (addr A t + d) n"
proof -
  have ob: "object_at (as_cap A t) (addr A t) 96" using assms(1) by (simp add: test_struct_def)
  have "unat (of_nat d :: u64) < 96" using assms(2,3) by (simp add: unat_of_nat)
  then have "as_cap A (advance A t (of_nat d)) = ptr_add (as_cap A t) (of_nat d)"
    by (rule advance_cap [OF ob])
  then show ?thesis
    using ob assms(2) covers_sub [of "as_cap A t" "addr A t" 96 "addr A t + d" n]
    by (simp add: object_at_def)
qed

end

text \<open>
  A routine copies when, on pointers to two regions apart from each other, it returns its
  destination and leaves what \<open>moved\<close> says.
\<close>

locale tested_copy = pointer_abi +
  fixes copy :: "'a copier"
  assumes copies: "object_at (as_cap A d) a (unat n) \<Longrightarrow> object_at (as_cap A s) b (unat n) \<Longrightarrow>
      a + unat n \<le> b \<or> b + unat n \<le> a \<Longrightarrow>
      \<exists>m'. copy d s n m = Some (Inr (d, m')) \<and> moved (of_nat a) (of_nat b) n m m'"
begin

lemma copy_part_passes:
  assumes t1: "test_struct A t1" and t2: "test_struct A t2" and ap: "apart (addr A t1) (addr A t2)"
    and n: "0 < n" "d + n \<le> 96" "s + n \<le> 96"
    and Q: "\<And>m m'. P m \<Longrightarrow> copied_part (addr A t2) d (addr A t1) s n m m' \<Longrightarrow> Q m'"
  shows "passes P [copy_part A copy t2 t1 (of_nat d) (of_nat s) (of_nat n)] Q"
proof (rule passes_one)
  fix m assume "P m"
  let ?a = "addr A t1" and ?b = "addr A t2"
  have nn: "unat (of_nat n :: u64) = n" using n by (intro unat_small) simp
  have ob: "object_at (as_cap A (advance A t2 (of_nat d))) (?b + d) (unat (of_nat n :: u64))"
    "object_at (as_cap A (advance A t1 (of_nat s))) (?a + s) (unat (of_nat n :: u64))"
    unfolding nn using advance_object t1 t2 n by blast+
  have "?b + d + unat (of_nat n :: u64) \<le> ?a + s \<or> ?a + s + unat (of_nat n :: u64) \<le> ?b + d"
    unfolding nn using ap n by (auto simp: apart_def)
  then obtain m' where "copy (advance A t2 (of_nat d)) (advance A t1 (of_nat s)) (of_nat n) m =
      Some (Inr (advance A t2 (of_nat d), m'))" "moved (of_nat (?b + d)) (of_nat (?a + s)) (of_nat n) m m'"
    using copies [OF ob] by blast
  then show "\<exists>m'. copy_part A copy t2 t1 (of_nat d) (of_nat s) (of_nat n) m = Inr m' \<and> Q m'"
    using Q [OF \<open>P m\<close>] n by (auto simp: copy_part_def call_copy_def equal_refl copied_part_def)
qed

lemma aligned_part_passes:
  assumes t1: "test_struct A t1" and t2: "test_struct A t2" and ap: "apart (addr A t1) (addr A t2)"
    and d: "d \<le> 32" "64 \<le> d + n" "d + n \<le> 96" and v: "same_pointer A v t2" "cap_tag v"
  shows "passes (holds (addr A t1) v 0 32)
    ([copy_part A copy t2 t1 (of_nat d) (of_nat d) (of_nat n)] @ check A t2 d (d + n - 64))
    (\<lambda>m. holds (addr A t1) v 0 32 m \<and> holds (addr A t2) v d (d + n - 64) m)"
proof (rule passes_append)
  have ts: "two_structs (addr A t1) (addr A t2)"
    using t1 t2 ap object_at_end [of "as_cap A t1" "addr A t1" 96]
      object_at_end [of "as_cap A t2" "addr A t2" 96]
    by (simp add: two_structs_def test_struct_def)
  have n: "0 < n" using d(1,2) by simp
  show "passes (holds (addr A t1) v 0 32)
      [copy_part A copy t2 t1 (of_nat d) (of_nat d) (of_nat n)]
      (\<lambda>m. holds (addr A t1) v 0 32 m \<and> holds (addr A t2) v d (d + n - 64) m)"
    using source_kept [OF _ _ ts] aligned_copy_holds [OF _ _ ts d(1,2)]
    by (intro copy_part_passes [OF t1 t2 ap n d(3,3)]) blast
  show "passes (\<lambda>m. holds (addr A t1) v 0 32 m \<and> holds (addr A t2) v d (d + n - 64) m)
      (check A t2 d (d + n - 64)) (\<lambda>m. holds (addr A t1) v 0 32 m \<and> holds (addr A t2) v d (d + n - 64) m)"
    using d(3) by (intro check_passes [OF t2 v]) auto
qed

end

lemma shifted_asserts_pass:
  assumes t: "test_struct A t" and P: "\<And>m. P m \<Longrightarrow> shifted (addr A t) m"
  shows "passes P ([assert_pointer (as_cap A t) 32 (\<lambda>y. \<not> cap_tag y)] @
      concat (map (\<lambda>i. [assert_byte (as_cap A t) (of_nat i) (int i + 1),
                        assert_byte (as_cap A t) (64 + of_nat i) (int i + 1)]) [0..<31])) P"
proof (rule passes_asserts)
  fix s m
  assume s: "s \<in> set ([assert_pointer (as_cap A t) 32 (\<lambda>y. \<not> cap_tag y)] @
      concat (map (\<lambda>i. [assert_byte (as_cap A t) (of_nat i) (int i + 1),
                        assert_byte (as_cap A t) (64 + of_nat i) (int i + 1)]) [0..<31]))" and "P m"
  from P [OF \<open>P m\<close>] have h: "shifted (addr A t) m" .
  have ob: "object_at (as_cap A t) (addr A t) 96" and al: "addr A t mod 32 = 0"
    using t by (simp_all add: test_struct_def)
  consider "s = assert_pointer (as_cap A t) 32 (\<lambda>y. \<not> cap_tag y)"
    | i where "i < 31" "s = assert_byte (as_cap A t) (of_nat i) (int (i + 1))"
    | i where "i < 31" "s = assert_byte (as_cap A t) (of_nat (64 + i)) (int (i + 1))"
    using s by (auto simp: add.commute)
  then show "s m = Inr m"
  proof cases
    case 1
    have "\<not> tag_at m ((addr A t + 32) div 32)" using h by (simp add: shifted_def)
    then show ?thesis
      using load_cap_at [OF ob, of 32 m] al 1
      by (simp add: assert_pointer_def image_cap_def Let_def del: upt_Suc)
  next
    case 2
    then show ?thesis
      using assert_byte_at [OF ob, of i m "i + 1"] h by (simp add: shifted_def del: of_nat_Suc)
  next
    case 3
    then show ?thesis
      using assert_byte_at [OF ob, of "64 + i" m "i + 1"] h
      by (simp add: shifted_def add.assoc del: of_nat_Suc of_nat_add)
  qed
qed

context tested_copy begin

lemma whole_copy_passes:
  assumes t1: "test_struct A t1" and t2: "test_struct A t2" and ap: "apart (addr A t1) (addr A t2)"
    and v: "same_pointer A v t2" "cap_tag v"
  shows "passes (holds (addr A t1) v 0 32) (whole_copy A copy t2 t1) (holds (addr A t1) v 0 32)"
proof -
  have a: "addr A t1 mod 32 = 0" "addr A t1 + 96 < 2 ^ 64"
    using t1 object_at_end by (auto simp: test_struct_def dest: object_at_end)
  have "passes (holds (addr A t1) v 0 32) ([copy_part A copy t2 t1 0 0 96] @ check A t2 0 32)
      (\<lambda>m. holds (addr A t1) v 0 32 m \<and> holds (addr A t2) v 0 32 m)"
    using aligned_part_passes [OF t1 t2 ap _ _ _ v, of 0 96] by simp
  then have "passes (holds (addr A t1) v 0 32) ([copy_part A copy t2 t1 0 0 96] @ check A t2 0 32)
      (holds (addr A t1) v 0 32)" by (rule passes_weaken) simp_all
  from passes_append [OF this invalidate_passes [OF t2 a(1) ap a(2) order_refl]]
  show ?thesis by (simp add: whole_copy_def)
qed

lemma unaligned_copies_pass:
  assumes t1: "test_struct A t1" and t2: "test_struct A t2" and ap: "apart (addr A t1) (addr A t2)"
    and v: "same_pointer A v t2" "cap_tag v"
  shows "passes (holds (addr A t1) v 0 32) (unaligned_copies A copy t2 t1) (holds (addr A t1) v 0 32)"
proof -
  let ?P = "holds (addr A t1) v 0 32"
  have a: "addr A t1 mod 32 = 0" "addr A t1 + 96 < 2 ^ 64"
    using t1 by (auto simp: test_struct_def dest: object_at_end)
  note part = aligned_part_passes [OF t1 t2 ap _ _ _ v, THEN passes_weaken]
  have "passes ?P ([copy_part A copy t2 t1 3 3 93] @ check A t2 3 32) ?P"
    "passes ?P ([copy_part A copy t2 t1 0 0 93] @ check A t2 0 29) ?P"
    "passes ?P ([copy_part A copy t2 t1 3 3 90] @ check A t2 3 29) ?P"
    using part [of 3 93 ?P ?P] part [of 0 93 ?P ?P] part [of 3 90 ?P ?P] by simp_all
  from passes_append [OF this(1) passes_append [OF this(2) passes_append [OF this(3)
    invalidate_passes [OF t2 a(1) ap a(2) order_refl]]]]
  show ?thesis by (simp add: unaligned_copies_def)
qed

lemma shifted_copy_passes:
  assumes t1: "test_struct A t1" and t2: "test_struct A t2" and ap: "apart (addr A t1) (addr A t2)"
  shows "passes (holds (addr A t1) v 0 32) (shifted_copy A copy t2 t1) (holds (addr A t1) v 0 32)"
proof -
  let ?P = "holds (addr A t1) v 0 32"
  let ?Q = "\<lambda>m. ?P m \<and> shifted (addr A t2) m"
  have ts: "two_structs (addr A t1) (addr A t2)"
    using t1 t2 ap object_at_end [of "as_cap A t1" "addr A t1" 96]
      object_at_end [of "as_cap A t2" "addr A t2" 96]
    by (simp add: two_structs_def test_struct_def)
  have 1: "passes ?P [copy_part A copy t2 t1 (of_nat 0) (of_nat 1) (of_nat 95)] ?Q"
    using source_kept [OF _ _ ts] shifted_copy_shifts [OF _ _ ts]
    by (intro copy_part_passes [OF t1 t2 ap]) auto
  have "passes ?P ([copy_part A copy t2 t1 0 1 95] @ [assert_pointer (as_cap A t2) 32 (\<lambda>y. \<not> cap_tag y)] @
      concat (map (\<lambda>i. [assert_byte (as_cap A t2) (of_nat i) (int i + 1),
                        assert_byte (as_cap A t2) (64 + of_nat i) (int i + 1)]) [0..<31])) ?Q"
    using 1 shifted_asserts_pass [OF t2, of ?Q] by (intro passes_append [of ?P _ ?Q]) simp_all
  then have "passes ?P (shifted_copy A copy t2 t1) ?Q" by (simp add: shifted_copy_def)
  then show ?thesis by (rule passes_weaken) simp_all
qed

end

section \<open>The parts around the rounds\<close>

lemma invalidate_returns:
  assumes "test_struct A t"
  shows "passes (\<lambda>_. True) (invalidate A t) (\<lambda>_. True)"
  unfolding invalidate_def
  using assms put_byte_at [of "as_cap A t" "addr A t" 96 0]
  by (intro passes_effects) (auto simp: test_struct_def)

lemma prologue_passes:
  assumes "test_struct A t1" and "test_struct A t2"
  shows "passes (\<lambda>_. True) (invalidate A t2 @ fill_test A t1 @ [put_pointer (as_cap A t1) 32 v])
    (holds (addr A t1) v 0 32)"
  by (rule passes_append [OF invalidate_returns [OF assms(2)]
      passes_append [OF fill_passes [OF assms(1)] put_pointer_passes [OF assms(1)]]])

lemma object_addr: "object_at c a n \<Longrightarrow> unat (cap_addr c) = a"
  using object_at_end [of c a n] by (simp add: object_at_def unat_small)

lemma struct_facts:
  assumes "test_struct A t"
  shows "addr A t mod 32 = 0" and "addr A t + 96 < 2 ^ 64"
  using assms object_at_end [of "as_cap A t" "addr A t" 96] by (simp_all add: test_struct_def)

interpretation purecap_abi: pointer_abi purecap
  by unfold_locales (simp_all add: purecap_def cap_eq_def)

lemma to_cap_object:
  assumes "object_at (to_cap ddc p) a n"
  shows "p \<noteq> 0" and "a = unat (cap_base ddc) + unat p" and "covers ddc a n"
proof -
  show p: "p \<noteq> 0"
    using assms by (auto simp: object_at_def to_cap_def covers_def usable_def int_cap_def)
  then show c: "covers ddc a n" using assms by (simp add: object_at_def)
  have "unat (cap_base ddc + p) = a"
    using object_addr [OF assms] p by (simp add: to_cap_addr)
  moreover have "unat (cap_base ddc) \<le> a" using c by (simp add: covers_def)
  ultimately show "a = unat (cap_base ddc) + unat p"
    using unat_plus_simple [of "cap_base ddc" p] by (simp add: word_le_nat_alt)
qed

interpretation hybrid_abi: pointer_abi "hybrid ddc" for ddc
proof unfold_locales
  fix p n k
  assume ob: "object_at (as_cap (hybrid ddc) p) (addr (hybrid ddc) p) n" and k: "unat (k :: u64) < n"
  have ob': "object_at (to_cap ddc p) (addr (hybrid ddc) p) n" using ob by (simp add: hybrid_def)
  note f = to_cap_object [OF ob']
  have "unat p + unat k < 2 ^ 64" using object_at_end [OF ob'] f(2) k by linarith
  then have "unat (p + k) = unat p + unat k" by (simp add: unat_word_ariths)
  moreover have "unat p \<noteq> 0" using f(1) by (simp add: unat_eq_0)
  ultimately have "p + k \<noteq> 0" by auto
  then show "as_cap (hybrid ddc) (advance (hybrid ddc) p k) = ptr_add (as_cap (hybrid ddc) p) k"
    using f(1) by (simp add: hybrid_def to_cap_def ptr_add_def)
next
  fix p assume "usable (as_cap (hybrid ddc) p)"
  then show "same_pointer (hybrid ddc) (as_cap (hybrid ddc) p) p"
    by (auto simp: hybrid_def to_cap_def usable_def int_cap_def from_cap_def cap_addr_def)
qed (simp add: hybrid_def)

text \<open>A routine that handles overlap keeps the law without its last condition.\<close>

locale overlap_copy = pointer_abi +
  fixes copy :: "'a copier"
  assumes moves: "object_at (as_cap A d) a (unat n) \<Longrightarrow> object_at (as_cap A s) b (unat n) \<Longrightarrow>
      \<exists>m'. copy d s n m = Some (Inr (d, m')) \<and> moved (of_nat a) (of_nat b) n m m'"

sublocale overlap_copy \<subseteq> tested_copy
  by unfold_locales (rule moves)

section \<open>The routines of \<open>memcpy.c\<close> keep the contract\<close>

lemma copy_c_object:
  assumes d: "object_at d a (unat n)" and s: "object_at s b (unat n)"
    and ov: "h \<or> a + unat n \<le> b \<or> b + unat n \<le> a"
  shows "\<exists>m'. returning p (copy_c h d s n m) = Some (Inr (p, m')) \<and> moved (of_nat a) (of_nat b) n m m'"
proof -
  note da = object_addr [OF d] and sb = object_addr [OF s]
  have c: "covers d (unat (cap_addr d)) (unat n)" "covers s (unat (cap_addr s)) (unat n)"
    using d s unfolding da sb by (simp_all add: object_at_def)
  have "h \<or> fwd_safe (unat (cap_addr d)) (unat (cap_addr s)) (unat n)"
    using ov unfolding da sb by (auto simp: fwd_safe_def)
  from copy_c_moved [OF c this, of m]
  obtain m' where "copy_c h d s n m = Some (Inr m')" "moved (cap_addr d) (cap_addr s) n m m'" by blast
  then show ?thesis using d s by (simp add: object_at_def)
qed

lemma copy_p_object:
  assumes d: "object_at (to_cap ddc d) a (unat n)" and s: "object_at (to_cap ddc s) b (unat n)"
    and ov: "h \<or> a + unat n \<le> b \<or> b + unat n \<le> a"
  shows "\<exists>m'. returning p (copy_p h ddc d s n m) = Some (Inr (p, m')) \<and>
    moved (of_nat a) (of_nat b) n m m'"
proof -
  note fd = to_cap_object [OF d] and fs = to_cap_object [OF s]
  have a: "cap_base ddc + d = of_nat a" "cap_base ddc + s = of_nat b"
    using fd(2) fs(2) by simp_all
  have u: "unat (of_nat a :: u64) = a" "unat (of_nat b :: u64) = b"
    using object_at_end [OF d] object_at_end [OF s] by (simp_all add: unat_small)
  have pt: "points_to ddc d n" "points_to ddc s n"
    using fd(1,3) fs(1,3) by (simp_all only: points_to_def a u simp_thms)
  have "h \<or> fwd_safe (unat (cap_base ddc + d)) (unat (cap_base ddc + s)) (unat n)"
    using ov unfolding a u by (auto simp: fwd_safe_def)
  from copy_p_moved [OF pt this, of m]
  obtain m' where "copy_p h ddc d s n m = Some (Inr m')" "moved (of_nat a) (of_nat b) n m m'"
    unfolding a by blast
  then show ?thesis by simp
qed

lemmas copier_defs = cmemcpy_c_def memmove_c_def cmemcpy_def cmemmove_def bcopy_def

interpretation memcpy_c: tested_copy purecap cmemcpy_c
  by unfold_locales (unfold copier_defs, rule copy_c_object, simp_all add: purecap_def)

interpretation memmove_c: overlap_copy purecap memmove_c
  by unfold_locales (unfold copier_defs, rule copy_c_object, simp_all add: purecap_def)

interpretation memcpy: tested_copy "hybrid ddc" "cmemcpy ddc" for ddc
  by unfold_locales (unfold copier_defs, rule copy_p_object, simp_all add: hybrid_def)

lemma from_memmove_returning:
  "from_memmove (cmemmove ddc) d s n m = returning d (copy_p True ddc d s n m)"
proof (cases "copy_p True ddc d s n m")
  case (Some r)
  then show ?thesis by (cases r) (simp_all add: from_memmove_def cmemmove_def returning_def)
qed (simp add: from_memmove_def cmemmove_def returning_def)

interpretation memmove: overlap_copy "hybrid ddc" "from_memmove (cmemmove ddc)" for ddc
  by unfold_locales (unfold from_memmove_returning, rule copy_p_object, simp_all add: hybrid_def)

interpretation bcopy: overlap_copy "hybrid ddc" "from_bcopy (bcopy ddc)" for ddc
  by unfold_locales (unfold from_bcopy_def copier_defs, rule copy_p_object, simp_all add: hybrid_def)

text \<open>\<open>cmemcpy_c\<close> as the hybrid tests call it.\<close>

lemma with_caps_copies:
  assumes "object_at (to_cap ddc d) a (unat n)" and "object_at (to_cap ddc s) b (unat n)"
    and "a + unat n \<le> b \<or> b + unat n \<le> a"
  shows "\<exists>m'. with_caps ddc cmemcpy_c d s n m = Some (Inr (d, m')) \<and> moved (of_nat a) (of_nat b) n m m'"
proof -
  have "usable (to_cap ddc d)" using assms(1) by (auto simp: object_at_def dest: covers_usable)
  then have "from_cap ddc (to_cap ddc d) = d"
    using hybrid_abi.same_refl [of ddc d] by (simp add: hybrid_def)
  moreover obtain m' where "cmemcpy_c (to_cap ddc d) (to_cap ddc s) n m = Some (Inr (to_cap ddc d, m'))"
    "moved (of_nat a) (of_nat b) n m m'"
    using memcpy_c.copies [of "to_cap ddc d" a n "to_cap ddc s" b m] assms by (auto simp: purecap_def)
  ultimately show ?thesis by (simp add: with_caps_def)
qed

interpretation memcpy_caps: tested_copy "hybrid ddc" "with_caps ddc cmemcpy_c" for ddc
  by unfold_locales (rule with_caps_copies, simp_all add: hybrid_def)

section \<open>The tests pass\<close>

lemma through_y_holds:
  assumes A: "pointer_abi A" and cp: "tested_copy purecap memcpy"
    and t1: "test_struct A t1" and t2: "test_struct A t2" and ap: "apart (addr A t1) (addr A t2)"
  shows "passes (holds (addr A t1) (as_cap A t2) 0 32) ([copy_through_y A memcpy t2 t1] @ check A t2 0 32)
    (\<lambda>m. holds (addr A t1) (as_cap A t2) 0 32 m \<and> holds (addr A t2) (as_cap A t2) 0 32 m)"
proof -
  let ?P = "holds (addr A t1) (as_cap A t2) 0 32"
  let ?Q = "\<lambda>m. ?P m \<and> holds (addr A t2) (as_cap A t2) 0 32 m"
  have ob: "object_at (as_cap A t1) (addr A t1) 96" "object_at (as_cap A t2) (addr A t2) 96"
    using t1 t2 by (simp_all add: test_struct_def)
  have us: "usable (as_cap A t2)" using A t2 by (rule pointer_abi.struct_usable)
  then have same: "same_pointer A (as_cap A t2) t2" "cap_tag (as_cap A t2)"
    using pointer_abi.same_refl [OF A] by (auto simp: usable_def)
  have ts: "two_structs (addr A t1) (addr A t2)"
    using struct_facts [OF t1] struct_facts [OF t2] ap by (simp add: two_structs_def)
  have "passes ?P [copy_through_y A memcpy t2 t1] ?Q"
  proof (rule passes_one)
    fix m assume P: "?P m"
    have y: "load_cap (ptr_add (as_cap A t1) 32) m = Inr (as_cap A t2)"
      using load_pointer_in [OF ob(1), of 32 m "as_cap A t2"] P struct_facts(1) [OF t1]
      by (simp add: holds_def)
    obtain m' where m': "memcpy (as_cap A t2) (as_cap A t1) 96 m = Some (Inr (as_cap A t2, m'))"
      "moved (of_nat (addr A t2)) (of_nat (addr A t1)) 96 m m'"
      using tested_copy.copies [OF cp, of "as_cap A t2" "addr A t2" 96 "as_cap A t1" "addr A t1" m] ob ap
      by (auto simp: purecap_def apart_def)
    then have c: "copied_part (addr A t2) 0 (addr A t1) 0 96 m m'" by (simp add: copied_part_def)
    have "?Q m'" using source_kept [OF P c ts] aligned_copy_holds [OF P c ts] by simp
    then show "\<exists>m'. copy_through_y A memcpy t2 t1 m = Inr m' \<and> ?Q m'"
      using y m' same by (simp add: copy_through_y_def)
  qed
  moreover have "passes ?Q (check A t2 0 32) ?Q" by (rule check_passes [OF t2 same order_refl]) simp
  ultimately show ?thesis by (rule passes_append)
qed

lemmas through_y_passes = through_y_holds [THEN passes_weaken, OF _ _ _ _ _ _ conjunct1]

text \<open>A round: the aligned copies and the shifted one.\<close>

context tested_copy begin

lemma round_passes:
  assumes t1: "test_struct A t1" and t2: "test_struct A t2" and ap: "apart (addr A t1) (addr A t2)"
    and v: "v = as_cap A t2"
  shows "passes (holds (addr A t1) v 0 32) (unaligned_copies A copy t2 t1 @ shifted_copy A copy t2 t1)
      (holds (addr A t1) v 0 32)"
    and "passes (holds (addr A t1) v 0 32) (whole_copy A copy t2 t1) (holds (addr A t1) v 0 32)"
proof -
  have s: "same_pointer A v t2" "cap_tag v"
    using same_refl struct_usable [OF t2] by (auto simp: v usable_def)
  show "passes (holds (addr A t1) v 0 32) (unaligned_copies A copy t2 t1 @ shifted_copy A copy t2 t1)
      (holds (addr A t1) v 0 32)"
    by (rule passes_append [OF unaligned_copies_pass [OF t1 t2 ap s] shifted_copy_passes [OF t1 t2 ap]])
  show "passes (holds (addr A t1) v 0 32) (whole_copy A copy t2 t1) (holds (addr A t1) v 0 32)"
    by (rule whole_copy_passes [OF t1 t2 ap s])
qed

lemma last_part_passes:
  assumes t1: "test_struct A t1" and t2: "test_struct A t2" and ap: "apart (addr A t1) (addr A t2)"
    and v: "v = as_cap A t2" and d: "d \<le> 32" "64 \<le> d + n" "d + n \<le> 96"
  shows "passes (holds (addr A t1) v 0 32)
    ([copy_part A copy t2 t1 (of_nat d) (of_nat d) (of_nat n)] @ check A t2 d (d + n - 64))
    (holds (addr A t1) v 0 32)"
proof -
  have s: "same_pointer A v t2" "cap_tag v"
    using same_refl struct_usable [OF t2] by (auto simp: v usable_def)
  show ?thesis
    by (rule passes_weaken [OF aligned_part_passes [OF t1 t2 ap d s]]) simp_all
qed

end

lemma passes_chain:
  "passes P xs P \<Longrightarrow> passes P ys Q \<Longrightarrow> passes P (xs @ ys) Q"
  by (rule passes_append)

lemma passes_run: "passes (\<lambda>_. True) ss Q \<Longrightarrow> \<exists>m'. run ss m = Inr m'"
  by (auto simp: passes_def)

lemma libc_memcpy_run:
  assumes cp: "tested_copy purecap memcpy"
    and t1: "test_struct purecap t1" and t2: "test_struct purecap t2"
    and ap: "apart (addr purecap t1) (addr purecap t2)"
  shows "\<exists>m'. libc_memcpy memcpy t1 t2 m = Inr m'"
proof -
  let ?A = purecap
  let ?P = "holds (addr ?A t1) t2 0 32"
  have v: "t2 = as_cap ?A t2" by (simp add: purecap_def)
  have t1c: "as_cap ?A t1 = t1" by (simp add: purecap_def)
  note a = struct_facts [OF t1]
  have inv: "passes ?P (invalidate ?A t2) ?P" by (rule invalidate_passes [OF t2 a(1) ap a(2) order_refl])
  have start: "passes (\<lambda>_. True) (invalidate ?A t2 @ fill_test ?A t1 @ [put_pointer t1 32 t2]) ?P"
    using prologue_passes [OF t1 t2, of t2] unfolding t1c .
  have thru: "passes ?P ([copy_through_y ?A memcpy t2 t1] @ check ?A t2 0 32) ?P"
    using through_y_passes [OF purecap_abi.pointer_abi_axioms cp t1 t2 ap] unfolding v [symmetric] by blast
  note rounds = tested_copy.round_passes [OF cp t1 t2 ap v]
  have final: "passes ?P ([copy_part ?A memcpy t2 t1 3 3 90] @ check ?A t2 3 29) ?P"
    using tested_copy.last_part_passes [OF cp t1 t2 ap v, of 3 90] by simp
  show ?thesis
    unfolding libc_memcpy_def
    using passes_append [OF start passes_chain [OF inv passes_chain [OF thru passes_chain [OF inv
      passes_chain [OF rounds(1) passes_chain [OF inv passes_chain [OF rounds(2)
      passes_chain [OF rounds(1) passes_chain [OF inv final]]]]]]]]]
    by (intro passes_run) (simp only: append_assoc)
qed

lemma hybrid_memcpy_run:
  assumes t1: "test_struct (hybrid ddc) t1" and t2: "test_struct (hybrid ddc) t2"
    and ap: "apart (addr (hybrid ddc) t1) (addr (hybrid ddc) t2)"
  shows "\<exists>m'. hybrid_memcpy cmemcpy_c (cmemcpy ddc) ddc t1 t2 m = Inr m'"
proof -
  let ?A = "hybrid ddc" and ?C = "with_caps ddc cmemcpy_c"
  let ?v = "to_cap ddc t2"
  let ?P = "holds (addr ?A t1) ?v 0 32"
  have v: "?v = as_cap ?A t2" by (simp add: hybrid_def)
  have t1c: "as_cap ?A t1 = to_cap ddc t1" by (simp add: hybrid_def)
  note a = struct_facts [OF t1]
  have inv: "passes ?P (invalidate ?A t2) ?P" by (rule invalidate_passes [OF t2 a(1) ap a(2) order_refl])
  have start: "passes (\<lambda>_. True) (invalidate ?A t2 @ fill_test ?A t1 @ [put_pointer (to_cap ddc t1) 32 ?v]) ?P"
    using prologue_passes [OF t1 t2, of ?v] unfolding t1c .
  have thru: "passes ?P ([copy_through_y ?A cmemcpy_c t2 t1] @ check ?A t2 0 32) ?P"
    using through_y_passes [OF hybrid_abi.pointer_abi_axioms memcpy_c.tested_copy_axioms t1 t2 ap]
    unfolding v [symmetric] by blast
  note capr = memcpy_caps.round_passes [OF t1 t2 ap v] and ptrr = memcpy.round_passes [OF t1 t2 ap v]
  have part: "passes ?P [copy_part ?A ?C t2 t1 3 3 90] ?P"
    using memcpy_caps.copy_part_passes [OF t1 t2 ap, of 90 3 3 ?P ?P] source_kept
      struct_facts [OF t1] struct_facts [OF t2] ap
    by (simp add: two_structs_def)
  have last: "passes ?P ([copy_part ?A ?C (t2 - 1) (t1 - 1) 1 1 96] @ check ?A t2 0 32) ?P"
    using memcpy_caps.last_part_passes [OF t1 t2 ap v, of 0 96]
    by (simp add: copy_part_def hybrid_def)
  show ?thesis
    unfolding hybrid_memcpy_def Let_def
    using passes_append [OF start passes_chain [OF inv passes_chain [OF thru passes_chain [OF inv
      passes_chain [OF capr(1) passes_chain [OF inv passes_chain [OF ptrr(2)
      passes_chain [OF ptrr(1) passes_chain [OF inv passes_chain [OF part passes_chain [OF inv last]]]]]]]]]]]
    by (intro passes_run) (simp only: append_assoc)
qed

lemma holds_mono: "holds a v lo hi m \<Longrightarrow> hi' \<le> hi \<Longrightarrow> holds a v lo hi' m"
  by (simp add: holds_def)

lemma memmove_special_passes:
  assumes t1: "test_struct (hybrid ddc) t1" and t2: "test_struct (hybrid ddc) t2"
    and ap: "apart (addr (hybrid ddc) t1) (addr (hybrid ddc) t2)"
  shows "passes (holds (addr (hybrid ddc) t2) (to_cap ddc t1) 0 32)
    ([copy_part (hybrid ddc) (from_memmove (cmemmove ddc)) t1 t2 12 12 80] @ check (hybrid ddc) t1 12 12)
    (holds (addr (hybrid ddc) t2) (to_cap ddc t1) 0 32)"
proof -
  let ?A = "hybrid ddc"
  let ?R = "holds (addr ?A t2) (to_cap ddc t1) 0 32"
  let ?Q = "\<lambda>m. ?R m \<and> holds (addr ?A t1) (to_cap ddc t1) 12 12 m"
  have pa: "apart (addr ?A t2) (addr ?A t1)" using ap by (auto simp: apart_def)
  have ts: "two_structs (addr ?A t2) (addr ?A t1)"
    using struct_facts [OF t1] struct_facts [OF t2] pa by (simp add: two_structs_def)
  have v: "same_pointer ?A (to_cap ddc t1) t1" "cap_tag (to_cap ddc t1)"
    using hybrid_abi.same_refl [of ddc t1] hybrid_abi.struct_usable [OF t1]
    by (auto simp: hybrid_def usable_def)
  have "?Q m'" if "?R m" "copied_part (addr ?A t1) 12 (addr ?A t2) 12 80 m m'" for m m'
    using source_kept [OF that ts] holds_mono [OF aligned_copy_holds [OF that ts], of 12] by simp
  then have "passes ?R [copy_part ?A (from_memmove (cmemmove ddc)) t1 t2 (of_nat 12) (of_nat 12) (of_nat 80)] ?Q"
    by (intro memmove.copy_part_passes [OF t2 t1 pa]) simp_all
  then have "passes ?R [copy_part ?A (from_memmove (cmemmove ddc)) t1 t2 12 12 80] ?Q" by simp
  moreover have "passes ?Q (check ?A t1 12 12) ?Q" by (rule check_passes [OF t1 v]) simp_all
  ultimately show ?thesis by (blast intro: passes_append passes_weaken)
qed

lemma both_directions_run:
  assumes cp: "tested_copy (hybrid ddc) copy"
    and t1: "test_struct (hybrid ddc) t1" and t2: "test_struct (hybrid ddc) t2"
    and ap: "apart (addr (hybrid ddc) t1) (addr (hybrid ddc) t2)"
    and special: "passes (holds (addr (hybrid ddc) t2) (to_cap ddc t1) 0 32) special
      (holds (addr (hybrid ddc) t2) (to_cap ddc t1) 0 32)"
  shows "\<exists>m'. both_directions copy special ddc t1 t2 m = Inr m'"
proof -
  let ?A = "hybrid ddc"
  let ?P = "holds (addr ?A t1) (to_cap ddc t2) 0 32" and ?R = "holds (addr ?A t2) (to_cap ddc t1) 0 32"
  have v: "to_cap ddc t2 = as_cap ?A t2" "to_cap ddc t1 = as_cap ?A t1" by (simp_all add: hybrid_def)
  have pa: "apart (addr ?A t2) (addr ?A t1)" using ap by (auto simp: apart_def)
  note a = struct_facts [OF t1] and b = struct_facts [OF t2]
  have start: "passes (\<lambda>_. True)
      (invalidate ?A t2 @ fill_test ?A t1 @ [put_pointer (to_cap ddc t1) 32 (to_cap ddc t2)]) ?P"
    using prologue_passes [OF t1 t2, of "to_cap ddc t2"] unfolding v(2) .
  note forth = tested_copy.round_passes [OF cp t1 t2 ap v(1)]
    and return = tested_copy.round_passes [OF cp t2 t1 pa v(2)]
  have ts: "two_structs (addr ?A t1) (addr ?A t2)" using a b ap by (simp add: two_structs_def)
  let ?M = "\<lambda>m. \<forall>i<32. byte_at m (addr ?A t2 + i) = of_nat i \<and> byte_at m (addr ?A t2 + 64 + i) = of_nat i"
  have "?M m'" if "?P m" "copied_part (addr ?A t2) 0 (addr ?A t1) 0 96 m m'" for m m'
    using aligned_copy_holds [OF that ts] by (simp add: holds_def)
  then have "passes ?P [copy_part ?A copy t2 t1 (of_nat 0) (of_nat 0) (of_nat 96)] ?M"
    by (intro tested_copy.copy_part_passes [OF cp t1 t2 ap]) simp_all
  then have mid: "passes ?P [copy_part ?A copy t2 t1 0 0 96] ?M" by simp
  have turn: "passes ?M [put_pointer (to_cap ddc t2) 32 (to_cap ddc t1)] ?R"
    using put_pointer_passes [OF t2, of "to_cap ddc t1"] unfolding v(1) .
  have inv: "passes ?R (invalidate ?A t1) ?R"
    by (rule invalidate_passes [OF t1 b(1) pa b(2) order_refl])
  have return2: "passes ?R (unaligned_copies ?A copy t1 t2) ?R" "passes ?R (shifted_copy ?A copy t1 t2) ?R"
    using tested_copy.unaligned_copies_pass [OF cp t2 t1 pa, of "to_cap ddc t1"]
      tested_copy.shifted_copy_passes [OF cp t2 t1 pa] pointer_abi.struct_usable [OF hybrid_abi.pointer_abi_axioms t1]
      hybrid_abi.same_refl [of ddc t1]
    by (auto simp: v usable_def)
  show ?thesis
    unfolding both_directions_def Let_def
    using passes_append [OF start passes_chain [OF forth(2) passes_append [OF forth(1)
      passes_append [OF mid passes_append [OF turn passes_chain [OF inv passes_chain [OF return(2)
      passes_chain [OF return2(1) passes_chain [OF special return2(2)]]]]]]]]]
    by (intro passes_run) (simp only: append_assoc append.simps)
qed

text \<open>What a test of \<open>memcpy\<close> on two structures starts from.\<close>

lemma libc_memcpy_routine:
  assumes "\<And>d s n m a b. object_at d a (unat n) \<Longrightarrow> object_at s b (unat n) \<Longrightarrow>
      a + unat n \<le> b \<or> b + unat n \<le> a \<Longrightarrow>
      \<exists>m'. memcpy d s n m = Some (Inr (d, m')) \<and> moved (of_nat a) (of_nat b) n m m'"
  shows "tested_copy purecap memcpy"
  by unfold_locales (rule assms, simp_all add: purecap_def)

lemma libc_memcpy_structs:
  assumes "object_at t1 a 96" and "object_at t2 b 96" and "two_structs a b"
  shows "test_struct purecap t1" and "test_struct purecap t2" and "apart (addr purecap t1) (addr purecap t2)"
proof -
  have "addr purecap t1 = a" "addr purecap t2 = b"
    using object_addr [OF assms(1)] object_addr [OF assms(2)] by (simp_all add: addr_def purecap_def)
  then show "test_struct purecap t1" "test_struct purecap t2" "apart (addr purecap t1) (addr purecap t2)"
    using assms by (simp_all add: test_struct_def two_structs_def purecap_def)
qed

text \<open>C21. \<open>libc_memcpy\<close> passes with every \<open>memcpy\<close> that moves bytes and whole capabilities between
  regions apart from each other and returns its destination: no assertion fails, no access faults
  and no call hangs, for any two aligned structures apart from each other and any memory.
\<close>

theorem libc_memcpy_passes:
  assumes "\<And>d s n m a b. object_at d a (unat n) \<Longrightarrow> object_at s b (unat n) \<Longrightarrow>
      a + unat n \<le> b \<or> b + unat n \<le> a \<Longrightarrow>
      \<exists>m'. memcpy d s n m = Some (Inr (d, m')) \<and> moved (of_nat a) (of_nat b) n m m'"
    and "object_at t1 a 96" and "object_at t2 b 96" and "two_structs a b"
  shows "\<exists>m'. libc_memcpy memcpy t1 t2 m = Inr m'"
  by (intro libc_memcpy_run libc_memcpy_routine libc_memcpy_structs [OF assms(2-4)]) (rule assms(1))

text \<open>C20. The hybrid tests pass with the routines of \<open>memcpy.c\<close>: \<open>clang_hybrid_memcpy\<close> with both its
  versions, \<open>clang_hybrid_memmove\<close> and \<open>clang_hybrid_bcopy\<close> in both directions, for any two aligned
  structures the default data capability covers.
\<close>

theorem hybrid_tests_pass:
  assumes "object_at (to_cap ddc t1) a 96" and "object_at (to_cap ddc t2) b 96" and "two_structs a b"
  shows "(\<exists>m'. hybrid_memcpy cmemcpy_c (cmemcpy ddc) ddc t1 t2 m = Inr m') \<and>
    (\<exists>m'. hybrid_memmove (cmemmove ddc) ddc t1 t2 m = Inr m') \<and>
    (\<exists>m'. hybrid_bcopy (bcopy ddc) ddc t1 t2 m = Inr m')"
proof -
  let ?A = "hybrid ddc"
  have ad: "addr ?A t1 = a" "addr ?A t2 = b"
    using object_addr [OF assms(1)] object_addr [OF assms(2)] by (simp_all add: addr_def hybrid_def)
  then have t: "test_struct ?A t1" "test_struct ?A t2" "apart (addr ?A t1) (addr ?A t2)"
    using assms by (simp_all add: test_struct_def two_structs_def hybrid_def)
  then have ap: "apart (addr ?A t2) (addr ?A t1)" by (auto simp: apart_def)
  have "passes (holds (addr ?A t2) (to_cap ddc t1) 0 32)
      ([copy_part ?A (from_memmove (cmemmove ddc)) t1 t2 12 12 80] @ check ?A t1 12 12)
      (holds (addr ?A t2) (to_cap ddc t1) 0 32)"
    using memmove_special_passes [OF t] .
  then show ?thesis
    using hybrid_memcpy_run [OF t] both_directions_run [OF memmove.tested_copy_axioms t]
      both_directions_run [OF bcopy.tested_copy_axioms t passes_Nil]
    by (simp add: hybrid_memmove_def hybrid_bcopy_def)
qed

section \<open>libc_memmove\<close>

text \<open>The array of ten pointers at \<open>a\<close>, to the ten digits at \<open>c\<close>.\<close>

definition digit_pointers :: "nat \<Rightarrow> nat \<Rightarrow> (nat \<Rightarrow> cap) \<Rightarrow> memory \<Rightarrow> bool" where
  "digit_pointers a c p m \<longleftrightarrow>
     (\<forall>i<10. pointer_in m (a + 32 * i) (p i) \<and> object_at (p i) (c + i) 1 \<and>
        byte_at m (c + i) = of_nat (48 + i)) \<and> (c + 10 \<le> a \<or> a + 320 \<le> c)"

lemma digit_pointersD:
  assumes "digit_pointers a c p m" and "i < 10"
  shows "pointer_in m (a + 32 * i) (p i)" and "object_at (p i) (c + i) 1"
    and "byte_at m (c + i) = of_nat (48 + i)"
  using assms by (simp_all add: digit_pointers_def)

lemma memmove_front:
  assumes mv: "moved (of_nat a) (of_nat (a + 64)) 256 m m'" and a: "a mod 32 = 0" "a + 320 < 2 ^ 64"
    and dp: "digit_pointers a c p m" and i: "i < 8"
  shows "pointer_in m' (a + 32 * i) (p (i + 2))"
    and "byte_at m' (c + (i + 2)) = of_nat (48 + (i + 2))"
proof -
  have u: "unat (of_nat a :: u64) = a" "unat (of_nat (a + 64) :: u64) = a + 64" "unat (256 :: u64) = 256"
    using a(2) by (simp_all add: unat_small del: of_nat_add)
  have "(of_nat a :: u64) \<noteq> of_nat (a + 64)" by (metis u(1,2) add_eq_self_zero zero_neq_numeral)
  then have ne: "\<not> ((256 :: u64) = 0 \<or> (of_nat a :: u64) = of_nat (a + 64))" by simp
  note facts = mv [unfolded moved_def if_not_P [OF ne] u]
  have moved_byte: "byte_at m' x = (if a \<le> x \<and> x < a + 256 then byte_at m (x - a + (a + 64)) else byte_at m x)"
    if "x < 2 ^ 64" for x using facts that by blast
  obtain q where q: "a = 32 * q" using a(1) by auto
  have tg: "tag_at m' (q + i) = tag_at m (q + (i + 2))"
  proof -
    have "q + i < 2 ^ 59" using a(2) q i by simp
    then have "tag_at m' (q + i) = (a mod 32 = (a + 64) mod 32 \<and> a \<le> 32 * (q + i) \<and>
        32 * (q + i) + 32 \<le> a + 256 \<and> tag_at m ((32 * (q + i) - a + (a + 64)) div 32))"
      using facts i q by auto
    also have "(32 * (q + i) - a + (a + 64)) div 32 = q + (i + 2)" using q by simp
    finally show ?thesis using q i by simp
  qed
  have i2: "i + 2 < 10" using i by simp
  note old = digit_pointersD [OF dp i2]
  have "byte_at m' (a + 32 * i + j) = byte_at m (a + 32 * (i + 2) + j)" if "j < 32" for j
  proof -
    have "a + 32 * i + j < a + 256" using that i by simp
    moreover have "a + 32 * i + j - a + (a + 64) = a + 32 * (i + 2) + j" by simp
    ultimately show ?thesis using moved_byte [of "a + 32 * i + j"] a(2) by (simp add: ac_simps)
  qed
  moreover have "(a + 32 * i) div 32 = q + i" "(a + 32 * (i + 2)) div 32 = q + (i + 2)" by (simp_all add: q)
  ultimately show "pointer_in m' (a + 32 * i) (p (i + 2))"
    using old(1) tg by (simp only: pointer_in_def) blast
  have "c + (i + 2) < 2 ^ 64" using object_at_end [OF old(2)] by simp
  then have "byte_at m' (c + (i + 2)) = byte_at m (c + (i + 2))"
    using moved_byte [of "c + (i + 2)"] dp i by (auto simp: digit_pointers_def)
  then show "byte_at m' (c + (i + 2)) = of_nat (48 + (i + 2))"
    using old(3) by simp
qed

text \<open>\<open>libc_memmove\<close> passes with every \<open>memmove\<close> that moves overlapping regions: after the move
  the first eight pointers of the array are whole capabilities to the digits \<open>2\<close> to \<open>9\<close>.
\<close>

theorem libc_memmove_passes:
  assumes "\<And>d s n m a b. object_at d a (unat n) \<Longrightarrow> object_at s b (unat n) \<Longrightarrow>
      \<exists>m'. memmove d s n m = Some (Inr (d, m')) \<and> moved (of_nat a) (of_nat b) n m m'"
    and "object_at buffer a 320" and "a mod 32 = 0" and "digit_pointers a c p m"
  shows "\<exists>m'. libc_memmove memmove buffer m = Inr m'"
proof -
  have nw: "a + 320 < 2 ^ 64" using object_at_end [OF assms(2)] .
  have ob: "object_at buffer a (unat (256 :: u64))" "object_at (ptr_add buffer 64) (a + 64) (unat (256 :: u64))"
    using assms(2) covers_sub [of buffer a 320] by (simp_all add: object_at_def)
  obtain m' where m': "memmove buffer (ptr_add buffer 64) 256 m = Some (Inr (buffer, m'))"
    "moved (of_nat a) (of_nat (a + 64)) 256 m m'" using assms(1) [OF ob] by blast
  have "assert_pointee buffer (of_nat i * 32) (48 + int i + 2) m' = Inr m'" if i: "i < 8" for i
  proof -
    note f = memmove_front [OF m'(2) assms(3) nw assms(4) i]
    have "load_cap (ptr_add buffer (of_nat (32 * i))) m' = Inr (p (i + 2))"
      using load_pointer_in [OF assms(2), of "32 * i" m' "p (i + 2)"] f(1) assms(3) i by simp
    moreover have "i + 2 < 10" using i by simp
    from assert_byte_at [OF digit_pointersD(2) [OF assms(4) this], of 0 m' "48 + (i + 2)"] f(2) i
    have "assert_byte (p (i + 2)) 0 (int (48 + (i + 2))) m' = Inr m'" by simp
    ultimately show ?thesis by (simp add: assert_pointee_def mult.commute add.commute)
  qed
  then have "passes (\<lambda>x. x = m') (map (\<lambda>i. assert_pointee buffer (of_nat i * 32) (48 + int i + 2)) [0..<8])
      (\<lambda>x. x = m')"
    by (intro passes_asserts) auto
  then have "run (map (\<lambda>i. assert_pointee buffer (of_nat i * 32) (48 + int i + 2)) [0..<8]) m' = Inr m'"
    by (simp add: passes_def del: upt_Suc)
  then show ?thesis using m'(1) by (simp add: libc_memmove_def call_memmove_def del: upt_Suc)
qed

text \<open>Two structures on the stack, and the array of pointers with its digits.\<close>

theorem libc_memcpy_passes_witness:
  "\<exists>m'. libc_memcpy cmemcpy_c (object_cap 4096 96) (object_cap 8192 96)
     \<lparr>bytes = \<lambda>x. ucast x, tags = \<lambda>_. False\<rparr> = Inr m'"
proof (rule libc_memcpy_passes)
  fix d s m a b and n :: u64
  assume "object_at d a (unat n)" "object_at s b (unat n)" "a + unat n \<le> b \<or> b + unat n \<le> a"
  then show "\<exists>m'. cmemcpy_c d s n m = Some (Inr (d, m')) \<and> moved (of_nat a) (of_nat b) n m m'"
    using memcpy_c.copies [of d a n s b m] by (simp add: purecap_def)
next
  show "object_at (object_cap 4096 96) 4096 96" "object_at (object_cap 8192 96) 8192 96"
    by (simp_all add: object_at_def object_cap_covers)
  show "two_structs 4096 8192" by (simp add: two_structs_def apart_def)
qed

theorem hybrid_tests_pass_witness:
  "(\<exists>m'. hybrid_memcpy cmemcpy_c (cmemcpy (object_cap 0 65536)) (object_cap 0 65536) 4096 8192
      \<lparr>bytes = \<lambda>x. ucast x, tags = \<lambda>_. False\<rparr> = Inr m') \<and>
   (\<exists>m'. hybrid_memmove (cmemmove (object_cap 0 65536)) (object_cap 0 65536) 4096 8192
      \<lparr>bytes = \<lambda>x. ucast x, tags = \<lambda>_. False\<rparr> = Inr m') \<and>
   (\<exists>m'. hybrid_bcopy (bcopy (object_cap 0 65536)) (object_cap 0 65536) 4096 8192
      \<lparr>bytes = \<lambda>x. ucast x, tags = \<lambda>_. False\<rparr> = Inr m')"
proof (rule hybrid_tests_pass)
  have "cap_base (object_cap 0 65536) = 0" by (simp add: object_cap_def)
  then show "object_at (to_cap (object_cap 0 65536) 4096) 4096 96"
    "object_at (to_cap (object_cap 0 65536) 8192) 8192 96"
    by (simp_all add: object_at_def object_cap_covers to_cap_addr)
  show "two_structs 4096 8192" by (simp add: two_structs_def apart_def)
qed

definition digit_cap :: "nat \<Rightarrow> cap" where
  "digit_cap i = ptr_add (object_cap 8192 11) (of_nat i)"

definition digit_memory :: memory where
  "digit_memory = \<lparr>bytes = (\<lambda>x. if unat x < 4416 then cap_image (digit_cap ((unat x - 4096) div 32)) ! ((unat x - 4096) mod 32)
       else of_nat (48 + (unat x - 8192))), tags = \<lambda>_. True\<rparr>"

lemma digit_memory_pointers: "digit_pointers 4096 8192 digit_cap digit_memory"
proof -
  have "pointer_in digit_memory (4096 + 32 * i) (digit_cap i)" if "i < 10" for i
  proof -
    have "unat (of_nat (4096 + 32 * i + j) :: u64) = 4096 + 32 * i + j" if "j < 32" for j
      using that \<open>i < 10\<close> by (intro unat_small) simp
    moreover have "cap_tag (digit_cap i)" by (simp add: digit_cap_def ptr_add_def object_cap_def)
    ultimately show ?thesis
      using that by (simp add: pointer_in_def byte_at_def tag_at_def digit_memory_def add.assoc del: of_nat_add)
  qed
  moreover have "object_at (digit_cap i) (8192 + i) 1" if "i < 10" for i
    using that by (simp add: object_at_def digit_cap_def object_cap_covers)
  moreover have "byte_at digit_memory (8192 + i) = of_nat (48 + i)" if "i < 10" for i
  proof -
    have "unat (of_nat (8192 + i) :: u64) = 8192 + i" using that by (intro unat_small) simp
    then show ?thesis by (simp add: byte_at_def digit_memory_def del: of_nat_add)
  qed
  ultimately show ?thesis by (simp add: digit_pointers_def)
qed

theorem libc_memmove_passes_witness:
  "\<exists>m'. libc_memmove memmove_c (object_cap 4096 320) digit_memory = Inr m'"
proof (rule libc_memmove_passes)
  fix d s m a b and n :: u64
  assume "object_at d a (unat n)" "object_at s b (unat n)"
  then show "\<exists>m'. memmove_c d s n m = Some (Inr (d, m')) \<and> moved (of_nat a) (of_nat b) n m m'"
    using memmove_c.moves [of d a n s b m] by (simp add: purecap_def)
next
  show "object_at (object_cap 4096 320) 4096 320" by (simp add: object_at_def object_cap_covers)
  show "digit_pointers 4096 8192 digit_cap digit_memory" by (rule digit_memory_pointers)
qed simp

text \<open>
  What \<open>invalidate\<close> does: it fills only the first byte of the structure, so most of the old
  contents survives it.
\<close>

lemma invalidate_first_byte:
  assumes "test_struct A t" and "0 < i" and "i < 96"
  shows "\<exists>m'. run (invalidate A t) m = Inr m' \<and> byte_at m' (addr A t + i) = byte_at m (addr A t + i)"
proof -
  have ob: "object_at (as_cap A t) (addr A t) 96" using assms(1) by (simp add: test_struct_def)
  note nw = object_at_end [OF ob]
  have "passes (\<lambda>m'. byte_at m' (addr A t + i) = byte_at m (addr A t + i)) (invalidate A t)
      (\<lambda>m'. byte_at m' (addr A t + i) = byte_at m (addr A t + i))"
    unfolding invalidate_def
    using put_byte_at [OF ob, of 0] assms(2,3) nw
    by (intro passes_effects) (auto simp: byte_at_write_byte)
  then show ?thesis by (simp add: passes_def)
qed

end
