(* ===== verification/IntCapMath.thy ===== *)
theory IntCapMath
  imports CheriCap "HOL-Library.Signed_Division"
begin

text \<open>
  \<open>cheri-c-tests/clang-purecap/clang_purecap_uintcapmath.c\<close>, which is compiled four times: for
  \<open>int64_t\<close>, \<open>uint64_t\<close>, \<open>__intcap_t\<close> and \<open>__uintcap_t\<close>. The program is a list of statements over the
  C operators it uses; each of the types gives the operators a meaning. What the operators do on the two
  real integer types is the C language's; the arithmetic of the two capability types is the compiler's
  and a parameter of the theorem, with what the test relies on as a hypothesis.
\<close>

section \<open>The language of the test\<close>

datatype var = Target | Zero | One | OneHundred | TwoFiveSix | MinusFive

datatype binop = Add | Sub | Mul | Div | Rem | Shl | Shr | BitAnd | BitOr | BitXor

datatype relop = Lt | Gt | Le | Ge | Eq | Ne

datatype exp =
  Num int | Var var | Bin binop exp exp | Rel relop exp exp | Compl exp | Neg exp
| LNot exp | LAnd exp exp | LOr exp exp | Cond exp exp exp

text \<open>\<open>assert_eq\<close> compares both sides as \<open>long\<close>.\<close>

datatype stmt = Assign var exp | Assert exp | AssertEq exp exp

definition op_assign :: "var \<Rightarrow> binop \<Rightarrow> exp \<Rightarrow> stmt" where
  "op_assign v op e = Assign v (Bin op (Var v) e)"

text \<open>A type: undefined behaviour is \<open>None\<close>.\<close>

record 'v arith =
  of_literal :: "int \<Rightarrow> 'v"
  binary :: "binop \<Rightarrow> 'v \<Rightarrow> 'v \<Rightarrow> 'v option"
  less :: "'v \<Rightarrow> 'v \<Rightarrow> bool"
  equal :: "'v \<Rightarrow> 'v \<Rightarrow> bool"
  complement :: "'v \<Rightarrow> 'v"
  truth :: "'v \<Rightarrow> bool"
  as_long :: "'v \<Rightarrow> int"

fun relation :: "'v arith \<Rightarrow> relop \<Rightarrow> 'v \<Rightarrow> 'v \<Rightarrow> bool" where
  "relation A Lt a b = less A a b"
| "relation A Gt a b = less A b a"
| "relation A Le a b = (\<not> less A b a)"
| "relation A Ge a b = (\<not> less A a b)"
| "relation A Eq a b = equal A a b"
| "relation A Ne a b = (\<not> equal A a b)"

definition of_bool_literal :: "'v arith \<Rightarrow> bool \<Rightarrow> 'v" where
  "of_bool_literal A b = of_literal A (if b then 1 else 0)"

fun eval :: "'v arith \<Rightarrow> (var \<Rightarrow> 'v) \<Rightarrow> exp \<Rightarrow> 'v option" where
  "eval A s (Num i) = Some (of_literal A i)"
| "eval A s (Var v) = Some (s v)"
| "eval A s (Bin op a b) =
     (case eval A s a of None \<Rightarrow> None
      | Some x \<Rightarrow> (case eval A s b of None \<Rightarrow> None | Some y \<Rightarrow> binary A op x y))"
| "eval A s (Rel op a b) =
     (case eval A s a of None \<Rightarrow> None
      | Some x \<Rightarrow> (case eval A s b of None \<Rightarrow> None
          | Some y \<Rightarrow> Some (of_bool_literal A (relation A op x y))))"
| "eval A s (Compl a) = map_option (complement A) (eval A s a)"
| "eval A s (Neg a) =
     (case eval A s a of None \<Rightarrow> None | Some x \<Rightarrow> binary A Sub (of_literal A 0) x)"
| "eval A s (LNot a) =
     (case eval A s a of None \<Rightarrow> None | Some x \<Rightarrow> Some (of_bool_literal A (\<not> truth A x)))"
| "eval A s (LAnd a b) =
     (case eval A s a of None \<Rightarrow> None
      | Some x \<Rightarrow> if truth A x
          then (case eval A s b of None \<Rightarrow> None | Some y \<Rightarrow> Some (of_bool_literal A (truth A y)))
          else Some (of_bool_literal A False))"
| "eval A s (LOr a b) =
     (case eval A s a of None \<Rightarrow> None
      | Some x \<Rightarrow> if truth A x then Some (of_bool_literal A True)
          else (case eval A s b of None \<Rightarrow> None | Some y \<Rightarrow> Some (of_bool_literal A (truth A y))))"
| "eval A s (Cond c a b) =
     (case eval A s c of None \<Rightarrow> None
      | Some x \<Rightarrow> if truth A x then eval A s a else eval A s b)"

datatype math_error = Undefined | AssertFailed

fun step :: "'v arith \<Rightarrow> stmt \<Rightarrow> (var \<Rightarrow> 'v) \<Rightarrow> math_error + (var \<Rightarrow> 'v)" where
  "step A (Assign v e) s =
     (case eval A s e of None \<Rightarrow> Inl Undefined | Some x \<Rightarrow> Inr (s(v := x)))"
| "step A (Assert e) s =
     (case eval A s e of None \<Rightarrow> Inl Undefined
      | Some x \<Rightarrow> if truth A x then Inr s else Inl AssertFailed)"
| "step A (AssertEq a b) s =
     (case eval A s a of None \<Rightarrow> Inl Undefined
      | Some x \<Rightarrow> (case eval A s b of None \<Rightarrow> Inl Undefined
          | Some y \<Rightarrow> if as_long A x = as_long A y then Inr s else Inl AssertFailed))"

fun exec :: "'v arith \<Rightarrow> stmt list \<Rightarrow> (var \<Rightarrow> 'v) \<Rightarrow> math_error + (var \<Rightarrow> 'v)" where
  "exec A [] s = Inr s"
| "exec A (c # cs) s = (case step A c s of Inl e \<Rightarrow> Inl e | Inr s' \<Rightarrow> exec A cs s')"

section \<open>The two integer types\<close>

text \<open>\<open>uint64_t\<close> wraps around; division by zero and shifts by 64 or more are undefined.\<close>

fun uint64_binary :: "binop \<Rightarrow> u64 \<Rightarrow> u64 \<Rightarrow> u64 option" where
  "uint64_binary Add a b = Some (a + b)"
| "uint64_binary Sub a b = Some (a - b)"
| "uint64_binary Mul a b = Some (a * b)"
| "uint64_binary Div a b = (if b = 0 then None else Some (a div b))"
| "uint64_binary Rem a b = (if b = 0 then None else Some (a mod b))"
| "uint64_binary Shl a b = (if b < 64 then Some (push_bit (unat b) a) else None)"
| "uint64_binary Shr a b = (if b < 64 then Some (drop_bit (unat b) a) else None)"
| "uint64_binary BitAnd a b = Some (a AND b)"
| "uint64_binary BitOr a b = Some (a OR b)"
| "uint64_binary BitXor a b = Some (a XOR b)"

definition uint64 :: "u64 arith" where
  "uint64 = \<lparr>of_literal = word_of_int, binary = uint64_binary, less = (<), equal = (=),
     complement = NOT, truth = (\<lambda>w. w \<noteq> 0), as_long = sint\<rparr>"

text \<open>\<open>int64_t\<close>: results that do not fit are undefined, division truncates, \<open>>>\<close> keeps the sign.\<close>

definition fits :: "int \<Rightarrow> u64 option" where
  "fits i = (if - (2 ^ 63) \<le> i \<and> i < 2 ^ 63 then Some (word_of_int i) else None)"

fun int64_binary :: "binop \<Rightarrow> u64 \<Rightarrow> u64 \<Rightarrow> u64 option" where
  "int64_binary Add a b = fits (sint a + sint b)"
| "int64_binary Sub a b = fits (sint a - sint b)"
| "int64_binary Mul a b = fits (sint a * sint b)"
| "int64_binary Div a b = (if b = 0 then None else fits (sint a sdiv sint b))"
| "int64_binary Rem a b = (if b = 0 then None else fits (sint a smod sint b))"
| "int64_binary Shl a b =
     (if 0 \<le> sint a \<and> 0 \<le> sint b \<and> sint b < 64 then fits (push_bit (nat (sint b)) (sint a)) else None)"
| "int64_binary Shr a b =
     (if 0 \<le> sint b \<and> sint b < 64 then fits (drop_bit (nat (sint b)) (sint a)) else None)"
| "int64_binary BitAnd a b = Some (a AND b)"
| "int64_binary BitOr a b = Some (a OR b)"
| "int64_binary BitXor a b = Some (a XOR b)"

definition int64 :: "u64 arith" where
  "int64 = \<lparr>of_literal = word_of_int, binary = int64_binary, less = (\<lambda>a b. sint a < sint b), equal = (=),
     complement = NOT, truth = (\<lambda>w. w \<noteq> 0), as_long = sint\<rparr>"

section \<open>The test\<close>

text \<open>The parts between the conditions of the preprocessor.\<close>

definition counting_and_comparing :: "stmt list" where
  "counting_and_comparing =
    [Assign Zero (Num 0),
     Assign One (Num 1),
     Assign OneHundred (Num 100),
     Assign TwoFiveSix (Num 256),
     Assign Target (Num 100),
     AssertEq (Var Target) (Num 100),
     op_assign Target Sub (Num 1),
     AssertEq (Var Target) (Num 99),
     Assert (Rel Lt (Var Target) (Var OneHundred)),
     op_assign Target Sub (Num 1),
     AssertEq (Var Target) (Num 98),
     Assert (Rel Lt (Var Target) (Num 99)),
     Assign Target (Var OneHundred),
     AssertEq (Var Target) (Num 100),
     op_assign Target Add (Num 1),
     AssertEq (Var Target) (Num 101),
     op_assign Target Add (Num 1),
     AssertEq (Var Target) (Num 102),
     Assert (Rel Gt (Var Target) (Var OneHundred)),
     Assert (Rel Gt (Num 1000) (Var OneHundred)),
     Assert (Rel Lt (Num 1) (Var OneHundred)),
     Assert (Rel Ge (Num 1000) (Var OneHundred)),
     Assert (Rel Ge (Var OneHundred) (Num 1)),
     Assert (Rel Ge (Var TwoFiveSix) (Var OneHundred)),
     Assert (Rel Le (Num 1) (Var One)),
     Assert (Rel Le (Var One) (Num 2)),
     Assert (Rel Le (Var OneHundred) (Var TwoFiveSix)),
     Assert (Rel Ne (Num 2) (Var One)),
     Assert (Rel Ne (Var One) (Num 3)),
     Assert (Rel Ne (Var OneHundred) (Var TwoFiveSix)),
     Assert (LNot (Var Zero)),
     Assert (LAnd (Var One) (Num 1)),
     Assert (LAnd (Num 1) (Var OneHundred)),
     Assert (LAnd (Var One) (Var TwoFiveSix)),
     Assert (LOr (Var One) (Num 1)),
     Assert (LOr (Num 0) (Var One)),
     Assert (LOr (Var Zero) (Var OneHundred)),
     Assign Target (Num 0),
     Assign Target (Bin Add (Var OneHundred) (Num 2)),
     AssertEq (Var Target) (Num 102),
     Assign Target (Bin Add (Num 3) (Var OneHundred)),
     AssertEq (Var Target) (Num 103),
     Assign Target (Bin Add (Var One) (Var OneHundred)),
     AssertEq (Var Target) (Num 101),
     Assign Target (Var OneHundred),
     op_assign Target Add (Num 5),
     AssertEq (Var Target) (Num 105),
     Assign Target (Bin Sub (Var OneHundred) (Num 2)),
     AssertEq (Var Target) (Num 98),
     Assign Target (Bin Sub (Num 105) (Var OneHundred)),
     AssertEq (Var Target) (Num 5),
     Assign Target (Bin Sub (Var OneHundred) (Var One)),
     AssertEq (Var Target) (Num 99),
     Assign Target (Var OneHundred),
     op_assign Target Sub (Num 6),
     AssertEq (Var Target) (Num 94)]"

definition shift_literal_left :: "stmt list" where
  "shift_literal_left =
    [Assign Target (Bin Shl (Num 1) (Var One)),
     AssertEq (Var Target) (Num 2)]"

definition shift_left :: "stmt list" where
  "shift_left =
    [Assign Target (Bin Shl (Var One) (Num 2)),
     AssertEq (Var Target) (Num 4),
     Assign Target (Bin Shl (Var TwoFiveSix) (Var One)),
     AssertEq (Var Target) (Num 512),
     Assign Target (Num 1),
     op_assign Target Shl (Var One),
     AssertEq (Var Target) (Num 2)]"

definition shift_literal_right :: "stmt list" where
  "shift_literal_right =
    [Assign Target (Bin Shr (Num 2) (Var One)),
     AssertEq (Var Target) (Num 1)]"

definition shift_right :: "stmt list" where
  "shift_right =
    [Assign Target (Bin Shr (Var One) (Num 1)),
     AssertEq (Var Target) (Num 0),
     Assign Target (Bin Shr (Var TwoFiveSix) (Var One)),
     AssertEq (Var Target) (Num 128),
     Assign Target (Num 2),
     op_assign Target Shr (Var One),
     AssertEq (Var Target) (Num 1)]"

definition complements :: "stmt list" where
  "complements =
    [Assign Target (Compl (Var Zero)),
     AssertEq (Var Target) (Num 0xffffffffffffffff),
     Assign Target (Compl (Bin Sub (Num 2) (Var One))),
     AssertEq (Var Target) (Num 0xfffffffffffffffe)]"

definition bits_and_arithmetic :: "stmt list" where
  "bits_and_arithmetic =
    [Assign Target (Bin BitAnd (Var One) (Num 1)),
     AssertEq (Var Target) (Num 1),
     Assign Target (Bin BitAnd (Num 256) (Var TwoFiveSix)),
     AssertEq (Var Target) (Var TwoFiveSix),
     Assign Target (Bin BitAnd (Var One) (Var TwoFiveSix)),
     AssertEq (Var Target) (Num 0),
     Assign Target (Num 1),
     op_assign Target BitAnd (Var One),
     AssertEq (Var Target) (Num 1),
     Assign Target (Bin BitOr (Var One) (Num 2)),
     AssertEq (Var Target) (Num 0x3),
     Assign Target (Bin BitOr (Num 8) (Var One)),
     AssertEq (Var Target) (Num 0x9),
     Assign Target (Bin BitOr (Var One) (Var TwoFiveSix)),
     AssertEq (Var Target) (Num 0x101),
     Assign Target (Num 0),
     op_assign Target BitOr (Var One),
     AssertEq (Var Target) (Num 1),
     Assign Target (Bin BitXor (Var One) (Num 1)),
     AssertEq (Var Target) (Num 0),
     Assign Target (Bin BitXor (Num 2) (Var One)),
     AssertEq (Var Target) (Num 0x3),
     Assign Target (Bin BitXor (Var One) (Var TwoFiveSix)),
     AssertEq (Var Target) (Num 0x101),
     Assign Target (Num 1),
     op_assign Target BitXor (Var One),
     AssertEq (Var Target) (Num 0),
     Assign Target (Bin Mul (Var TwoFiveSix) (Num 2)),
     AssertEq (Var Target) (Num 512),
     Assign Target (Bin Mul (Num 2) (Var OneHundred)),
     AssertEq (Var Target) (Num 200),
     Assign Target (Bin Mul (Var OneHundred) (Var TwoFiveSix)),
     AssertEq (Var Target) (Num 25600),
     Assign Target (Num 2),
     op_assign Target Mul (Var OneHundred),
     AssertEq (Var Target) (Num 200),
     Assign Target (Bin Div (Var TwoFiveSix) (Num 2)),
     AssertEq (Var Target) (Num 128),
     Assign Target (Bin Div (Num 1024) (Var TwoFiveSix)),
     AssertEq (Var Target) (Num 4),
     Assign Target (Bin Div (Var TwoFiveSix) (Var OneHundred)),
     AssertEq (Var Target) (Num 2),
     Assign Target (Num 1000),
     op_assign Target Div (Var OneHundred),
     AssertEq (Var Target) (Num 10),
     Assign Target (Bin Rem (Var TwoFiveSix) (Num 200)),
     AssertEq (Var Target) (Num 56),
     Assign Target (Bin Rem (Var One) (Num 99)),
     AssertEq (Var Target) (Num 1),
     Assign Target (Bin Rem (Var OneHundred) (Var TwoFiveSix)),
     AssertEq (Var Target) (Num 100),
     Assign Target (Num 105),
     op_assign Target Rem (Var OneHundred),
     AssertEq (Var Target) (Num 5),
     Assign Target (Cond (Var Zero) (Var One) (Num 2)),
     AssertEq (Var Target) (Num 2),
     Assign Target (Cond (Var One) (Num 3) (Var OneHundred)),
     AssertEq (Var Target) (Num 3),
     Assign Target (Cond (Num 1) (Var OneHundred) (Var TwoFiveSix)),
     AssertEq (Var Target) (Num 100)]"

definition negative_numbers :: "stmt list" where
  "negative_numbers =
    [Assign MinusFive (Neg (Num 5)),
     Assign Target (Var MinusFive),
     AssertEq (Var Target) (Neg (Num 5)),
     Assign Target (Neg (Var MinusFive)),
     AssertEq (Var Target) (Num 5),
     Assign Target (Neg (Var One)),
     AssertEq (Var Target) (Neg (Num 1))]"

text \<open>
  \<open>whole\<close>: built for real integers or with \<open>INCLUDE_XFAIL\<close>; \<open>negatives\<close>: built for a signed type.
\<close>

definition uintcapmath :: "bool \<Rightarrow> bool \<Rightarrow> stmt list" where
  "uintcapmath whole negatives =
     counting_and_comparing @ (if whole then shift_literal_left else []) @ shift_left @
     (if whole then shift_literal_right else []) @ shift_right @
     (if whole then complements else []) @ bits_and_arithmetic @
     (if negatives then negative_numbers else [])"

lemmas uintcapmath_parts =
  counting_and_comparing_def shift_literal_left_def shift_left_def shift_literal_right_def
  shift_right_def complements_def bits_and_arithmetic_def negative_numbers_def

section \<open>Types that hold the integers\<close>

text \<open>
  A type \<open>C\<close> whose values stand for integers of the type \<open>A\<close>, the relation \<open>R\<close> telling which: literals
  stand for their value, a binary operation that is defined on the integers is defined on the values
  that stand for them and its result stands for the result, and comparisons, truth and the conversion to
  \<open>long\<close> agree. Nothing is asked of the complement, which the test leaves out for the capability types
  (\<open>INCLUDE_XFAIL\<close>), nor of values that stand for no integer, as valid pointers do.
\<close>

definition implements :: "('c \<Rightarrow> 'v \<Rightarrow> bool) \<Rightarrow> 'c arith \<Rightarrow> 'v arith \<Rightarrow> bool" where
  "implements R C A \<longleftrightarrow>
     (\<forall>i. R (of_literal C i) (of_literal A i)) \<and>
     (\<forall>a b x y. R a x \<longrightarrow> R b y \<longrightarrow>
        (\<forall>op w. binary A op x y = Some w \<longrightarrow> (\<exists>c. binary C op a b = Some c \<and> R c w)) \<and>
        less C a b = less A x y \<and> equal C a b = equal A x y) \<and>
     (\<forall>a x. R a x \<longrightarrow> truth C a = truth A x \<and> as_long C a = as_long A x)"

lemma implements_literal: "implements R C A \<Longrightarrow> R (of_literal C i) (of_literal A i)"
  by (simp add: implements_def)

lemma implements_binary:
  "implements R C A \<Longrightarrow> R a x \<Longrightarrow> R b y \<Longrightarrow> binary A op x y = Some w \<Longrightarrow> \<exists>c. binary C op a b = Some c \<and> R c w"
  by (simp add: implements_def)

lemma implements_relation:
  "implements R C A \<Longrightarrow> R a x \<Longrightarrow> R b y \<Longrightarrow> relation C r a b = relation A r x y"
  by (cases r) (simp_all add: implements_def)

lemma implements_truth: "implements R C A \<Longrightarrow> R a x \<Longrightarrow> truth C a = truth A x"
  "implements R C A \<Longrightarrow> R a x \<Longrightarrow> as_long C a = as_long A x"
  by (simp_all add: implements_def)

text \<open>Expressions without complement that read only the variables \<open>D\<close>, and programs of such.\<close>

fun supported :: "var list \<Rightarrow> exp \<Rightarrow> bool" where
  "supported D (Num i) = True"
| "supported D (Var v) = (v \<in> set D)"
| "supported D (Bin op a b) = (supported D a \<and> supported D b)"
| "supported D (Rel op a b) = (supported D a \<and> supported D b)"
| "supported D (Compl a) = False"
| "supported D (Neg a) = supported D a"
| "supported D (LNot a) = supported D a"
| "supported D (LAnd a b) = (supported D a \<and> supported D b)"
| "supported D (LOr a b) = (supported D a \<and> supported D b)"
| "supported D (Cond c a b) = (supported D c \<and> supported D a \<and> supported D b)"

fun initialised :: "var list \<Rightarrow> stmt list \<Rightarrow> bool" where
  "initialised D [] = True"
| "initialised D (Assign v e # cs) = (supported D e \<and> initialised (v # D) cs)"
| "initialised D (Assert e # cs) = (supported D e \<and> initialised D cs)"
| "initialised D (AssertEq a b # cs) = (supported D a \<and> supported D b \<and> initialised D cs)"

lemma eval_implements:
  assumes C: "implements R C A" and "\<forall>v\<in>set D. R (t v) (s v)"
  shows "supported D e \<Longrightarrow> eval A s e = Some w \<Longrightarrow> \<exists>c. eval C t e = Some c \<and> R c w"
proof (induction e arbitrary: w)
  case (Bin op a b)
  then show ?case using implements_binary [OF C] by (fastforce split: option.splits)
next
  case (Rel op a b)
  then show ?case
    using implements_relation [OF C] implements_literal [OF C]
    by (fastforce simp: of_bool_literal_def split: option.splits)
next
  case (Neg a)
  then show ?case
    using implements_binary [OF C] implements_literal [OF C] by (fastforce split: option.splits)
next
  case (LNot a)
  then show ?case
    using implements_truth [OF C] implements_literal [OF C]
    by (fastforce simp: of_bool_literal_def split: option.splits)
next
  case (LAnd a b)
  then obtain x where x: "eval A s a = Some x" by (auto split: option.splits)
  then obtain c where c: "eval C t a = Some c" "R c x" using LAnd by auto
  then show ?case
    using LAnd x implements_truth [OF C] implements_literal [OF C]
    by (fastforce simp: of_bool_literal_def split: option.splits if_splits)
next
  case (LOr a b)
  then obtain x where x: "eval A s a = Some x" by (auto split: option.splits)
  then obtain c where c: "eval C t a = Some c" "R c x" using LOr by auto
  then show ?case
    using LOr x implements_truth [OF C] implements_literal [OF C]
    by (fastforce simp: of_bool_literal_def split: option.splits if_splits)
next
  case (Cond e a b)
  then obtain x where x: "eval A s e = Some x" by (auto split: option.splits)
  then obtain c where c: "eval C t e = Some c" "R c x" using Cond by auto
  then show ?case using Cond x implements_truth [OF C] by (auto split: if_splits)
qed (use assms(2) implements_literal [OF C] in auto)

text \<open>The program runs to its end.\<close>

definition completes :: "math_error + 'a \<Rightarrow> bool" where
  "completes r \<longleftrightarrow> (case r of Inl _ \<Rightarrow> False | Inr _ \<Rightarrow> True)"

lemma exec_implements:
  assumes C: "implements R C A"
  shows "initialised D cs \<Longrightarrow> \<forall>v\<in>set D. R (t v) (s v) \<Longrightarrow> completes (exec A cs s) \<Longrightarrow> completes (exec C cs t)"
proof (induction D cs arbitrary: s t rule: initialised.induct)
  case (2 D v e cs)
  then obtain w where w: "eval A s e = Some w" by (auto simp: completes_def split: option.splits)
  then obtain c where c: "eval C t e = Some c" "R c w" using eval_implements [OF C 2(3)] 2(2) by auto
  have "\<forall>u\<in>set (v # D). R ((t(v := c)) u) ((s(v := w)) u)" using 2(3) c(2) by simp
  then have "completes (exec C cs (t(v := c)))" using 2(1,2,4) w by (metis initialised.simps(2) exec.simps(2) step.simps(1) option.simps(5) sum.simps(6))
  then show ?case using c(1) by simp
next
  case (3 D e cs)
  then obtain w where w: "eval A s e = Some w" by (auto simp: completes_def split: option.splits)
  then obtain c where "eval C t e = Some c" "R c w" using eval_implements [OF C 3(3)] 3(2) by auto
  then show ?case using 3 w implements_truth(1) [OF C] by (auto simp: completes_def split: option.splits if_splits)
next
  case (4 D a b cs)
  then obtain x y where w: "eval A s a = Some x" "eval A s b = Some y"
    by (auto simp: completes_def split: option.splits)
  then obtain c d where "eval C t a = Some c" "R c x" "eval C t b = Some d" "R d y"
    using eval_implements [OF C 4(3)] 4(2) by (metis initialised.simps(4))
  then show ?case using 4 w implements_truth(2) [OF C] by (auto simp: completes_def split: option.splits if_splits)
qed (simp add: completes_def)

lemma uintcapmath_initialised: "initialised [] (uintcapmath False negatives)"
proof (cases negatives)
  case True
  have "initialised [] (uintcapmath False True)" by code_simp
  then show ?thesis using True by simp
next
  case False
  have "initialised [] (uintcapmath False False)" by code_simp
  then show ?thesis using False by simp
qed

lemma real_types_complete:
  "completes (exec uint64 (uintcapmath True False) s)" "completes (exec uint64 (uintcapmath False False) s)"
  "completes (exec int64 (uintcapmath True True) s)" "completes (exec int64 (uintcapmath False True) s)"
  by code_simp+

text \<open>
  C13. The test passes in its four variants. For \<open>uint64_t\<close> and \<open>int64_t\<close> no assertion fails, nothing is
  undefined and no signed result overflows. For the capability types, which are built without the parts
  under \<open>INCLUDE_XFAIL\<close>, it passes with every arithmetic that implements the integers of 64 bits,
  unsigned for \<open>__uintcap_t\<close> and signed for \<open>__intcap_t\<close>. All four read no variable before it is
  assigned: the variables may hold anything at first.
\<close>

theorem uintcapmath_passes:
  assumes "implements R uintcap uint64" and "implements R' intcap int64"
  shows "completes (exec uint64 (uintcapmath True False) s) \<and>
    completes (exec int64 (uintcapmath True True) s) \<and>
    completes (exec uintcap (uintcapmath False False) t) \<and>
    completes (exec intcap (uintcapmath False True) t')"
  using real_types_complete exec_implements [OF assms(1) uintcapmath_initialised]
    exec_implements [OF assms(2) uintcapmath_initialised]
  by simp

text \<open>An arithmetic on the offsets of capabilities that are derived from null.\<close>

definition offset_arith :: "u64 arith \<Rightarrow> cap arith" where
  "offset_arith A =
     \<lparr>of_literal = (\<lambda>i. int_cap (of_literal A i)),
      binary = (\<lambda>op a b. map_option (\<lambda>w. a\<lparr>cap_offset := w\<rparr>) (binary A op (cap_offset a) (cap_offset b))),
      less = (\<lambda>a b. less A (cap_addr a) (cap_addr b)),
      equal = (\<lambda>a b. cap_tag a = cap_tag b \<and> equal A (cap_addr a) (cap_addr b)),
      complement = (\<lambda>a. a\<lparr>cap_offset := complement A (cap_offset a)\<rparr>),
      truth = (\<lambda>a. truth A (cap_addr a)),
      as_long = (\<lambda>a. as_long A (cap_addr a))\<rparr>"

lemma offset_arith_implements: "implements (\<lambda>c v. c = int_cap v) (offset_arith A) A"
  by (simp add: implements_def offset_arith_def int_cap_def cap_addr_def)

theorem uintcapmath_passes_witness:
  "completes (exec (offset_arith uint64) (uintcapmath False False) (\<lambda>_. null_cap)) \<and>
   completes (exec (offset_arith int64) (uintcapmath False True) (\<lambda>_. null_cap))"
  using uintcapmath_passes [OF offset_arith_implements offset_arith_implements] by blast

end
