(* ===== verification/TestRuntime.thy ===== *)
theory TestRuntime
  imports CheriMem
begin

text \<open>
  \<open>cheri-c-tests/test_runtime.c\<close>: the handler that catches the capability faults the tests raise,
  tells the test about them and skips the instruction, emulating the branch when the instruction
  is in a delay slot.
\<close>

section \<open>State\<close>

text \<open>
  The saved context: the program counter, the general registers, the cause register, the
  capability registers of the frame in the order of the frame (the default data capability first,
  the program counter capability at 27), and the capability cause.
\<close>

record mcontext =
  mc_pc :: u64
  mc_regs :: "u64 list"
  mc_cause :: u64
  cf_regs :: "cap list"
  cf_capcause :: u32

abbreviation cf_pcc :: "mcontext \<Rightarrow> cap" where
  "cf_pcc context \<equiv> cf_regs context ! 27"

text \<open>A shift by the width of its operand or more is undefined; \<open>Abort\<close> is the call of \<open>abort\<close>.\<close>

datatype runtime_error =
  Assertion_failed | Undefined_shift | Out_of_bounds | Load_failed cheri_fault | Abort

type_synonym 'a result = "runtime_error + 'a"

definition bind :: "'a result \<Rightarrow> ('a \<Rightarrow> 'b result) \<Rightarrow> 'b result" where
  "bind r f = (case r of Inl e \<Rightarrow> Inl e | Inr x \<Rightarrow> f x)"

definition check_that :: "bool \<Rightarrow> 'a result \<Rightarrow> 'a result" where
  "check_that b r = (if b then r else Inl Assertion_failed)"

lemma bind_simps [simp]: "bind (Inl e) f = Inl e" "bind (Inr x) f = f x"
  by (simp_all add: bind_def)

lemma check_that_simps [simp]: "check_that True r = r" "check_that False r = Inl Assertion_failed"
  by (simp_all add: check_that_def)

section \<open>Fields of instructions\<close>

definition sign_extend :: "u64 \<Rightarrow> nat \<Rightarrow> u64" where
  "sign_extend v n = signed_drop_bit (64 - n) (push_bit (64 - n) v)"

text \<open>
  \<open>cap_size\<close> is \<open>sizeof(void*)\<close>; the mask is shifted by \<open>cap_size - len\<close>, a \<open>size_t\<close>.
\<close>

definition getImm :: "nat \<Rightarrow> u32 \<Rightarrow> nat \<Rightarrow> nat \<Rightarrow> u64 result" where
  "getImm cap_size instr start len =
     (let right = (of_nat cap_size - of_nat len :: u64); left = start + 1 - len
      in if 32 \<le> right \<or> 32 \<le> left then Inl Undefined_shift
         else let mask = push_bit left (drop_bit (unat right) (- 1 :: u32))
              in Inr (ucast (drop_bit left (instr AND mask))))"

definition getSImm :: "nat \<Rightarrow> u32 \<Rightarrow> nat \<Rightarrow> nat \<Rightarrow> u64 result" where
  "getSImm cap_size instr start len =
     bind (getImm cap_size instr start len) (\<lambda>v. Inr (sign_extend v len))"

definition getOpcode :: "nat \<Rightarrow> u32 \<Rightarrow> u64 result" where
  "getOpcode cap_size instr = getImm cap_size instr 31 6"

definition getReg :: "nat \<Rightarrow> mcontext \<Rightarrow> u32 \<Rightarrow> nat \<Rightarrow> u64 result" where
  "getReg cap_size context instr opidx =
     bind (getImm cap_size instr opidx 5) (\<lambda>regno.
       if regno = 0 then Inr 0
       else if unat regno < length (mc_regs context) then Inr (mc_regs context ! unat regno)
       else Inl Out_of_bounds)"

definition getCapRegAtIndex :: "mcontext \<Rightarrow> u64 \<Rightarrow> cap result" where
  "getCapRegAtIndex context idx =
     (if idx = 0xff then Inr (cf_pcc context)
      else check_that (idx < 26) (Inr (cf_regs context ! unat idx)))"

definition getCapReg :: "nat \<Rightarrow> mcontext \<Rightarrow> u32 \<Rightarrow> nat \<Rightarrow> cap result" where
  "getCapReg cap_size context instr opidx =
     bind (getImm cap_size instr opidx 5) (getCapRegAtIndex context)"

text \<open>The instruction is read through the program counter capability moved by \<open>pc\<close>.\<close>

definition getAdjustedPc :: "mcontext \<Rightarrow> u64 \<Rightarrow> cap result" where
  "getAdjustedPc context pc =
     (let pcc = cf_pcc context
      in check_that (cap_base pcc < cap_base pcc + pc) (check_that (pc < cap_length pcc)
           (case cheri_offset_increment pcc pc of
              Inl e \<Rightarrow> Inl (Load_failed e) | Inr p \<Rightarrow> Inr p)))"

definition load_word :: "cap \<Rightarrow> memory \<Rightarrow> u32 result" where
  "load_word c m =
     (case access_check c PERM_LOAD Load_fault 4 of
        Some e \<Rightarrow> Inl (Load_failed e)
      | None \<Rightarrow> if unat (cap_addr c) mod 4 \<noteq> 0 then Inl (Load_failed Address_error)
               else Inr (word_of_nat (be_nat (read_bytes m (cap_addr c) 4))))"

definition isInDelaySlot :: "nat \<Rightarrow> mcontext \<Rightarrow> bool result" where
  "isInDelaySlot cap_size context =
     bind (getImm cap_size (ucast (mc_cause context)) 31 1) (\<lambda>v. Inr (v \<noteq> 0))"

section \<open>Opcodes\<close>

text \<open>
  \<open>branch_ops\<close>, the opcodes of branches; \<open>regimm_branch_ops\<close>, the real ones of those under \<open>REGIMM\<close>,
  in bits 20 to 16; and \<open>cheri_branch_ops\<close>, those of the capability coprocessor, in bits 25 to 21.
\<close>

definition MIPS_BRANCH_REGIMM :: u64 where "MIPS_BRANCH_REGIMM = 0x1"
definition MIPS_BRANCH_CHERI :: u64 where "MIPS_BRANCH_CHERI = 0x12"
definition MIPS_BRANCH_J :: u64 where "MIPS_BRANCH_J = 0x2"
definition MIPS_BRANCH_JAL :: u64 where "MIPS_BRANCH_JAL = 0x3"
definition MIPS_BRANCH_JR :: u64 where "MIPS_BRANCH_JR = 0x8"
definition MIPS_BRANCH_JALR :: u64 where "MIPS_BRANCH_JALR = 0x9"
definition MIPS_BRANCH_BEQ :: u64 where "MIPS_BRANCH_BEQ = 0x4"
definition MIPS_BRANCH_BNE :: u64 where "MIPS_BRANCH_BNE = 0x5"
definition MIPS_BRANCH_BLEZ :: u64 where "MIPS_BRANCH_BLEZ = 0x6"
definition MIPS_BRANCH_BGTZ :: u64 where "MIPS_BRANCH_BGTZ = 0x7"
definition MIPS_BRANCH_BEQL :: u64 where "MIPS_BRANCH_BEQL = 0x14"
definition MIPS_BRANCH_BNEL :: u64 where "MIPS_BRANCH_BNEL = 0x15"
definition MIPS_BRANCH_BLEZL :: u64 where "MIPS_BRANCH_BLEZL = 0x16"
definition MIPS_BRANCH_BGTZL :: u64 where "MIPS_BRANCH_BGTZL = 0x17"
definition MIPS_BRANCH_BLTZ :: u64 where "MIPS_BRANCH_BLTZ = 0x0"
definition MIPS_BRANCH_BGEZ :: u64 where "MIPS_BRANCH_BGEZ = 0x1"
definition MIPS_BRANCH_BLTZAL :: u64 where "MIPS_BRANCH_BLTZAL = 0x10"
definition MIPS_BRANCH_BGEZAL :: u64 where "MIPS_BRANCH_BGEZAL = 0x11"
definition MIPS_BRANCH_BLTZL :: u64 where "MIPS_BRANCH_BLTZL = 0x2"
definition MIPS_BRANCH_BGEZL :: u64 where "MIPS_BRANCH_BGEZL = 0x3"
definition MIPS_BRANCH_BLTZALL :: u64 where "MIPS_BRANCH_BLTZALL = 0x12"
definition MIPS_BRANCH_BGEZALL :: u64 where "MIPS_BRANCH_BGEZALL = 0x13"
definition CHERI_BRANCH_CBTU :: u64 where "CHERI_BRANCH_CBTU = 0x09"
definition CHERI_BRANCH_CBTS :: u64 where "CHERI_BRANCH_CBTS = 0x0a"
definition CHERI_BRANCH_CJR :: u64 where "CHERI_BRANCH_CJR = 0x07"
definition CHERI_BRANCH_CJALR :: u64 where "CHERI_BRANCH_CJALR = 0x08"

lemmas branch_ops [simp] =
  MIPS_BRANCH_REGIMM_def MIPS_BRANCH_CHERI_def MIPS_BRANCH_J_def MIPS_BRANCH_JAL_def
  MIPS_BRANCH_JR_def MIPS_BRANCH_JALR_def MIPS_BRANCH_BEQ_def MIPS_BRANCH_BNE_def
  MIPS_BRANCH_BLEZ_def MIPS_BRANCH_BGTZ_def MIPS_BRANCH_BEQL_def MIPS_BRANCH_BNEL_def
  MIPS_BRANCH_BLEZL_def MIPS_BRANCH_BGTZL_def MIPS_BRANCH_BLTZ_def MIPS_BRANCH_BGEZ_def
  MIPS_BRANCH_BLTZAL_def MIPS_BRANCH_BGEZAL_def MIPS_BRANCH_BLTZL_def MIPS_BRANCH_BGEZL_def
  MIPS_BRANCH_BLTZALL_def MIPS_BRANCH_BGEZALL_def CHERI_BRANCH_CBTU_def CHERI_BRANCH_CBTS_def
  CHERI_BRANCH_CJR_def CHERI_BRANCH_CJALR_def

section \<open>Branches\<close>

definition go_to :: "mcontext \<Rightarrow> u64 \<Rightarrow> (bool \<times> mcontext) result" where
  "go_to context pc = Inr (True, context\<lparr>mc_pc := pc\<rparr>)"

text \<open>The branches under \<open>REGIMM\<close>, by bits 20 to 16.\<close>

definition regimm_branch ::
  "mcontext \<Rightarrow> u64 \<Rightarrow> u64 \<Rightarrow> u64 \<Rightarrow> u64 \<Rightarrow> (bool \<times> mcontext) result" where
  "regimm_branch context regVal branchPc normalPc op =
     (let neg = sint regVal < 0
      in if op = MIPS_BRANCH_BLTZL \<or> op = MIPS_BRANCH_BLTZALL then check_that neg (go_to context (if neg then branchPc else normalPc))
         else if op = MIPS_BRANCH_BLTZ \<or> op = MIPS_BRANCH_BLTZAL then go_to context (if neg then branchPc else normalPc)
         else if op = MIPS_BRANCH_BGEZL \<or> op = MIPS_BRANCH_BGEZ
              then check_that neg (go_to context (if \<not> neg then branchPc else normalPc))
         else if op = MIPS_BRANCH_BGEZAL \<or> op = MIPS_BRANCH_BGEZALL then go_to context (if \<not> neg then branchPc else normalPc)
         else Inr (False, context))"

text \<open>The branches of the capability coprocessor, by bits 25 to 21.\<close>

definition cheri_branch ::
  "nat \<Rightarrow> mcontext \<Rightarrow> u32 \<Rightarrow> u64 \<Rightarrow> u64 \<Rightarrow> u64 \<Rightarrow> (bool \<times> mcontext) result" where
  "cheri_branch cap_size context instr branchPc normalPc op =
     (if op = CHERI_BRANCH_CBTU then
        bind (getCapReg cap_size context instr 20) (\<lambda>c.
          go_to context (if \<not> cap_tag c then branchPc else normalPc))
      else if op = CHERI_BRANCH_CBTS then
        bind (getCapReg cap_size context instr 20) (\<lambda>c.
          go_to context (if cap_tag c then branchPc else normalPc))
      else if op = CHERI_BRANCH_CJR \<or> op = CHERI_BRANCH_CJALR then
        bind (getReg cap_size context instr 10) (\<lambda>pc.
        bind (getCapReg cap_size context instr 15) (\<lambda>c.
          Inr (True, context\<lparr>mc_pc := pc, cf_regs := (cf_regs context)[27 := c]\<rparr>)))
      else Inr (False, context))"

definition branch_case ::
  "nat \<Rightarrow> mcontext \<Rightarrow> u32 \<Rightarrow> u64 \<Rightarrow> u64 \<Rightarrow> u64 \<Rightarrow> u64 \<Rightarrow> u64 \<Rightarrow> u64 \<Rightarrow> (bool \<times> mcontext) result" where
  "branch_case cap_size context instr pc branchPc normalPc regVal regVal2 op =
     (if op = MIPS_BRANCH_REGIMM then
        bind (getImm cap_size instr 20 5) (regimm_branch context regVal branchPc normalPc)
      else if op = MIPS_BRANCH_J \<or> op = MIPS_BRANCH_JAL then
        bind (getImm cap_size instr 25 0) (\<lambda>v.
          go_to context (push_bit 2 v AND push_bit 28 (signed_drop_bit 28 pc)))
      else if op = MIPS_BRANCH_JR \<or> op = MIPS_BRANCH_JALR then
        bind (getReg cap_size context instr 25) (go_to context)
      else if op = MIPS_BRANCH_BEQL \<or> op = MIPS_BRANCH_BEQ then
        go_to context (if regVal = regVal2 then branchPc else normalPc)
      else if op = MIPS_BRANCH_BNEL \<or> op = MIPS_BRANCH_BNE then
        go_to context (if regVal \<noteq> regVal2 then branchPc else normalPc)
      else if op = MIPS_BRANCH_BLEZL \<or> op = MIPS_BRANCH_BLEZ then
        go_to context (if sint regVal \<le> 0 then branchPc else normalPc)
      else if op = MIPS_BRANCH_BGTZL \<or> op = MIPS_BRANCH_BGTZ then
        go_to context (if 0 < sint regVal then branchPc else normalPc)
      else if op = MIPS_BRANCH_CHERI then
        bind (getImm cap_size instr 25 5) (cheri_branch cap_size context instr branchPc normalPc)
      else Inr (False, context))"

definition emulateBranch :: "nat \<Rightarrow> memory \<Rightarrow> mcontext \<Rightarrow> u64 \<Rightarrow> (bool \<times> mcontext) result" where
  "emulateBranch cap_size m context pc =
     bind (getAdjustedPc context pc) (\<lambda>p.
     bind (load_word p m) (\<lambda>instr.
     bind (getSImm cap_size instr 15 16) (\<lambda>imm.
       let offset = push_bit 2 imm; branchPc = pc + offset + 4; normalPc = pc + 8 in
     bind (getReg cap_size context instr 25) (\<lambda>regVal.
     bind (getReg cap_size context instr 20) (\<lambda>regVal2.
     bind (getOpcode cap_size instr)
       (branch_case cap_size context instr pc branchPc normalPc regVal regVal2))))))"

section \<open>The handler\<close>

text \<open>
  The handler of the test gets the capability register and the cause and updates the number of
  faults; it may be absent. \<open>count_fault\<close> is the handler the runtime starts with.
\<close>

type_synonym fault_handler = "cap \<Rightarrow> u32 \<Rightarrow> int \<Rightarrow> int"

definition count_fault :: fault_handler where
  "count_fault reg cause faults = faults + 1"

text \<open>\<open>sigprot\<close> is the number of the signal in the headers of the system.\<close>

definition capsighandler ::
  "nat \<Rightarrow> int \<Rightarrow> fault_handler option \<Rightarrow> memory \<Rightarrow> int \<Rightarrow> mcontext \<Rightarrow> int \<Rightarrow> (mcontext \<times> int) result" where
  "capsighandler cap_size sigprot handler m signo context faults =
     bind (isInDelaySlot cap_size context) (\<lambda>isDelaySlot.
     bind (getCapRegAtIndex context (ucast (cf_capcause context AND 0xff))) (\<lambda>reg.
     check_that (signo = sigprot)
       (case handler of
          None \<Rightarrow> Inl Assertion_failed
        | Some h \<Rightarrow>
            (let faults' = h reg (drop_bit 8 (cf_capcause context)) faults; pc = mc_pc context
             in if isDelaySlot then
                  check_that (4 < sint pc)
                    (bind (emulateBranch cap_size m context pc) (\<lambda>(emulated, context').
                      if emulated then Inr (context', faults') else Inl Abort))
                else Inr (context\<lparr>mc_pc := pc + 4\<rparr>, faults')))))"


text \<open>
  \<open>test_setup\<close> installs the handler; \<open>sigaction\<close> is the system call, on the actions of the process.
\<close>

definition test_setup :: "int \<Rightarrow> (int \<Rightarrow> 'h \<Rightarrow> 'p \<Rightarrow> int \<times> 'p) \<Rightarrow> 'h \<Rightarrow> 'p \<Rightarrow> 'p result" where
  "test_setup sigprot sigaction action p =
     (case sigaction sigprot action p of (r, p') \<Rightarrow> if r \<noteq> 0 then Inl Assertion_failed else Inr p')"

end
