(* ===== verification/TestRuntimeProps.thy ===== *)
theory TestRuntimeProps
  imports TestRuntime
begin

text \<open>
  What the fault handler of the tests does, against the branches of the MIPS architecture, for
  capabilities of 32 bytes; and where it goes wrong.
\<close>

section \<open>Fields\<close>

lemma mask_field:
  "drop_bit l (w AND push_bit l (drop_bit (32 - n) (- 1 :: u32))) = take_bit n (drop_bit l w)" if "n \<le> 32"
  using that by (intro bit_word_eqI)
    (auto simp: bit_drop_bit_eq bit_and_iff bit_push_bit_iff bit_take_bit_iff bit_mask_iff dest: bit_imp_le_length)

text \<open>The field of \<open>len\<close> bits that ends at bit \<open>start\<close>.\<close>

lemma getImm_field:
  assumes "0 < len" and "len \<le> start + 1" and "start < 32"
  shows "getImm 32 instr start len = Inr (of_nat (unat instr div 2 ^ (start + 1 - len) mod 2 ^ len))"
proof -
  have r: "(of_nat 32 - of_nat len :: u64) = of_nat (32 - len)" using assms by (simp add: of_nat_diff)
  have u: "unat (of_nat (32 - len) :: u64) = 32 - len" using assms by (simp add: unat_of_nat del: of_nat_diff)
  have "\<not> (32 \<le> (of_nat (32 - len) :: u64))" using assms u by (simp add: word_le_nat_alt)
  moreover have "ucast (take_bit len (drop_bit (start + 1 - len) instr)) =
      (of_nat (unat instr div 2 ^ (start + 1 - len) mod 2 ^ len) :: u64)"
  proof -
    have "unat (take_bit len (drop_bit (start + 1 - len) instr)) =
        unat instr div 2 ^ (start + 1 - len) mod 2 ^ len"
      using unsigned_less [of instr, where ?'a = nat]
      by (simp only: unsigned_take_bit_eq unsigned_drop_bit_eq) (simp add: take_bit_eq_mod drop_bit_eq_div)
    then show ?thesis by (metis of_nat_unat)
  qed
  moreover have "\<not> 32 \<le> start + 1 - len" using assms by simp
  moreover have "len \<le> 32" using assms by simp
  ultimately show ?thesis
    unfolding getImm_def Let_def r u by (simp only: mask_field if_False simp_thms)
qed

text \<open>An instruction with an opcode, two register fields and 16 bits of immediate.\<close>

definition itype :: "nat \<Rightarrow> nat \<Rightarrow> nat \<Rightarrow> 16 word \<Rightarrow> u32" where
  "itype op rs rt imm = of_nat (op * 2 ^ 26 + rs * 2 ^ 21 + rt * 2 ^ 16 + unat imm)"

lemma itype_fields:
  assumes "op < 64" and "rs < 32" and "rt < 32"
  shows "getImm 32 (itype op rs rt imm) 31 6 = Inr (of_nat op)"
    and "getImm 32 (itype op rs rt imm) 25 5 = Inr (of_nat rs)"
    and "getImm 32 (itype op rs rt imm) 20 5 = Inr (of_nat rt)"
    and "getImm 32 (itype op rs rt imm) 15 16 = Inr (of_nat (unat imm))"
proof -
  let ?i = "unat imm"
  have i: "?i < 65536" using unsigned_less [of imm, where ?'a = nat] by simp
  let ?N = "op * 67108864 + rs * 2097152 + rt * 65536 + ?i"
  have "?N < 4294967296" using assms i by simp
  then have u: "unat (itype op rs rt imm) = ?N"
    by (simp add: itype_def unat_of_nat take_bit_nat_eq_self del: of_nat_add of_nat_mult)
  have 1: "?N div 67108864 mod 64 = op" using assms i by simp
  have 2: "?N div 2097152 mod 32 = rs"
  proof -
    have "?N div 2097152 = op * 32 + rs" using assms i by (intro div_nat_eqI) simp_all
    then show ?thesis using assms by simp
  qed
  have 3: "?N div 65536 mod 32 = rt"
  proof -
    have "?N div 65536 = (op * 32 + rs) * 32 + rt" using assms i by (intro div_nat_eqI) simp_all
    then show ?thesis using assms(3) by (metis mod_less mod_mult_self3)
  qed
  have 4: "?N mod 65536 = ?i"
  proof -
    have "?N = ((op * 32 + rs) * 32 + rt) * 65536 + ?i" by simp
    then show ?thesis using i by (metis mod_less mod_mult_self3)
  qed
  show "getImm 32 (itype op rs rt imm) 31 6 = Inr (of_nat op)"
    "getImm 32 (itype op rs rt imm) 25 5 = Inr (of_nat rs)"
    "getImm 32 (itype op rs rt imm) 20 5 = Inr (of_nat rt)"
    "getImm 32 (itype op rs rt imm) 15 16 = Inr (of_nat (unat imm))"
    by (simp_all only: getImm_field u 1 2 3 4 zero_less_numeral arith_simps rel_simps numeral_plus_one
        diff_numeral_special diff_nat_numeral power_numeral nat_numeral) (simp_all add: 1 2 3 4 u getImm_field)
qed

lemma sign_extend_16: "sign_extend (of_nat (unat (imm :: 16 word))) 16 = scast imm"
proof -
  have last: "\<not> 16 \<le> n \<Longrightarrow> 15 \<le> n \<Longrightarrow> n = 15" for n :: nat by simp
  show ?thesis
    unfolding sign_extend_def
    by (rule bit_word_eqI)
      (auto simp: bit_signed_drop_bit_iff bit_push_bit_iff bit_unsigned_iff bit_signed_iff
        unsigned_of_nat [symmetric] min_def dest!: last)
qed

section \<open>The branches of the architecture\<close>

datatype condition =
  Equal | Not_equal | Less_equal_zero | Greater_zero | Less_zero | Greater_equal_zero

fun taken :: "condition \<Rightarrow> u64 \<Rightarrow> u64 \<Rightarrow> bool" where
  "taken Equal a b = (a = b)"
| "taken Not_equal a b = (a \<noteq> b)"
| "taken Less_equal_zero a b = (sint a \<le> 0)"
| "taken Greater_zero a b = (0 < sint a)"
| "taken Less_zero a b = (sint a < 0)"
| "taken Greater_equal_zero a b = (0 \<le> sint a)"

text \<open>The instruction word: \<open>likely\<close> and \<open>link\<close> select the variant.\<close>

fun branch :: "condition \<Rightarrow> bool \<Rightarrow> bool \<Rightarrow> nat \<Rightarrow> nat \<Rightarrow> 16 word \<Rightarrow> u32" where
  "branch Equal likely link rs rt imm = itype (if likely then 0x14 else 4) rs rt imm"
| "branch Not_equal likely link rs rt imm = itype (if likely then 0x15 else 5) rs rt imm"
| "branch Less_equal_zero likely link rs rt imm = itype (if likely then 0x16 else 6) rs 0 imm"
| "branch Greater_zero likely link rs rt imm = itype (if likely then 0x17 else 7) rs 0 imm"
| "branch Less_zero likely link rs rt imm =
     itype 1 rs ((if likely then 2 else 0) + (if link then 16 else 0)) imm"
| "branch Greater_equal_zero likely link rs rt imm =
     itype 1 rs (1 + (if likely then 2 else 0) + (if link then 16 else 0)) imm"

definition register :: "mcontext \<Rightarrow> nat \<Rightarrow> u64" where
  "register context r = (if r = 0 then 0 else mc_regs context ! r)"

definition next_pc :: "u64 \<Rightarrow> 16 word \<Rightarrow> bool \<Rightarrow> u64" where
  "next_pc pc imm b = (if b then pc + 4 + push_bit 2 (scast imm) else pc + 8)"

text \<open>The instruction at the saved program counter.\<close>

definition fetches :: "mcontext \<Rightarrow> memory \<Rightarrow> u64 \<Rightarrow> u32 \<Rightarrow> bool" where
  "fetches context m pc instr \<longleftrightarrow>
     (case getAdjustedPc context pc of Inl e \<Rightarrow> False | Inr p \<Rightarrow> load_word p m = Inr instr)"

definition context_wf :: "mcontext \<Rightarrow> bool" where
  "context_wf context \<longleftrightarrow> length (mc_regs context) = 32 \<and> length (cf_regs context) = 28"

lemma getReg_field:
  assumes "getImm 32 instr i 5 = Inr (of_nat r)" and "r < 32" and "context_wf context"
  shows "getReg 32 context instr i = Inr (register context r)"
proof -
  have u: "unat (of_nat r :: u64) = r" using assms(2) by (simp add: unat_of_nat)
  then have "(of_nat r :: u64) = 0 \<longleftrightarrow> r = 0" by (cases "r = 0") auto
  then show ?thesis using assms u by (simp add: getReg_def register_def context_wf_def)
qed

text \<open>What is left of the emulation once the fields are read.\<close>

lemma emulate_fields:
  assumes "fetches context m pc (itype op rs rt imm)" and "context_wf context"
    and "op < 64" and "rs < 32" and "rt < 32"
  shows "emulateBranch 32 m context pc =
    branch_case 32 context (itype op rs rt imm) pc (next_pc pc imm True) (pc + 8)
      (register context rs) (register context rt) (of_nat op)"
proof -
  note f = itype_fields [OF assms(3-5), of imm]
  obtain p where p: "getAdjustedPc context pc = Inr p" "load_word p m = Inr (itype op rs rt imm)"
    using assms(1) by (auto simp: fetches_def split: sum.splits)
  have "getSImm 32 (itype op rs rt imm) 15 16 = Inr (scast imm)"
    using f(4) sign_extend_16 [of imm] by (simp add: getSImm_def)
  then show ?thesis
    using getReg_field [OF f(2) assms(4,2)] getReg_field [OF f(3) assms(5,2)] f(1)
    by (simp add: emulateBranch_def p getOpcode_def next_pc_def Let_def ac_simps)
qed

lemma regimm_code: "(if likely then 2 else 0) + (if link then 16 else 0) < (32 :: nat)"
  "1 + (if likely then 2 else 0) + (if link then 16 else 0) < (32 :: nat)"
  by (cases likely; cases link; simp)+

lemma emulate_two_registers:
  assumes "context_wf context" and "rs < 32" and "rt < 32"
    and "cond \<noteq> Less_zero" and "cond \<noteq> Greater_equal_zero"
    and "fetches context m pc (branch cond likely link rs rt imm)"
  shows "emulateBranch 32 m context pc =
    Inr (True, context\<lparr>mc_pc := next_pc pc imm (taken cond (register context rs) (register context rt))\<rparr>)"
  using assms by (cases cond; cases likely)
    (simp_all add: emulate_fields branch_case_def go_to_def next_pc_def)

lemma emulate_regimm:
  assumes "fetches context m pc (itype 1 rs op imm)" and "context_wf context" and "rs < 32" and "op < 32"
  shows "emulateBranch 32 m context pc =
    regimm_branch context (register context rs) (next_pc pc imm True) (pc + 8) (of_nat op)"
  using emulate_fields [OF assms(1,2) _ assms(3,4)] itype_fields(3) [of 1 rs op imm] assms(3,4)
  by (simp add: branch_case_def)

lemma emulate_less_zero:
  assumes "context_wf context" and "rs < 32" and "fetches context m pc (branch Less_zero likely link rs rt imm)"
  shows "emulateBranch 32 m context pc =
    (if likely \<and> \<not> taken Less_zero (register context rs) 0 then Inl Assertion_failed
     else Inr (True, context\<lparr>mc_pc := next_pc pc imm (taken Less_zero (register context rs) 0)\<rparr>))"
  using emulate_regimm [of "context" m pc rs "(if likely then 2 else 0) + (if link then 16 else 0)" imm] assms
  by (cases likely; cases link) (simp_all add: regimm_branch_def go_to_def next_pc_def check_that_def)

lemma emulate_greater_equal_zero:
  assumes "context_wf context" and "rs < 32"
    and "fetches context m pc (branch Greater_equal_zero likely link rs rt imm)"
  shows "emulateBranch 32 m context pc =
    (if \<not> link \<and> taken Greater_equal_zero (register context rs) 0 then Inl Assertion_failed
     else Inr (True, context\<lparr>mc_pc := next_pc pc imm (taken Greater_equal_zero (register context rs) 0)\<rparr>))"
  using emulate_regimm [of "context" m pc rs "1 + (if likely then 2 else 0) + (if link then 16 else 0)" imm] assms
  by (cases likely; cases link)
    (simp_all add: regimm_branch_def go_to_def next_pc_def check_that_def not_less not_le)

lemma emulate_conditions:
  assumes "context_wf context" and "rs < 32" and "rt < 32"
    and "fetches context m pc (branch cond likely link rs rt imm)"
  shows "emulateBranch 32 m context pc =
    (let b = taken cond (register context rs) (register context rt)
     in if cond = Less_zero \<and> likely \<and> \<not> b \<or> cond = Greater_equal_zero \<and> \<not> link \<and> b
        then Inl Assertion_failed
        else Inr (True, context\<lparr>mc_pc := next_pc pc imm b\<rparr>))"
  using emulate_two_registers [OF assms(1-3) _ _ assms(4)]
    emulate_less_zero [OF assms(1,2), of m pc likely link rt imm]
    emulate_greater_equal_zero [OF assms(1,2), of m pc likely link rt imm] assms(4)
  by (cases cond) (simp_all add: Let_def)

text \<open>
  C2. A branch on a condition over the general registers, with the saved program counter on it,
  leaves the program counter the architecture goes to after the delay slot: the target when the
  condition holds and the instruction behind the slot otherwise. The exceptions are stated: the
  assertion that a likely branch on a negative register is taken, and \<open>bgez\<close> and \<open>bgezl\<close>, whose
  assertion is the wrong way round and stops every branch that is taken.
\<close>

theorem emulates_branches:
  assumes "context_wf context" and "rs < 32" and "rt < 32"
    and "fetches context m pc (branch cond likely link rs rt imm)"
  shows "emulateBranch 32 m context pc =
    (let b = taken cond (register context rs) (register context rt)
     in if cond = Less_zero \<and> likely \<and> \<not> b \<or> cond = Greater_equal_zero \<and> \<not> link \<and> b
        then Inl Assertion_failed
        else Inr (True, context\<lparr>mc_pc := next_pc pc imm b\<rparr>))"
  by (rule emulate_conditions [OF assms])

lemma getCapReg_field:
  assumes "getImm 32 instr i 5 = Inr (of_nat r)" and "r < 32"
  shows "getCapReg 32 context instr i = check_that (r < 26) (Inr (cf_regs context ! r))"
proof -
  have u: "unat (of_nat r :: u64) = r" using assms(2) by (simp add: unat_of_nat)
  have "(of_nat r :: u64) \<noteq> 0xff" using u assms(2) by auto
  moreover have "(of_nat r :: u64) < 26 \<longleftrightarrow> r < 26" using u by (simp add: word_less_nat_alt)
  ultimately show ?thesis using assms(1) u by (simp add: getCapReg_def getCapRegAtIndex_def)
qed

lemma emulate_cheri:
  assumes "fetches context m pc (itype 0x12 op rt imm)" and "context_wf context" and "op < 32" and "rt < 32"
  shows "emulateBranch 32 m context pc =
    cheri_branch 32 context (itype 0x12 op rt imm) (next_pc pc imm True) (pc + 8) (of_nat op)"
  using emulate_fields [OF assms(1,2) _ assms(3,4)] itype_fields(2) [of 18 op rt imm] assms(3,4)
  by (simp add: branch_case_def)

text \<open>A branch on the tag of a capability register goes to its target when the tag is clear
  (\<open>cbtu\<close>, code 9) or set (\<open>cbts\<close>, code 10); a register the frame does not have is caught.
\<close>

theorem emulates_tag_branches:
  assumes "context_wf context" and "cb < 32" and "code \<in> {9, 10}"
    and "fetches context m pc (itype 0x12 code cb imm)"
  shows "emulateBranch 32 m context pc =
    (if cb < 26 then Inr (True, context\<lparr>mc_pc := next_pc pc imm (cap_tag (cf_regs context ! cb) = (code = 10))\<rparr>)
     else Inl Assertion_failed)"
proof -
  have "code < 32" "code = 9 \<or> code = 10" using assms(3) by auto
  then show ?thesis
    using emulate_cheri [OF assms(4,1) \<open>code < 32\<close> assms(2)]
      getCapReg_field [OF itype_fields(3) [of 18 code cb imm] assms(2), of "context"] assms(2)
    by (auto simp: cheri_branch_def go_to_def next_pc_def)
qed

text \<open>With 16 bytes the field of a register takes in everything above it.\<close>

lemma getImm_16:
  "getImm 16 instr 25 5 = Inr (of_nat (unat instr div 2 ^ 21))"
  "getImm 16 instr 15 16 = Inr (ucast instr)"
proof -
  have "drop_bit 21 (instr AND push_bit 21 (drop_bit 11 (- 1))) = drop_bit 21 instr"
    by (rule bit_word_eqI)
      (auto simp: bit_drop_bit_eq bit_and_iff bit_push_bit_iff bit_mask_iff dest: bit_imp_le_length)
  moreover have "ucast (drop_bit 21 instr) = (of_nat (unat instr div 2 ^ 21) :: u64)"
  proof -
    have "unat (drop_bit 21 instr) = unat instr div 2 ^ 21"
      using unsigned_less [of instr, where ?'a = nat]
      by (simp only: unsigned_drop_bit_eq) (simp add: drop_bit_eq_div take_bit_nat_eq_self)
    then show ?thesis by (metis of_nat_unat)
  qed
  ultimately show "getImm 16 instr 25 5 = Inr (of_nat (unat instr div 2 ^ 21))"
    by (simp add: getImm_def)
qed (simp add: getImm_def)

lemma emulate_16:
  assumes "context_wf context" and "op < 64" and "rs < 32" and "rt < 32"
    and "fetches context m pc (itype op rs rt imm)" and "0 < op"
  shows "emulateBranch 16 m context pc = Inl Out_of_bounds"
proof -
  obtain p where p: "getAdjustedPc context pc = Inr p" "load_word p m = Inr (itype op rs rt imm)"
    using assms(5) by (auto simp: fetches_def split: sum.splits)
  have i: "unat imm < 65536" using unsigned_less [of imm, where ?'a = nat] by simp
  have "op * 67108864 + rs * 2097152 + rt * 65536 + unat imm < 4294967296" using assms(2-4) i by simp
  then have u: "unat (itype op rs rt imm) = op * 67108864 + rs * 2097152 + rt * 65536 + unat imm"
    by (simp add: itype_def unat_of_nat take_bit_nat_eq_self del: of_nat_add of_nat_mult)
  define r where "r = unat (itype op rs rt imm) div 2097152"
  have "unat (itype op rs rt imm) div 2097152 = op * 32 + rs"
    unfolding u using assms(4) i by (intro div_nat_eqI) simp_all
  then have r: "32 \<le> r" "r < 2048" using assms(2,3,6) by (simp_all add: r_def)
  then have ur: "unat (of_nat r :: u64) = r" by (simp add: unat_of_nat)
  have "(of_nat r :: u64) \<noteq> 0" using ur r(1) by (metis not_numeral_le_zero unat_0)
  then have "getReg 16 context (itype op rs rt imm) 25 = Inl Out_of_bounds"
    using assms(1) ur r(1) by (simp add: getReg_def getImm_16 context_wf_def r_def [symmetric])
  then show ?thesis
    by (simp add: emulateBranch_def p getSImm_def getImm_16 Let_def)
qed

text \<open>C38. The other branches are not emulated. \<open>j\<close> and \<open>jal\<close> read a field of no bits, a shift by the
  width of the word; \<open>jr\<close> and \<open>jalr\<close> have the opcode 0 and not 8 and 9, so they are taken for no
  branch at all. With capabilities of 16 bytes the masks are too wide and every branch reads its
  registers out of bounds.
\<close>

theorem branches_not_emulated:
  assumes "context_wf context" and "op < 64" and "rs < 32" and "rt < 32"
    and "fetches context m pc (itype op rs rt imm)"
  shows "(op \<in> {2, 3} \<longrightarrow> emulateBranch 32 m context pc = Inl Undefined_shift) \<and>
    (op = 0 \<longrightarrow> emulateBranch 32 m context pc = Inr (False, context)) \<and>
    (0 < op \<longrightarrow> emulateBranch 16 m context pc = Inl Out_of_bounds)"
proof -
  have "getImm 32 (itype op rs rt imm) 25 0 = Inl Undefined_shift" by (simp add: getImm_def)
  then have "op \<in> {2, 3} \<longrightarrow> emulateBranch 32 m context pc = Inl Undefined_shift"
    using emulate_fields [OF assms(5,1,2,3,4)] by (auto simp: branch_case_def)
  moreover have "op = 0 \<longrightarrow> emulateBranch 32 m context pc = Inr (False, context)"
    using emulate_fields [OF assms(5,1,2,3,4)] by (auto simp: branch_case_def)
  moreover have "0 < op \<longrightarrow> emulateBranch 16 m context pc = Inl Out_of_bounds"
    using emulate_16 [OF assms] by blast
  ultimately show ?thesis by blast
qed

section \<open>The handler\<close>

lemma isInDelaySlot_32: "isInDelaySlot 32 context = Inr (bit (mc_cause context) 31)"
proof -
  define w :: u32 where "w = ucast (mc_cause context)"
  have "bit w 31 = bit (mc_cause context) 31" by (simp add: w_def bit_ucast_iff)
  moreover have "bit (unat w) 31 = bit w 31" by (simp add: bit_unsigned_iff)
  moreover have "unat w div 2 ^ 31 mod 2 ^ 1 = of_bool (bit (unat w) 31)"
    by (simp only: bit_iff_odd power_one_right mod_2_eq_odd)
  ultimately show ?thesis
    using getImm_field [of 1 31 w] by (simp add: isInDelaySlot_def w_def [symmetric])
qed

definition cause_register :: "mcontext \<Rightarrow> cap" where
  "cause_register context =
     (let i = unat (cf_capcause context AND 0xff)
      in if i = 255 then cf_pcc context else cf_regs context ! i)"

definition cause_register_ok :: "mcontext \<Rightarrow> bool" where
  "cause_register_ok context \<longleftrightarrow>
     (let i = unat (cf_capcause context AND 0xff) in i = 255 \<or> i < 26)"

lemma getCapRegAtIndex_cause:
  assumes "cause_register_ok context"
  shows "getCapRegAtIndex context (ucast (cf_capcause context AND 0xff)) = Inr (cause_register context)"
proof -
  define w where "w = cf_capcause context AND 0xff"
  have u: "unat (ucast w :: u64) = unat w"
    using unsigned_less [of w, where ?'a = nat] by (simp add: unsigned_ucast_eq take_bit_nat_eq_self)
  have "(ucast w :: u64) = 0xff \<longleftrightarrow> unat w = 255" unfolding word_unat_eq_iff u by simp
  moreover have "(ucast w :: u64) < 26 \<longleftrightarrow> unat w < 26" using u by (simp add: word_less_nat_alt)
  ultimately show ?thesis
    using assms u
    by (auto simp: getCapRegAtIndex_def cause_register_def cause_register_ok_def w_def [symmetric] Let_def)
qed

lemma jumps_not_emulated:
  assumes "context_wf context" and "op < 64" and "rs < 32" and "rt < 32"
    and "fetches context m pc (itype op rs rt imm)"
  shows "op \<in> {2, 3} \<Longrightarrow> emulateBranch 32 m context pc = Inl Undefined_shift"
    and "op = 0 \<Longrightarrow> emulateBranch 32 m context pc = Inr (False, context)"
proof -
  have "getImm 32 (itype op rs rt imm) 25 0 = Inl Undefined_shift" by (simp add: getImm_def)
  then show "op \<in> {2, 3} \<Longrightarrow> emulateBranch 32 m context pc = Inl Undefined_shift"
    using emulate_fields [OF assms(5,1,2,3,4)] by (auto simp: branch_case_def)
  show "op = 0 \<Longrightarrow> emulateBranch 32 m context pc = Inr (False, context)"
    using emulate_fields [OF assms(5,1,2,3,4)] by (auto simp: branch_case_def)
qed

text \<open>
  C25. Where the handler resumes the program, and where it does not. It tells the test the faulting
  register and the cause. Outside of delay slots it resumes at the next instruction. In the delay slot
  of a conditional branch on general-purpose registers it resumes where the branch goes, taken or not,
  unless the branch is one of those the emulation stops at with a failed assertion: a \<open>bltzl\<close> that is
  not taken, a \<open>bgez\<close> or \<open>bgezl\<close> that is. In the delay slot of \<open>j\<close> and \<open>jal\<close> the emulation shifts by the
  width of the word, in that of an instruction with opcode 0, such as \<open>jr\<close> and \<open>jalr\<close>, the handler
  aborts. Where it resumes, nothing else of the context has changed.
\<close>

theorem handler_resumes:
  fixes m h faults sigprot
  assumes "context_wf context" and "cause_register_ok context" and "rs < 32" and "rt < 32"
  defines "slot \<equiv> bit (mc_cause context) 31" and "pc \<equiv> mc_pc context"
    and "told \<equiv> h (cause_register context) (drop_bit 8 (cf_capcause context)) faults"
    and "result \<equiv> capsighandler 32 sigprot (Some h) m sigprot context faults"
  shows "(\<not> slot \<longrightarrow> result = Inr (context\<lparr>mc_pc := pc + 4\<rparr>, told)) \<and>
    (slot \<and> sint pc \<le> 4 \<longrightarrow> result = Inl Assertion_failed) \<and>
    (slot \<and> 4 < sint pc \<and> fetches context m pc (branch cond likely link rs rt imm) \<longrightarrow>
      (let b = taken cond (register context rs) (register context rt)
       in result = (if cond = Less_zero \<and> likely \<and> \<not> b \<or> cond = Greater_equal_zero \<and> \<not> link \<and> b
            then Inl Assertion_failed
            else Inr (context\<lparr>mc_pc := next_pc pc imm b\<rparr>, told)))) \<and>
    (slot \<and> 4 < sint pc \<and> op \<in> {2, 3} \<and> fetches context m pc (itype op rs rt imm) \<longrightarrow>
      result = Inl Undefined_shift) \<and>
    (slot \<and> 4 < sint pc \<and> fetches context m pc (itype 0 rs rt imm) \<longrightarrow> result = Inl Abort)"
proof -
  have r: "result = (if slot then check_that (4 < sint pc) (bind (emulateBranch 32 m context pc)
      (\<lambda>(emulated, context'). if emulated then Inr (context', told) else Inl Abort))
    else Inr (context\<lparr>mc_pc := pc + 4\<rparr>, told))"
    unfolding result_def slot_def pc_def told_def
    by (simp add: capsighandler_def isInDelaySlot_32 getCapRegAtIndex_cause [OF assms(2)] Let_def)
  show ?thesis
  proof (intro conjI impI)
    assume "slot \<and> 4 < sint pc \<and> fetches context m pc (branch cond likely link rs rt imm)"
    then show "let b = taken cond (register context rs) (register context rt)
       in result = (if cond = Less_zero \<and> likely \<and> \<not> b \<or> cond = Greater_equal_zero \<and> \<not> link \<and> b
            then Inl Assertion_failed
            else Inr (context\<lparr>mc_pc := next_pc pc imm b\<rparr>, told))"
      using emulate_conditions [OF assms(1,3,4), of m pc cond likely link imm] by (cases cond) (simp_all add: r Let_def)
  next
    assume "slot \<and> 4 < sint pc \<and> op \<in> {2, 3} \<and> fetches context m pc (itype op rs rt imm)"
    moreover have "op < 64" if "op \<in> {2, 3}" using that by auto
    ultimately show "result = Inl Undefined_shift"
      using jumps_not_emulated(1) [OF assms(1) _ assms(3,4), of op m pc imm] by (simp add: r)
  next
    assume "slot \<and> 4 < sint pc \<and> fetches context m pc (itype 0 rs rt imm)"
    then show "result = Inl Abort"
      using jumps_not_emulated(2) [OF assms(1) _ assms(3,4), of 0 m pc imm] by (simp add: r)
  qed (simp_all add: r)
qed

section \<open>A context\<close>

text \<open>
  A program of 4096 bytes at address 65536 that stopped at offset 256, with \<open>code\<close> as the four
  bytes there; register 1 holds -1, register 2 holds 5; \<open>cause\<close> is the cause register.
\<close>

definition example_pcc :: cap where
  "example_pcc = \<lparr>cap_tag = True, cap_sealed = False, cap_perms = 0x7, cap_otype = 0,
     cap_base = 65536, cap_length = 4096, cap_offset = 0\<rparr>"

definition example_context :: "u64 \<Rightarrow> mcontext" where
  "example_context cause =
     \<lparr>mc_pc = 256, mc_regs = [0, -1, 5] @ replicate 29 0, mc_cause = cause,
      cf_regs = replicate 27 example_pcc @ [example_pcc], cf_capcause = 0x1203\<rparr>"

definition example_memory :: "u8 list \<Rightarrow> memory" where
  "example_memory code = \<lparr>bytes = (\<lambda>x. code ! unat (x - 65792)), tags = \<lambda>_. False\<rparr>"

lemma example_fetches:
  assumes "length code = 4" and "instr = word_of_nat (be_nat code)"
  shows "fetches (example_context cause) (example_memory code) 256 instr"
proof -
  have c: "cf_pcc (example_context cause) = example_pcc" by (simp add: example_context_def nth_append)
  have "read_bytes (example_memory code) 65792 4 = code"
    using assms(1) by (intro nth_equalityI) (simp_all add: read_bytes_nth example_memory_def unat_of_nat)
  then show ?thesis
    unfolding fetches_def getAdjustedPc_def Let_def c
    by (simp add: example_pcc_def cheri_offset_increment_def load_word_def access_check_def
        has_perm_def PERM_LOAD_def in_bounds_def cap_addr_def assms(2))
qed

lemma example_context_ok:
  "context_wf (example_context cause)" "cause_register_ok (example_context cause)"
  by (simp_all add: context_wf_def cause_register_ok_def example_context_def)

text \<open>\<open>bne $1, $2, 3\<close>, \<open>cbts $c3, 3\<close>, \<open>jal\<close> and \<open>bltz $1, 3\<close>.\<close>

theorem emulates_branches_witness:
  "emulateBranch 32 (example_memory [0x14, 0x22, 0, 3]) (example_context 0) 256 =
    Inr (True, (example_context 0)\<lparr>mc_pc := 272\<rparr>)"
proof -
  have "fetches (example_context 0) (example_memory [0x14, 0x22, 0, 3]) 256
      (branch Not_equal False False 1 2 3)"
    by (rule example_fetches) (simp_all add: itype_def be_nat_def)
  from emulates_branches [OF example_context_ok(1) _ _ this]
  show ?thesis by (simp add: register_def example_context_def next_pc_def)
qed

theorem emulates_tag_branches_witness:
  "emulateBranch 32 (example_memory [0x49, 0x43, 0, 3]) (example_context 0) 256 =
    Inr (True, (example_context 0)\<lparr>mc_pc := 272\<rparr>)"
proof -
  have "fetches (example_context 0) (example_memory [0x49, 0x43, 0, 3]) 256 (itype 0x12 10 3 3)"
    by (rule example_fetches) (simp_all add: itype_def be_nat_def)
  from emulates_tag_branches [OF example_context_ok(1) _ _ this]
  show ?thesis by (simp add: example_context_def next_pc_def example_pcc_def nth_append)
qed

theorem branches_not_emulated_witness:
  "emulateBranch 32 (example_memory [0x0c, 0, 0, 3]) (example_context 0) 256 = Inl Undefined_shift \<and>
   emulateBranch 16 (example_memory [0x0c, 0, 0, 3]) (example_context 0) 256 = Inl Out_of_bounds"
proof -
  have "fetches (example_context 0) (example_memory [0x0c, 0, 0, 3]) 256 (itype 3 0 0 3)"
    by (rule example_fetches) (simp_all add: itype_def be_nat_def)
  from branches_not_emulated [OF example_context_ok(1) _ _ _ this] show ?thesis by simp
qed

theorem handler_resumes_witness:
  "capsighandler 32 34 (Some count_fault) (example_memory [0x04, 0x20, 0, 3]) 34
     (example_context 0x80000000) 0 =
    Inr ((example_context 0x80000000)\<lparr>mc_pc := 272\<rparr>, 1)"
proof -
  have f: "fetches (example_context 0x80000000) (example_memory [0x04, 0x20, 0, 3]) 256
      (branch Less_zero False False 1 0 3)"
    by (rule example_fetches) (simp_all add: itype_def be_nat_def)
  have b: "bit (mc_cause (example_context 0x80000000)) 31" by (simp add: example_context_def)
  show ?thesis
    using handler_resumes [OF example_context_ok, of 1 0 "0x80000000" 34 count_fault
        "example_memory [0x04, 0x20, 0, 3]" 0 Less_zero False False 3 2] f b
    by (simp add: example_context_def register_def next_pc_def count_fault_def)
qed

end
