(* ===== verification/FuzzFpu.thy ===== *)
theory FuzzFpu
  imports CPrelude
begin

text \<open>
  \<open>fuzz_fpu.c\<close>: the generator of a raw test of 1024 random floating point instructions. The
  results of \<open>random\<close> are a parameter.
\<close>


section \<open>The program\<close>

definition fuzz_word :: "u32 \<Rightarrow> u32" where
  "fuzz_word rnd = (rnd AND 0x00bfffff) OR 0x46000000"

definition fuzz_header :: "string list" where
  "fuzz_header =
     [''.set mips64'', ''.set noreorder'', ''.set nobopt'', ''.set noat'', [],
      TAB # TAB # ''.text'', TAB # TAB # ''.global start'', TAB # TAB # ''.ent start'', ''start:'',
      TAB # TAB # ''mfc0 $t0, $12'', TAB # TAB # ''li $t1, 1 << 29'',
      TAB # TAB # ''or $t0, $t0, $t1'', TAB # TAB # ''mtc0 $t0, $12'',
      TAB # TAB # ''nop'', TAB # TAB # ''nop'', TAB # TAB # ''nop'']"

definition fuzz_footer :: "string list" where
  "fuzz_footer =
     [TAB # TAB # ''mtc0 $at, $26'', TAB # TAB # ''nop'', TAB # TAB # ''nop'',
      TAB # TAB # ''mtc0 $at, $23'', ''end:'', TAB # TAB # ''b end'', TAB # TAB # ''nop'',
      ''.end start'']"

definition word_line :: "u32 \<Rightarrow> string" where
  "word_line r = TAB # TAB # ''.word 0x'' @ fmt_08x r"

definition fuzz_fpu_main :: "(nat \<Rightarrow> u32) \<Rightarrow> proc" where
  "fuzz_fpu_main rnd =
     exit_ok (concat (map (\<lambda>l. l @ [NL])
       (fuzz_header @ map (\<lambda>i. word_line (fuzz_word (rnd i))) [0..<1024] @ fuzz_footer)))"

section \<open>The words\<close>

text \<open>The major opcode and the format field of a coprocessor instruction.\<close>

definition opcode :: "u32 \<Rightarrow> u32" where "opcode w = drop_bit 26 w"
definition format :: "u32 \<Rightarrow> u32" where "format w = drop_bit 21 w AND 31"

lemma mask_bits:
  "bit (0x00bfffff :: u32) n \<longleftrightarrow> n < 24 \<and> n \<noteq> 22"
  "bit (0x46000000 :: u32) n \<longleftrightarrow> n = 25 \<or> n = 26 \<or> n = 30"
proof -
  have "\<forall>n\<in>set [0..<32]. (bit (0x00bfffff :: u32) n \<longleftrightarrow> n < 24 \<and> n \<noteq> 22) \<and>
      (bit (0x46000000 :: u32) n \<longleftrightarrow> n = 25 \<or> n = 26 \<or> n = 30)"
    by code_simp
  moreover have "\<not> bit (w :: u32) n" if "32 \<le> n" for w using that bit_imp_le_length [of w n] by auto
  ultimately show "bit (0x00bfffff :: u32) n \<longleftrightarrow> n < 24 \<and> n \<noteq> 22"
    "bit (0x46000000 :: u32) n \<longleftrightarrow> n = 25 \<or> n = 26 \<or> n = 30"
    by (cases "n < 32"; force)+
qed

lemma small_bits:
  "bit (17 :: u32) n \<longleftrightarrow> n = 0 \<or> n = 4" "bit (16 :: u32) n \<longleftrightarrow> n = 4" "bit (4 :: u32) n \<longleftrightarrow> n = 2"
proof -
  have "\<forall>n\<in>set [0..<32]. (bit (17 :: u32) n \<longleftrightarrow> n = 0 \<or> n = 4) \<and> (bit (16 :: u32) n \<longleftrightarrow> n = 4) \<and>
      (bit (4 :: u32) n \<longleftrightarrow> n = 2)" by code_simp
  moreover have "\<not> bit (w :: u32) n" if "32 \<le> n" for w using that bit_imp_le_length [of w n] by auto
  ultimately show "bit (17 :: u32) n \<longleftrightarrow> n = 0 \<or> n = 4" "bit (16 :: u32) n \<longleftrightarrow> n = 4"
    "bit (4 :: u32) n \<longleftrightarrow> n = 2"
    by (cases "n < 32"; force)+
qed

lemma fuzz_word_bit: "bit (fuzz_word r) n \<longleftrightarrow> (n < 24 \<and> n \<noteq> 22 \<and> bit r n) \<or> n = 25 \<or> n = 26 \<or> n = 30"
  by (auto simp: fuzz_word_def bit_or_iff bit_and_iff mask_bits simp del: bit_numeral_word_iff)

lemma field_bits:
  "bit (opcode w) k = bit w (26 + k)" "bit (format w) k = (bit w (21 + k) \<and> k < 5)"
proof -
  have "bit (31 :: u32) k \<longleftrightarrow> k < 5"
    using bit_mask_iff [of 5 k, where ?'a = u32] bit_imp_le_length [of "31 :: u32" k]
    by (auto simp: mask_eq_exp_minus_1)
  then show "bit (format w) k = (bit w (21 + k) \<and> k < 5)"
    by (simp add: format_def bit_and_iff bit_drop_bit_eq)
qed (simp add: opcode_def bit_drop_bit_eq)

lemma fuzz_word_fixed:
  assumes "opcode w = 17" and "format w \<in> {16, 17, 20, 21}"
  shows "fuzz_word w = w"
proof (rule bit_word_eqI)
  fix n assume "n < LENGTH(32)"
  then have n: "n < 32" by simp
  have o: "bit w (26 + k) = bit (17 :: u32) k" for k
    using field_bits(1) [of w k] assms(1) by simp
  have "bit (format w) 4" "\<not> bit (format w) 3" "\<not> bit (format w) 1" using assms(2) by auto
  then have f: "bit w 25" "\<not> bit w 24" "\<not> bit w 22" by (simp_all add: field_bits)
  have h: "bit w 26" "\<not> bit w 27" "\<not> bit w 28" "\<not> bit w 29" "bit w 30" "\<not> bit w 31"
    using o [of 0] o [of 1] o [of 2] o [of 3] o [of 4] o [of 5] by simp_all
  have "n < 22 \<or> n = 23 \<or> n = 22 \<or> n = 24 \<or> n = 25 \<or> n = 26 \<or> n = 27 \<or> n = 28 \<or> n = 29 \<or>
      n = 30 \<or> n = 31" using n by arith
  then show "bit (fuzz_word w) n = bit w n" using f h by (auto simp: fuzz_word_bit)
qed

lemma fuzz_word_fields:
  "opcode (fuzz_word r) = 17" "format (fuzz_word r) \<in> {16, 17, 20, 21}"
proof -
  show "opcode (fuzz_word r) = 17"
    by (rule bit_word_eqI) (auto simp: field_bits fuzz_word_bit small_bits simp del: bit_numeral_word_iff)
  have lt3: "n < 3 \<Longrightarrow> n = 0 \<or> n = 1 \<or> n = 2" for n :: nat by arith
  have f: "format (fuzz_word r) = 16 OR (if bit r 21 then 1 else 0) OR (if bit r 23 then 4 else 0)"
    by (rule bit_word_eqI) (auto simp: field_bits fuzz_word_bit bit_or_iff bit_1_iff small_bits simp del: bit_numeral_word_iff dest!: lt3)
  show "format (fuzz_word r) \<in> {16, 17, 20, 21}" unfolding f by simp
qed

text \<open>
  C35. The words the fuzzer writes are exactly the ones of coprocessor 1 with a format field of
  single, double, word or long: every random number gives such a word, and every such word comes
  from a random number.
\<close>

theorem fuzz_words_are_fpu_operations:
  "range fuzz_word = {w. opcode w = 17 \<and> format w \<in> {16, 17, 20, 21}}"
  using fuzz_word_fixed fuzz_word_fields by (auto simp: image_iff) metis+

section \<open>The text\<close>

text \<open>What an assembler finds: the numbers of the lines with \<open>.word\<close>.\<close>

definition word_prefix :: string where
  "word_prefix = TAB # TAB # ''.word 0x''"

definition word_values :: "string \<Rightarrow> u32 list" where
  "word_values s =
     map (\<lambda>l. of_nat (read_base 16 0 (drop (length word_prefix) l))) (filter (prefix word_prefix) (chunks 64 s))"

lemma fmt_08x_set: "set (fmt_08x w) \<subseteq> {c. is_digit 16 c}"
  using show_base_digits [of 16 "unat w"] is_digit_char [of 16 0]
  by (auto simp: fmt_08x_def pad_left_def list_all_iff digit_char_0)

lemma word_line_is_line: "is_line 64 (word_line w @ [NL])"
proof -
  have "NL \<notin> set (fmt_08x w)" using fmt_08x_set [of w] is_digit16_chars by blast
  then show ?thesis by (simp add: is_line_def word_line_def fmt_08x_length)
qed

lemma read_word_line: "of_nat (read_base 16 0 (drop (length word_prefix) (word_line w @ [NL]))) = w"
proof -
  have "drop (length word_prefix) (word_line w @ [NL]) = fmt_08x w @ [NL]"
    by (simp add: word_prefix_def word_line_def)
  moreover have "read_base 16 0 (fmt_08x w @ [NL]) = unat w"
    unfolding fmt_08x_def by (rule read_padded) (simp_all add: is_digit16_chars)
  ultimately show ?thesis by simp
qed

text \<open>
  The printed program has exactly 1024 \<open>.word\<close> lines; read back in order they are the words
  made from the random numbers, and the exit status is 0.
\<close>

theorem fuzz_fpu_roundtrip:
  "word_values (stdout (fuzz_fpu_main rnd)) = map (\<lambda>i. fuzz_word (rnd i)) [0..<1024] \<and>
   status (fuzz_fpu_main rnd) = 0"
proof -
  let ?ws = "map (\<lambda>i. fuzz_word (rnd i)) [0..<1024]"
  let ?ls = "map (\<lambda>l. l @ [NL]) (fuzz_header @ map word_line ?ws @ fuzz_footer)"
  have out: "stdout (fuzz_fpu_main rnd) = concat ?ls" by (simp add: fuzz_fpu_main_def comp_def del: upt_Suc)
  have h: "\<forall>l\<in>set (map (\<lambda>l. l @ [NL]) (fuzz_header @ fuzz_footer)). is_line 64 l \<and> \<not> prefix word_prefix l"
    by (simp add: fuzz_header_def fuzz_footer_def is_line_def word_prefix_def)
  have w: "prefix word_prefix (word_line w @ [NL])" for w by (simp add: word_prefix_def word_line_def)
  have "\<forall>l\<in>set ?ls. is_line 64 l" using h word_line_is_line by auto
  then have "chunks 64 (stdout (fuzz_fpu_main rnd)) = ?ls" unfolding out by (rule chunks_lines)
  moreover have "filter (prefix word_prefix) ?ls = map (\<lambda>w. word_line w @ [NL]) ?ws"
  proof -
    have "filter (prefix word_prefix) (map (\<lambda>l. l @ [NL]) fuzz_header) = []"
      "filter (prefix word_prefix) (map (\<lambda>l. l @ [NL]) fuzz_footer) = []"
      using h by (auto simp: filter_empty_conv)
    moreover have "filter (prefix word_prefix) (map (\<lambda>i. word_line (f i) @ [NL]) vs) =
        map (\<lambda>i. word_line (f i) @ [NL]) vs" for f :: "nat \<Rightarrow> u32" and vs
      using w by (induction vs) simp_all
    ultimately show ?thesis by (simp add: comp_def del: upt_Suc)
  qed
  ultimately show ?thesis
    by (simp add: word_values_def comp_def read_word_line fuzz_fpu_main_def del: upt_Suc drop_append)
qed

end
