(* ===== verification/MultiThreadTest.thy ===== *)
theory MultiThreadTest
  imports DmaGen "HOL-Library.Multiset"
begin

text \<open>
  \<open>fuzz_dma/multithread_test_template.c\<close>: the test of a DMA engine with several threads. What the
  script puts into the template is a parameter (the number of threads, the seed, the addresses and
  programs, the assignments before the run and the assertions behind it), and so is the engine
  behind \<open>DMAControl.h\<close>. The random numbers are the ones of \<open>DmaGen\<close>, whose generator the template
  repeats.
\<close>

section \<open>State\<close>

record ('i, 'e) dma_engine =
  dma_set_pc :: "nat \<Rightarrow> 'i \<Rightarrow> 'e \<Rightarrow> 'e"
  dma_set_source_address :: "nat \<Rightarrow> u64 \<Rightarrow> 'e \<Rightarrow> 'e"
  dma_set_dest_address :: "nat \<Rightarrow> u64 \<Rightarrow> 'e \<Rightarrow> 'e"
  dma_start_transfer :: "nat \<Rightarrow> 'e \<Rightarrow> 'e"
  dma_switch_to :: "nat \<Rightarrow> nat \<Rightarrow> 'e \<Rightarrow> 'e"
  dma_thread_ready :: "nat \<Rightarrow> 'e \<Rightarrow> bool \<times> 'e"
  four_nops :: "'e \<Rightarrow> 'e"

record ('i, 'e) template =
  thread_count :: nat
  seed :: u64
  source_addrs :: "u64 list"
  dest_addrs :: "u64 list"
  dma_programs :: "'i list"
  set_sources :: "'e \<Rightarrow> 'e"
  asserts :: "'e \<Rightarrow> bool"

definition DMA_THREAD_COUNT :: nat where "DMA_THREAD_COUNT = 4"

record 'e test_state =
  rand_state :: u64
  active_threads :: "nat list"
  active_thread_count :: nat
  thread_index :: "nat list"
  thread :: "nat list"
  engine :: 'e

datatype mt_error = Division_by_zero | Assertion_failed

section \<open>The test\<close>

text \<open>One pass of the loop that picks the threads to switch to.\<close>

definition choose_thread :: "nat \<Rightarrow> 'e test_state \<Rightarrow> mt_error + 'e test_state" where
  "choose_thread i s =
     (let (r, n) = myrand (rand_state s)
      in if active_thread_count s = 0 then Inl Division_by_zero
         else let k = nat r mod active_thread_count s
              in Inr (s\<lparr>rand_state := n, thread_index := (thread_index s)[i := k],
                        thread := (thread s)[i := active_threads s ! k]\<rparr>))"

fun choose_threads :: "nat list \<Rightarrow> 'e test_state \<Rightarrow> mt_error + 'e test_state" where
  "choose_threads [] s = Inr s"
| "choose_threads (i # picks) s =
     (case choose_thread i s of Inl e \<Rightarrow> Inl e | Inr s' \<Rightarrow> choose_threads picks s')"

text \<open>The engine before the loop: every thread gets its program and addresses and is started.\<close>

fun set_up :: "('i, 'e) dma_engine \<Rightarrow> ('i, 'e) template \<Rightarrow> nat list \<Rightarrow> 'e \<Rightarrow> 'e" where
  "set_up D p [] e = e"
| "set_up D p (i # threads) e =
     set_up D p threads
       (dma_set_dest_address D i (dest_addrs p ! i)
         (dma_set_source_address D i (source_addrs p ! i)
           (dma_set_pc D i (dma_programs p ! i) e)))"

fun start_transfers :: "('i, 'e) dma_engine \<Rightarrow> nat list \<Rightarrow> 'e \<Rightarrow> 'e" where
  "start_transfers D [] e = e"
| "start_transfers D (i # threads) e = start_transfers D threads (dma_start_transfer D i e)"

definition start_state :: "('i, 'e) dma_engine \<Rightarrow> ('i, 'e) template \<Rightarrow> 'e \<Rightarrow> mt_error + 'e test_state" where
  "start_state D p e =
     (let threads = [0..<thread_count p];
          s = \<lparr>rand_state = seed p, active_threads = threads, active_thread_count = thread_count p,
               thread_index = replicate 3 0, thread = replicate 3 0,
               engine = set_up D p threads (set_sources p e)\<rparr>
      in map_sum id (engine_update (start_transfers D threads)) (choose_threads [0, 1, 2] s))"

text \<open>
  One pass of the loop: three switches, a random wait, and the test whether the last of the three
  threads is ready; a ready thread is replaced by the last active one.
\<close>

definition switch_three :: "('i, 'e) dma_engine \<Rightarrow> 'e test_state \<Rightarrow> 'e test_state" where
  "switch_three D s =
     s\<lparr>engine := dma_switch_to D DMA_THREAD_COUNT (thread s ! 2)
        (dma_switch_to D DMA_THREAD_COUNT (thread s ! 1)
          (dma_switch_to D DMA_THREAD_COUNT (thread s ! 0) (engine s)))\<rparr>"

definition wait_a_while :: "('i, 'e) dma_engine \<Rightarrow> 'e test_state \<Rightarrow> 'e test_state" where
  "wait_a_while D s =
     (let (r, n) = myrand (rand_state s)
      in s\<lparr>rand_state := n, engine := (four_nops D ^^ nat (r mod 20)) (engine s)\<rparr>)"

definition drop_ready :: "('i, 'e) dma_engine \<Rightarrow> 'e test_state \<Rightarrow> 'e test_state" where
  "drop_ready D s =
     (let (ready, e) = dma_thread_ready D (thread s ! 2) (engine s)
      in if ready
         then s\<lparr>engine := e,
                active_threads := (active_threads s)[thread_index s ! 2 :=
                  active_threads s ! (active_thread_count s - 1)],
                active_thread_count := active_thread_count s - 1\<rparr>
         else s\<lparr>engine := e\<rparr>)"

definition test_pass :: "('i, 'e) dma_engine \<Rightarrow> 'e test_state \<Rightarrow> mt_error + 'e test_state" where
  "test_pass D s = choose_threads [0, 1, 2] (drop_ready D (wait_a_while D (switch_three D s)))"

partial_function (option) test_loop ::
  "('i, 'e) dma_engine \<Rightarrow> 'e test_state \<Rightarrow> (mt_error + 'e test_state) option" where
  "test_loop D s =
     (if active_thread_count s = 0 then Some (Inr s)
      else case test_pass D s of Inl e \<Rightarrow> Some (Inl e) | Inr s' \<Rightarrow> test_loop D s')"

definition multithread_test :: "('i, 'e) dma_engine \<Rightarrow> ('i, 'e) template \<Rightarrow> 'e \<Rightarrow> (mt_error + int) option" where
  "multithread_test D p e =
     (case start_state D p e of
        Inl e \<Rightarrow> Some (Inl e)
      | Inr s \<Rightarrow>
          (case test_loop D s of
             None \<Rightarrow> None
           | Some (Inl e) \<Rightarrow> Some (Inl e)
           | Some (Inr s') \<Rightarrow> if asserts p (engine s') then Some (Inr 0) else Some (Inl Assertion_failed)))"

section \<open>The active threads\<close>

text \<open>The states at the head of the loop, with the threads dropped so far.\<close>

inductive reach :: "('i, 'e) dma_engine \<Rightarrow> ('i, 'e) template \<Rightarrow> 'e \<Rightarrow> nat list \<Rightarrow> 'e test_state \<Rightarrow> bool"
  for D p e where
  start: "start_state D p e = Inr s \<Longrightarrow> reach D p e [] s"
| pass: "reach D p e ts s \<Longrightarrow> active_thread_count s \<noteq> 0 \<Longrightarrow> test_pass D s = Inr s' \<Longrightarrow>
    reach D p e
      (if active_thread_count s' < active_thread_count s then ts @ [thread s ! 2] else ts) s'"

inductive_cases reach_elim: "reach D p e ts s"

text \<open>What holds at the head of the loop.\<close>

definition chosen :: "'e test_state \<Rightarrow> nat \<Rightarrow> bool" where
  "chosen s i \<longleftrightarrow> thread_index s ! i < active_thread_count s \<and>
     thread s ! i = active_threads s ! (thread_index s ! i)"

definition threads_inv :: "nat \<Rightarrow> nat list \<Rightarrow> 'e test_state \<Rightarrow> bool" where
  "threads_inv n ts s \<longleftrightarrow> length (active_threads s) = n \<and> active_thread_count s \<le> n \<and>
     mset (take (active_thread_count s) (active_threads s)) + mset ts = mset [0..<n]"

definition state_inv :: "nat \<Rightarrow> nat list \<Rightarrow> 'e test_state \<Rightarrow> bool" where
  "state_inv n ts s \<longleftrightarrow> threads_inv n ts s \<and> 0 < active_thread_count s \<and>
     length (thread_index s) = 3 \<and> length (thread s) = 3 \<and> (\<forall>i<3. chosen s i)"

lemma choose_thread_Inr:
  assumes "choose_thread i s = Inr s'"
  shows "0 < active_thread_count s"
    and "\<exists>k<active_thread_count s. s' = s\<lparr>rand_state := snd (myrand (rand_state s)), thread_index := (thread_index s)[i := k],
      thread := (thread s)[i := active_threads s ! k]\<rparr>"
proof -
  let ?k = "nat (fst (myrand (rand_state s))) mod active_thread_count s"
  from assms show c: "0 < active_thread_count s"
    by (auto simp: choose_thread_def Let_def split: prod.splits if_splits)
  then have "s' = s\<lparr>rand_state := snd (myrand (rand_state s)), thread_index := (thread_index s)[i := ?k],
      thread := (thread s)[i := active_threads s ! ?k]\<rparr>" "?k < active_thread_count s"
    using assms by (auto simp: choose_thread_def Let_def split: prod.splits)
  then show "\<exists>k<active_thread_count s. s' = s\<lparr>rand_state := snd (myrand (rand_state s)), thread_index := (thread_index s)[i := k],
      thread := (thread s)[i := active_threads s ! k]\<rparr>" by blast
qed

lemma choose_threads_chosen:
  assumes "choose_threads [0, 1, 2] s = Inr s'" and "length (thread_index s) = 3" and "length (thread s) = 3"
  shows "active_threads s' = active_threads s \<and> active_thread_count s' = active_thread_count s \<and>
    engine s' = engine s \<and> 0 < active_thread_count s \<and>
    length (thread_index s') = 3 \<and> length (thread s') = 3 \<and> (\<forall>i<3. chosen s' i)"
proof -
  obtain s1 s2 where 1: "choose_thread 0 s = Inr s1" and 2: "choose_thread 1 s1 = Inr s2"
    and 3: "choose_thread 2 s2 = Inr s'"
    using assms(1) by (auto split: sum.splits)
  have lt3: "i < 3 \<Longrightarrow> i = 0 \<or> i = 1 \<or> i = 2" for i :: nat by arith
  show ?thesis
    using choose_thread_Inr [OF 1] choose_thread_Inr [OF 2] choose_thread_Inr [OF 3] assms(2,3)
    by (auto simp: chosen_def dest!: lt3)
qed

lemma mset_swap_last:
  assumes "i < n" and "n \<le> length xs"
  shows "mset (take (n - 1) (xs[i := xs ! (n - 1)])) + {#xs ! i#} = mset (take n xs)"
proof -
  obtain k where n: "n = Suc k" using assms(1) by (cases n) auto
  have k: "k < length xs" "i \<le> k" using assms n by auto
  have t: "take n xs = take k xs @ [xs ! k]" using k n by (simp add: take_Suc_conv_app_nth)
  show ?thesis
  proof (cases "i = k")
    case True
    then show ?thesis using t n by simp
  next
    case False
    then have i: "i < length (take k xs)" using k by simp
    have "take k (xs[i := xs ! k]) = (take k xs)[i := xs ! k]" by (simp add: take_update_swap)
    then have "mset (take k (xs[i := xs ! k])) = mset (take k xs) - {#xs ! i#} + {#xs ! k#}"
      using mset_update [OF i, of "xs ! k"] i by simp
    moreover have "xs ! i \<in># mset (take k xs)" using i by (metis nth_mem nth_take length_take min_less_iff_conj set_mset_mset)
    ultimately show ?thesis using t n by simp
  qed
qed

lemma start_state_inv:
  assumes "start_state D p e = Inr s"
  shows "state_inv (thread_count p) [] s"
proof -
  let ?s = "\<lparr>rand_state = seed p, active_threads = [0..<thread_count p],
    active_thread_count = thread_count p, thread_index = replicate 3 0, thread = replicate 3 0,
    engine = set_up D p [0..<thread_count p] (set_sources p e)\<rparr>"
  obtain s1 where s1: "choose_threads [0, 1, 2] ?s = Inr s1"
    "s = engine_update (start_transfers D [0..<thread_count p]) s1"
    using assms by (auto simp: start_state_def Let_def map_sum_def split: sum.splits)
  have "length (thread_index ?s) = 3" "length (thread ?s) = 3" by simp_all
  from choose_threads_chosen [OF s1(1) this] show ?thesis
    by (auto simp: s1(2) state_inv_def threads_inv_def chosen_def)
qed

lemma drop_ready_inv:
  assumes "state_inv n ts s"
  shows "threads_inv n (if active_thread_count (drop_ready D s) < active_thread_count s then ts @ [thread s ! 2] else ts)
    (drop_ready D s)"
    and "thread_index (drop_ready D s) = thread_index s" "thread (drop_ready D s) = thread s"
    and "active_thread_count (drop_ready D s) = 0 \<Longrightarrow> active_thread_count s = 1"
proof -
  have "chosen s 2" and i: "threads_inv n ts s" "0 < active_thread_count s"
    using assms by (simp_all add: state_inv_def)
  then have c: "thread_index s ! 2 < active_thread_count s"
    "thread s ! 2 = active_threads s ! (thread_index s ! 2)" by (simp_all add: chosen_def)
  have m: "mset (take (active_thread_count s - 1) ((active_threads s)[thread_index s ! 2 :=
      active_threads s ! (active_thread_count s - 1)])) + {#thread s ! 2#} =
    mset (take (active_thread_count s) (active_threads s))"
    unfolding c(2) using c(1) i by (intro mset_swap_last) (simp_all add: threads_inv_def)
  show "threads_inv n (if active_thread_count (drop_ready D s) < active_thread_count s then ts @ [thread s ! 2] else ts)
    (drop_ready D s)"
  proof (cases "fst (dma_thread_ready D (thread s ! 2) (engine s))")
    case True
    have "mset (take (active_thread_count s - 1) ((active_threads s)[thread_index s ! 2 :=
        active_threads s ! (active_thread_count s - 1)])) + mset (ts @ [thread s ! 2]) = mset [0..<n]"
      using m i(1) by (simp add: threads_inv_def) (metis union_mset_add_mset_left)
    then show ?thesis
      using True i by (auto simp: drop_ready_def threads_inv_def split: prod.splits)
  next
    case False
    then show ?thesis using i by (auto simp: drop_ready_def threads_inv_def split: prod.splits)
  qed
  show "thread_index (drop_ready D s) = thread_index s" "thread (drop_ready D s) = thread s"
    by (simp_all add: drop_ready_def split: prod.splits)
  show "active_thread_count (drop_ready D s) = 0 \<Longrightarrow> active_thread_count s = 1"
    using i(2) by (auto simp: drop_ready_def split: prod.splits if_splits)
qed

lemma switch_wait_same:
  "rand_state (switch_three D s) = rand_state s"
  "state_inv n ts (wait_a_while D (switch_three D s)) = state_inv n ts s"
  "active_thread_count (wait_a_while D (switch_three D s)) = active_thread_count s"
  "thread (wait_a_while D (switch_three D s)) = thread s"
  by (simp_all add: switch_three_def wait_a_while_def state_inv_def threads_inv_def chosen_def Let_def
      split: prod.splits)

lemma test_pass_inv:
  assumes "state_inv n ts s" and "test_pass D s = Inr s'"
  shows "state_inv n (if active_thread_count s' < active_thread_count s then ts @ [thread s ! 2] else ts) s'"
proof -
  let ?w = "wait_a_while D (switch_three D s)"
  have w: "state_inv n ts ?w" using assms(1) by (simp add: switch_wait_same)
  note d = drop_ready_inv [OF w, of D]
  have c: "choose_threads [0, 1, 2] (drop_ready D ?w) = Inr s'" using assms(2) by (simp add: test_pass_def)
  have l: "length (thread_index (drop_ready D ?w)) = 3" "length (thread (drop_ready D ?w)) = 3"
    using w d(2,3) by (simp_all add: state_inv_def)
  show ?thesis
    using choose_threads_chosen [OF c l] d(1) [unfolded switch_wait_same(3,4)]
    by (simp add: state_inv_def threads_inv_def del: choose_threads.simps)
qed

lemma reach_inv: "reach D p e ts s \<Longrightarrow> state_inv (thread_count p) ts s"
  by (induction rule: reach.induct) (blast intro: start_state_inv, rule test_pass_inv)

lemma choose_threads_Inl:
  "choose_threads is0 s = Inl e \<Longrightarrow> e = Division_by_zero \<and> active_thread_count s = 0"
proof (induction is0 arbitrary: s)
  case (Cons i is0)
  then show ?case
    by (fastforce simp: choose_thread_def Let_def split: prod.splits if_splits sum.splits)
qed simp

text \<open>
  C8. Before every pass the active threads and the threads dropped so far are together all the
  threads, each exactly once; the three threads chosen are active, so no switch goes to a dropped
  thread and no index leaves the arrays. A thread is dropped only when the engine says it is ready.
\<close>

theorem active_threads_invariant:
  assumes "reach D p e ts s"
  shows "mset (take (active_thread_count s) (active_threads s)) + mset ts = mset [0..<thread_count p] \<and>
    0 < active_thread_count s \<and>
    (\<forall>i<3. thread_index s ! i < active_thread_count s \<and> active_thread_count s \<le> length (active_threads s) \<and>
       thread s ! i = active_threads s ! (thread_index s ! i)) \<and>
    (active_thread_count (drop_ready D s) < active_thread_count s \<longrightarrow>
       fst (dma_thread_ready D (thread s ! 2) (engine s)))"
proof -
  have "fst (dma_thread_ready D (thread s ! 2) (engine s))"
    if "active_thread_count (drop_ready D s) < active_thread_count s"
    using that by (auto simp: drop_ready_def split: prod.splits if_splits)
  then show ?thesis
    using reach_inv [OF assms] by (auto simp: state_inv_def threads_inv_def chosen_def)
qed

lemma test_loop_fails:
  assumes "test_loop D s = Some r" and "active_thread_count s \<noteq> 0"
  shows "r = Inl Division_by_zero"
proof -
  let ?Q = "\<lambda>D (s :: 'e test_state) r. active_thread_count s \<noteq> 0 \<longrightarrow> r = Inl Division_by_zero"
  have "?Q D s r"
  proof (rule test_loop.raw_induct [OF _ assms(1)], intro impI)
    fix f :: "('i, 'e) dma_engine \<Rightarrow> 'e test_state \<Rightarrow> (mt_error + 'e test_state) option" and D s r
    assume ih: "\<And>D s r. f D s = Some r \<Longrightarrow> ?Q D s r" and n: "active_thread_count s \<noteq> 0"
      and body: "(if active_thread_count s = 0 then Some (Inr s)
        else case test_pass D s of Inl e \<Rightarrow> Some (Inl e) | Inr s' \<Rightarrow> f D s') = Some r"
    show "r = Inl Division_by_zero"
    proof (cases "test_pass D s")
      case (Inl e)
      then have "e = Division_by_zero"
        unfolding test_pass_def by (rule choose_threads_Inl [THEN conjunct1])
      then show ?thesis using body n Inl by simp
    next
      case (Inr s')
      then have "active_thread_count s' \<noteq> 0"
        by (auto simp: test_pass_def choose_thread_def Let_def split: sum.splits prod.splits if_splits)
      then show ?thesis using ih [of D s' r] body n Inr by simp
    qed
  qed
  then show ?thesis using assms(2) by simp
qed

definition always_ready :: "(unit, unit) dma_engine" where
  "always_ready = \<lparr>dma_set_pc = (\<lambda>_ _ e. e), dma_set_source_address = (\<lambda>_ _ e. e),
     dma_set_dest_address = (\<lambda>_ _ e. e), dma_start_transfer = (\<lambda>_ e. e), dma_switch_to = (\<lambda>_ _ e. e),
     dma_thread_ready = (\<lambda>_ e. (True, e)), four_nops = (\<lambda>e. e)\<rparr>"

definition two_threads :: "(unit, unit) template" where
  "two_threads = \<lparr>thread_count = 2, seed = 1, source_addrs = [0, 64], dest_addrs = [32, 96],
     dma_programs = [(), ()], set_sources = (\<lambda>e. e), asserts = (\<lambda>_. True)\<rparr>"

definition after_start :: "unit test_state" where
  "after_start = \<lparr>rand_state = 15426401326682203284, active_threads = [0, 1], active_thread_count = 2,
     thread_index = [0, 0, 1], thread = [0, 0, 1], engine = ()\<rparr>"

lemma first_numbers:
  "myrand 1 = (16838, 1103527590)"
  "myrand 1103527590 = (5758, 1217759518843121895)"
  "myrand 1217759518843121895 = (10113, 15426401326682203284)"
  by (simp_all add: prod_eq_iff myrand_value myrand_state)

lemma after_start: "start_state always_ready two_threads () = Inr after_start"
proof -
  have "[0..<2] = [0, 1]" "replicate 3 x = [x, x, x]" "[x, y, z][2 := w] = [x, y, w]" for x y z w :: nat
    by (simp_all add: upt_rec numeral_3_eq_3 numeral_2_eq_2)
  then show ?thesis
    by (simp add: start_state_def two_threads_def always_ready_def after_start_def choose_thread_def
        first_numbers Let_def)
qed

theorem active_threads_invariant_witness:
  "reach always_ready two_threads () [] after_start \<and>
   mset (take (active_thread_count after_start) (active_threads after_start)) = {#0, 1#} \<and>
   fst (dma_thread_ready always_ready (active_threads after_start ! (thread_index after_start ! 2)) (engine after_start))"
proof -
  have r: "reach always_ready two_threads () [] after_start" by (rule reach.start [OF after_start])
  have "active_thread_count (drop_ready always_ready after_start) < active_thread_count after_start"
    by (simp add: drop_ready_def always_ready_def after_start_def)
  moreover have "mset [0..<thread_count two_threads] = {#0, 1#}" by (simp add: two_threads_def upt_rec)
  ultimately show ?thesis using active_threads_invariant [OF r] r by auto
qed

text \<open>A run that gets ahead: the engine's work goes down whenever a thread is found not ready.\<close>

definition makes_progress :: "('i, 'e) dma_engine \<Rightarrow> ('e \<Rightarrow> nat) \<Rightarrow> bool" where
  "makes_progress D work \<longleftrightarrow>
     (\<forall>m i e. work (dma_switch_to D m i e) \<le> work e) \<and> (\<forall>e. work (four_nops D e) \<le> work e) \<and>
     (\<forall>i e. work (snd (dma_thread_ready D i e)) + (if fst (dma_thread_ready D i e) then 0 else 1) \<le> work e)"

lemma nops_work: "makes_progress D work \<Longrightarrow> work ((four_nops D ^^ n) e) \<le> work e"
  by (induction n) (auto simp: makes_progress_def intro: order_trans)

lemma pass_progress:
  assumes p: "makes_progress D work" and a: "0 < active_thread_count s" and s': "test_pass D s = Inr s'"
  shows "work (engine s') + active_thread_count s' < work (engine s) + active_thread_count s"
proof -
  let ?w = "wait_a_while D (switch_three D s)"
  have switch: "work (dma_switch_to D m i e) \<le> work e" for m i e using p by (simp add: makes_progress_def)
  have "work (engine ?w) \<le> work (engine (switch_three D s))"
    using nops_work [OF p] by (simp add: wait_a_while_def split: prod.splits)
  also have "\<dots> \<le> work (engine s)"
    by (simp add: switch_three_def) (meson switch order_trans)
  finally have w: "work (engine ?w) \<le> work (engine s)" .
  have r: "work (snd (dma_thread_ready D i e)) + (if fst (dma_thread_ready D i e) then 0 else 1) \<le> work e" for i e
    using p by (simp add: makes_progress_def)
  have "work (engine (drop_ready D ?w)) + active_thread_count (drop_ready D ?w)
      < work (engine ?w) + active_thread_count ?w"
    using r [of "thread ?w ! 2" "engine ?w"] a
    by (auto simp: drop_ready_def switch_wait_same split: prod.splits if_splits)
  moreover have "engine s' = engine (drop_ready D ?w) \<and> active_thread_count s' = active_thread_count (drop_ready D ?w)"
    using s' by (auto simp: test_pass_def choose_thread_def Let_def split: sum.splits prod.splits if_splits)
  ultimately show ?thesis using w by (simp add: switch_wait_same)
qed

lemma test_loop_stops:
  "makes_progress D work \<Longrightarrow> \<exists>r. test_loop D s = Some r"
proof (induction "work (engine s) + active_thread_count s" arbitrary: s rule: less_induct)
  case less
  show ?case
  proof (cases "active_thread_count s = 0 \<or> (\<exists>e. test_pass D s = Inl e)")
    case True
    then show ?thesis by (subst test_loop.simps) auto
  next
    case False
    then obtain s' where s': "test_pass D s = Inr s'" by (cases "test_pass D s") auto
    have "work (engine s') + active_thread_count s' < work (engine s) + active_thread_count s"
      using pass_progress [OF less.prems _ s'] False by simp
    then obtain r where "test_loop D s' = Some r" using less by blast
    then show ?thesis using False s' by (subst test_loop.simps) simp
  qed
qed

lemma multithread_test_outcome: "multithread_test D p e \<in> {None, Some (Inl Division_by_zero)}"
proof (cases "start_state D p e")
  case (Inl e')
  then have "e' = Division_by_zero"
    by (auto simp: start_state_def Let_def map_sum_def simp del: choose_threads.simps
        split: sum.splits dest!: choose_threads_Inl)
  then show ?thesis using Inl by (simp add: multithread_test_def)
next
  case (Inr s)
  then have "active_thread_count s \<noteq> 0" using start_state_inv by (fastforce simp: state_inv_def)
  then show ?thesis using test_loop_fails [of D s] Inr by (cases "test_loop D s") (auto simp: multithread_test_def)
qed

text \<open>
  C23. The test never passes: whatever the engine does, it runs forever or stops at a division by
  zero. The last thread that becomes ready leaves no active thread, and the threads for the next
  pass are chosen, modulo the number of active threads, before the loop looks at that number.
\<close>

theorem multithread_test_never_passes:
  "multithread_test D p e \<in> {None, Some (Inl Division_by_zero)}"
  by (rule multithread_test_outcome)

text \<open>
  C24. On an engine that gets ahead (every answer that a thread is not ready takes something off the
  work left) the loop ends: every thread is found ready after finitely many passes. It ends in the
  division by zero that follows the last thread.
\<close>

theorem multithread_test_ends:
  assumes "makes_progress D work"
  shows "multithread_test D p e = Some (Inl Division_by_zero)"
proof -
  have "multithread_test D p e \<noteq> None"
    using test_loop_stops [OF assms]
    by (auto simp: multithread_test_def split: sum.splits option.splits) (metis option.distinct(1))
  then show ?thesis using multithread_test_outcome [of D p e] by auto
qed

theorem multithread_test_ends_witness:
  "multithread_test always_ready two_threads () = Some (Inl Division_by_zero)"
  by (rule multithread_test_ends [of _ "\<lambda>_. 0"]) (simp add: makes_progress_def always_ready_def)

end
