(* ===== verification/XmlCat.thy ===== *)
theory XmlCat
  imports CPrelude
begin

text \<open>
  \<open>xmlcat.c\<close>: the concatenation of the test reports of several runs. A tree of libxml is a value
  here (a list for a chain of \<open>next\<close> pointers, \<open>None\<close> for a null pointer); what libxml does with
  files and trees is an argument of the program, the record \<open>libxml\<close>.
\<close>

section \<open>Trees\<close>

record attr =
  attr_name :: "string option"
  attr_children :: "string option option"

datatype xml_node =
  Node (node_type: int) (node_name: string) (properties: "attr list") (content: "string option")
    (children: "xml_node list")

abbreviation XML_ELEMENT_NODE :: int where "XML_ELEMENT_NODE \<equiv> 1"
abbreviation XML_ATTRIBUTE_NODE :: int where "XML_ATTRIBUTE_NODE \<equiv> 2"
abbreviation XML_TEXT_NODE :: int where "XML_TEXT_NODE \<equiv> 3"

record libxml =
  read_file :: "string \<Rightarrow> xml_node option option"
  new_prop :: "attr list \<Rightarrow> string \<Rightarrow> string \<Rightarrow> attr list"
  copy_node :: "xml_node \<Rightarrow> xml_node"
  add_child :: "xml_node list \<Rightarrow> xml_node \<Rightarrow> xml_node list"
  save_doc :: "xml_node \<Rightarrow> string"

datatype xml_error = Null_pointer | Signed_overflow | Buffer_overflow | Cannot_open string

section \<open>Printing\<close>

text \<open>
  The functions that print the name a reader is at, a chain of attributes (\<open>print_attributes\<close>) and a
  chain of nodes.
\<close>

definition processNode :: "string option \<Rightarrow> string" where
  "processNode name = (case name of None \<Rightarrow> [] | Some s \<Rightarrow> s @ [NL])"

fun print_attribute_list :: "attr list \<Rightarrow> string" where
  "print_attribute_list [] = []"
| "print_attribute_list (a # attrs) =
     (case attr_name a of None \<Rightarrow> []
      | Some name \<Rightarrow>
          name @ (case attr_children a of Some (Some c) \<Rightarrow> ''= '' @ c | _ \<Rightarrow> []) @ [NL]) @
     print_attribute_list attrs"

fun print_children :: "xml_node list \<Rightarrow> string" where
  "print_children [] = []"
| "print_children (n # nodes) =
     (if node_type n = XML_ELEMENT_NODE then node_name n @ [NL]
      else if node_type n = XML_ATTRIBUTE_NODE then ''attribute'' @ [NL]
      else if node_type n = XML_TEXT_NODE then ''text'' @ [NL]
      else ''type '' @ fmt_d (node_type n) @ [NL]) @
     print_attribute_list (properties n) @
     (case content n of None \<Rightarrow> [] | Some c \<Rightarrow> ''content = '' @ c @ [NL]) @
     print_children nodes"

section \<open>The program\<close>

record counts =
  tests :: int
  errors :: int
  failures :: int
  skip :: int

text \<open>\<open>n += atoi(attr->children->content)\<close>, when the pointers are there.\<close>

definition add_content :: "attr \<Rightarrow> int \<Rightarrow> xml_error + int" where
  "add_content a n =
     (case attr_children a of
        Some (Some c) \<Rightarrow>
          (let m = n + atoi c in if - (2 ^ 31) \<le> m \<and> m < 2 ^ 31 then Inr m else Inl Signed_overflow)
      | _ \<Rightarrow> Inr n)"

definition count_attr :: "attr \<Rightarrow> counts \<Rightarrow> xml_error + counts" where
  "count_attr a n =
     (case attr_name a of
        None \<Rightarrow> Inl Null_pointer
      | Some name \<Rightarrow>
          if name = ''tests'' then map_sum id (\<lambda>v. n\<lparr>tests := v\<rparr>) (add_content a (tests n))
          else if name = ''errors'' then map_sum id (\<lambda>v. n\<lparr>errors := v\<rparr>) (add_content a (errors n))
          else if name = ''failures'' then map_sum id (\<lambda>v. n\<lparr>failures := v\<rparr>) (add_content a (failures n))
          else if name = ''skip'' then map_sum id (\<lambda>v. n\<lparr>skip := v\<rparr>) (add_content a (skip n))
          else Inr n)"

fun count_attrs :: "attr list \<Rightarrow> counts \<Rightarrow> xml_error + counts" where
  "count_attrs [] n = Inr n"
| "count_attrs (a # attrs) n =
     (case count_attr a n of Inl e \<Rightarrow> Inl e | Inr n' \<Rightarrow> count_attrs attrs n')"

fun add_children :: "libxml \<Rightarrow> xml_node list \<Rightarrow> xml_node list \<Rightarrow> xml_node list" where
  "add_children X [] out = out"
| "add_children X (n # nodes) out = add_children X nodes (add_child X out (copy_node X n))"

fun cat_files :: "libxml \<Rightarrow> string list \<Rightarrow> counts \<times> xml_node list \<Rightarrow> xml_error + counts \<times> xml_node list" where
  "cat_files X [] st = Inr st"
| "cat_files X (f # files) (n, out) =
     (case read_file X f of
        None \<Rightarrow> Inl (Cannot_open f)
      | Some None \<Rightarrow> Inl Null_pointer
      | Some (Some root) \<Rightarrow>
          (case count_attrs (properties root) n of
             Inl e \<Rightarrow> Inl e
           | Inr n' \<Rightarrow> cat_files X files (n', add_children X (children root) out)))"

text \<open>\<open>sprintf(buff, "%d", v)\<close> with the 16 bytes of \<open>buff\<close>.\<close>

definition int_prop :: "libxml \<Rightarrow> string \<Rightarrow> int \<Rightarrow> attr list \<Rightarrow> xml_error + attr list" where
  "int_prop X name v attrs =
     (if length (fmt_d v) < 16 then Inr (new_prop X attrs name (fmt_d v)) else Inl Buffer_overflow)"

fun int_props :: "libxml \<Rightarrow> (string \<times> int) list \<Rightarrow> attr list \<Rightarrow> xml_error + attr list" where
  "int_props X [] attrs = Inr attrs"
| "int_props X ((name, v) # vs) attrs =
     (case int_prop X name v attrs of Inl e \<Rightarrow> Inl e | Inr attrs' \<Rightarrow> int_props X vs attrs')"

definition root_out :: "libxml \<Rightarrow> string list \<Rightarrow> xml_error + xml_node" where
  "root_out X files =
     (case cat_files X files (\<lparr>tests = 0, errors = 0, failures = 0, skip = 0\<rparr>, []) of
        Inl e \<Rightarrow> Inl e
      | Inr (n, out) \<Rightarrow>
          (case int_props X [(''tests'', tests n), (''failures'', failures n), (''errors'', errors n),
                  (''skip'', skip n)] (new_prop X [] ''name'' ''nosetests'') of
             Inl e \<Rightarrow> Inl e
           | Inr attrs \<Rightarrow> Inr (Node XML_ELEMENT_NODE ''testsuite'' attrs None out)))"

definition xmlcat_main :: "libxml \<Rightarrow> string list \<Rightarrow> xml_error + proc" where
  "xmlcat_main X files =
     (case root_out X files of
        Inl (Cannot_open f) \<Rightarrow>
          Inr \<lparr>stdout = [], stderr = ''Failed to open '' @ f @ [NL], status = -1\<rparr>
      | Inl e \<Rightarrow> Inl e
      | Inr root \<Rightarrow> Inr (exit_ok (save_doc X root)))"

section \<open>Totals\<close>

text \<open>What one attribute and the attributes of a list contribute to a total.\<close>

definition attr_value :: "string \<Rightarrow> attr \<Rightarrow> int" where
  "attr_value name a =
     (if attr_name a = Some name then (case attr_children a of Some (Some c) \<Rightarrow> atoi c | _ \<Rightarrow> 0) else 0)"

definition attr_total :: "string \<Rightarrow> attr list \<Rightarrow> int" where
  "attr_total name attrs = (\<Sum>a\<leftarrow>attrs. attr_value name a)"

definition counters :: "string list" where
  "counters = [''tests'', ''failures'', ''errors'', ''skip'']"

text \<open>Attributes with names and without negative numbers, and files that hold such documents.\<close>

definition countable_attr :: "attr \<Rightarrow> bool" where
  "countable_attr a \<longleftrightarrow> attr_name a \<noteq> None \<and> list_all (\<lambda>name. 0 \<le> attr_value name a) counters"

definition root_of :: "libxml \<Rightarrow> string \<Rightarrow> xml_node" where
  "root_of X f = the (the (read_file X f))"

definition readable :: "libxml \<Rightarrow> string \<Rightarrow> bool" where
  "readable X f \<longleftrightarrow>
     (case read_file X f of Some (Some root) \<Rightarrow> list_all countable_attr (properties root) | _ \<Rightarrow> False)"

definition all_attrs :: "libxml \<Rightarrow> string list \<Rightarrow> attr list" where
  "all_attrs X files = concat (map (\<lambda>f. properties (root_of X f)) files)"

definition in_range :: "attr list \<Rightarrow> bool" where
  "in_range attrs \<longleftrightarrow> list_all (\<lambda>name. attr_total name attrs < 2 ^ 31) counters"

lemma total_simps [simp]:
  "attr_total name [] = 0" "attr_total name (a # attrs) = attr_value name a + attr_total name attrs"
  "attr_total name (as @ bs) = attr_total name as + attr_total name bs"
  by (simp_all add: attr_total_def)

lemma total_nonneg: "list_all countable_attr attrs \<Longrightarrow> name \<in> set counters \<Longrightarrow> 0 \<le> attr_total name attrs"
  by (induction attrs) (auto simp: countable_attr_def list_all_iff simp del: attr_value_def)

definition add_counts :: "attr list \<Rightarrow> counts \<Rightarrow> counts" where
  "add_counts attrs n =
     \<lparr>tests = tests n + attr_total ''tests'' attrs, errors = errors n + attr_total ''errors'' attrs,
      failures = failures n + attr_total ''failures'' attrs, skip = skip n + attr_total ''skip'' attrs\<rparr>"

definition fits :: "counts \<Rightarrow> bool" where
  "fits n \<longleftrightarrow> list_all (\<lambda>v. 0 \<le> v \<and> v < 2 ^ 31) [tests n, failures n, errors n, skip n]"

lemma add_counts_append: "add_counts (as @ bs) n = add_counts bs (add_counts as n)"
  by (simp add: add_counts_def)

lemma add_content_value:
  assumes "attr_name a = Some name" and "0 \<le> n + attr_value name a" and "n + attr_value name a < 2 ^ 31"
  shows "add_content a n = Inr (n + attr_value name a)"
  using assms by (auto simp: add_content_def attr_value_def Let_def split: option.splits)

lemma attr_value_other: "attr_name a = Some name \<Longrightarrow> name \<noteq> name' \<Longrightarrow> attr_value name' a = 0"
  by (simp add: attr_value_def)

lemma fits_add:
  assumes "list_all countable_attr bs" and "fits n" and "list_all countable_attr as"
    and "fits (add_counts (as @ bs) n)"
  shows "fits (add_counts as n)"
proof -
  have "0 \<le> attr_total name as" "0 \<le> attr_total name bs" if "name \<in> set counters" for name
    using total_nonneg that assms(1,3) by blast+
  then show ?thesis
    using assms(2,4) by (simp add: fits_def add_counts_def counters_def) smt
qed

lemma count_attr_adds:
  assumes "countable_attr a" and "fits n" and "fits (add_counts [a] n)"
  shows "count_attr a n = Inr (add_counts [a] n)"
proof -
  obtain name where name: "attr_name a = Some name" using assms(1) by (auto simp: countable_attr_def)
  note other = attr_value_other [OF name]
  have r: "0 \<le> v + attr_value c a \<and> v + attr_value c a < 2 ^ 31"
    if "(c, v) \<in> {(''tests'', tests n), (''failures'', failures n), (''errors'', errors n), (''skip'', skip n)}"
    for c v using that assms(3) by (auto simp: fits_def add_counts_def)
  note add = add_content_value [OF name, OF r [THEN conjunct1] r [THEN conjunct2]]
  consider "name = ''tests''" | "name = ''errors''" | "name = ''failures''" | "name = ''skip''"
    | "name \<notin> {''tests'', ''errors'', ''failures'', ''skip''}" by auto
  then show ?thesis
    by cases (simp_all add: count_attr_def name add other add_counts_def)
qed

lemma count_attrs_adds:
  assumes "list_all countable_attr attrs" and "fits n" and "fits (add_counts attrs n)"
  shows "count_attrs attrs n = Inr (add_counts attrs n)"
  using assms
proof (induction attrs arbitrary: n)
  case Nil
  then show ?case by (simp add: add_counts_def)
next
  case (Cons a attrs)
  have f: "fits (add_counts [a] n)" using fits_add [of attrs n "[a]"] Cons.prems by simp
  then have "count_attr a n = Inr (add_counts [a] n)" using Cons.prems by (simp add: count_attr_adds)
  moreover have "add_counts (a # attrs) n = add_counts attrs (add_counts [a] n)"
    using add_counts_append [of "[a]" attrs n] by simp
  ultimately show ?case using Cons f by simp
qed

lemma add_children_append: "add_children X (xs @ ys) out = add_children X ys (add_children X xs out)"
  by (induction xs arbitrary: out) simp_all

lemma all_attrs_simps [simp]:
  "all_attrs X [] = []" "all_attrs X (f # files) = properties (root_of X f) @ all_attrs X files"
  "all_attrs X (fs @ gs) = all_attrs X fs @ all_attrs X gs"
  by (simp_all add: all_attrs_def)

lemma readable_file:
  "readable X f \<Longrightarrow> read_file X f = Some (Some (root_of X f)) \<and> list_all countable_attr (properties (root_of X f))"
  by (auto simp: readable_def root_of_def split: option.splits)

lemma readable_attrs: "list_all (readable X) files \<Longrightarrow> list_all countable_attr (all_attrs X files)"
  by (induction files) (auto dest: readable_file)

definition all_children :: "libxml \<Rightarrow> string list \<Rightarrow> xml_node list" where
  "all_children X files = concat (map (\<lambda>f. children (root_of X f)) files)"

lemma cat_files_append:
  "cat_files X (fs @ gs) st = (case cat_files X fs st of Inl e \<Rightarrow> Inl e | Inr st' \<Rightarrow> cat_files X gs st')"
  by (induction X fs st rule: cat_files.induct) (auto split: option.splits sum.splits)

lemma cat_files_adds:
  assumes "list_all (readable X) files" and "fits n" and "fits (add_counts (all_attrs X files) n)"
  shows "cat_files X files (n, out) =
    Inr (add_counts (all_attrs X files) n, add_children X (all_children X files) out)"
  using assms
proof (induction files arbitrary: n out)
  case Nil
  then show ?case by (simp add: add_counts_def all_children_def)
next
  case (Cons f files)
  let ?p = "properties (root_of X f)"
  have r: "read_file X f = Some (Some (root_of X f))" "list_all countable_attr ?p"
    using Cons.prems(1) readable_file by simp_all
  have f: "fits (add_counts ?p n)"
    using fits_add [of "all_attrs X files" n ?p] Cons.prems r(2) readable_attrs by simp
  then have "count_attrs ?p n = Inr (add_counts ?p n)" using r(2) Cons.prems(2) by (simp add: count_attrs_adds)
  then show ?case using Cons f r(1) by (simp add: add_counts_append all_children_def add_children_append)
qed

lemma fmt_d_length:
  assumes "- (2 ^ 31) \<le> v" and "v < 2 ^ 31"
  shows "length (fmt_d v) < 16"
proof -
  have "nat \<bar>v\<bar> < 10 ^ 10" using assms by simp
  then have "length (show_base 10 (nat \<bar>v\<bar>)) \<le> 10" by (intro show_base_length_le) simp_all
  then show ?thesis by (cases "v < 0") (simp_all add: fmt_d_def)
qed

lemma fits_totals:
  "list_all countable_attr attrs \<Longrightarrow> in_range attrs \<Longrightarrow>
   fits (add_counts attrs \<lparr>tests = 0, errors = 0, failures = 0, skip = 0\<rparr>)"
  using total_nonneg [of attrs] by (simp add: fits_def add_counts_def in_range_def counters_def)

lemma cat_all_files:
  assumes "list_all (readable X) files" and "in_range (all_attrs X files)"
  shows "cat_files X files (\<lparr>tests = 0, errors = 0, failures = 0, skip = 0\<rparr>, []) =
    Inr (add_counts (all_attrs X files) \<lparr>tests = 0, errors = 0, failures = 0, skip = 0\<rparr>,
      add_children X (all_children X files) [])"
  using assms by (intro cat_files_adds fits_totals readable_attrs) (simp_all add: fits_def)

text \<open>The attributes of the report: its name and the four totals.\<close>

definition total_attrs :: "libxml \<Rightarrow> attr list \<Rightarrow> attr list" where
  "total_attrs X attrs =
     foldl (\<lambda>as name. new_prop X as name (fmt_d (attr_total name attrs))) (new_prop X [] ''name'' ''nosetests'') counters"

lemma add_children_foldl: "add_children X nodes out = foldl (add_child X) out (map (copy_node X) nodes)"
  by (induction nodes arbitrary: out) simp_all

lemma root_out_adds:
  assumes "list_all (readable X) files" and "in_range (all_attrs X files)"
  shows "root_out X files = Inr (Node XML_ELEMENT_NODE ''testsuite'' (total_attrs X (all_attrs X files)) None
    (foldl (add_child X) [] (map (copy_node X) (all_children X files))))"
proof -
  have "fits (add_counts (all_attrs X files) \<lparr>tests = 0, errors = 0, failures = 0, skip = 0\<rparr>)"
    using assms by (intro fits_totals readable_attrs)
  then show ?thesis
    using cat_all_files [OF assms]
    by (simp add: root_out_def int_prop_def fmt_d_length fits_def add_counts_def total_attrs_def counters_def add_children_foldl)
qed

section \<open>Reports\<close>

text \<open>A library that keeps every file as a tree, and three reports.\<close>

definition plain_prop :: "attr list \<Rightarrow> string \<Rightarrow> string \<Rightarrow> attr list" where
  "plain_prop attrs name v = attrs @ [\<lparr>attr_name = Some name, attr_children = Some (Some v)\<rparr>]"

definition report :: "int \<Rightarrow> int \<Rightarrow> xml_node list \<Rightarrow> xml_node" where
  "report t e nodes =
     Node XML_ELEMENT_NODE ''testsuite''
       (foldl (\<lambda>as (name, v). plain_prop as name v) []
         [(''name'', ''nosetests''), (''tests'', fmt_d t), (''failures'', ''0''), (''errors'', fmt_d e), (''skip'', ''0'')])
       None nodes"

definition test_case :: "string \<Rightarrow> xml_node" where
  "test_case name = Node XML_ELEMENT_NODE ''testcase'' (plain_prop [] ''name'' name) None []"

definition plain_xml :: libxml where
  "plain_xml =
     \<lparr>read_file = map_of
        [(''a.xml'', Some (report 2 1 [test_case ''alu'', test_case ''mem''])),
         (''b.xml'', Some (report 1 0 [test_case ''cp2''])),
         (''ab.xml'', Some (report 3 1 [])), (''none.xml'', Some (report 0 0 []))],
      new_prop = plain_prop, copy_node = (\<lambda>n. n), add_child = (\<lambda>out n. out @ [n]),
      save_doc = (\<lambda>n. print_children (n # children n))\<rparr>"

text \<open>
  C10. On readable reports without negative numbers, whose totals fit an int, xmlcat saves one
  report: its four counters are the sums of the counters of all reports, and below it are copies of
  everything below their roots, in the order of the files.
\<close>

theorem xmlcat_adds_up:
  assumes "list_all (readable X) files" and "in_range (all_attrs X files)"
  shows "xmlcat_main X files =
    Inr (exit_ok (save_doc X (Node XML_ELEMENT_NODE ''testsuite''
      (foldl (\<lambda>as name. new_prop X as name (fmt_d (attr_total name (all_attrs X files))))
        (new_prop X [] ''name'' ''nosetests'') [''tests'', ''failures'', ''errors'', ''skip'']) None
      (foldl (add_child X) [] (map (copy_node X) (all_children X files))))))"
  using root_out_adds [OF assms] by (simp add: xmlcat_main_def total_attrs_def counters_def)

lemma plain_readable: "list_all (readable plain_xml) [''a.xml'', ''b.xml'']"
  by code_simp

lemma plain_in_range: "in_range (all_attrs plain_xml [''a.xml'', ''b.xml''])"
  by code_simp

theorem xmlcat_adds_up_witness:
  "xmlcat_main plain_xml [''a.xml'', ''b.xml''] =
     Inr (exit_ok (save_doc plain_xml (report 3 1 [test_case ''alu'', test_case ''mem'', test_case ''cp2''])))"
proof -
  have "foldl (\<lambda>as name. new_prop plain_xml as name (fmt_d (attr_total name (all_attrs plain_xml [''a.xml'', ''b.xml'']))))
      (new_prop plain_xml [] ''name'' ''nosetests'') [''tests'', ''failures'', ''errors'', ''skip''] =
    properties (report 3 1 [])"
    by code_simp
  moreover have "foldl (add_child plain_xml) [] (map (copy_node plain_xml) (all_children plain_xml [''a.xml'', ''b.xml''])) =
    [test_case ''alu'', test_case ''mem'', test_case ''cp2'']"
    by code_simp
  ultimately show ?thesis
    using xmlcat_adds_up [OF plain_readable plain_in_range] by (simp add: report_def)
qed

text \<open>
  The first report that cannot be opened ends the program with a message that names it, the
  status -1 and nothing on the standard output, whatever follows it.
\<close>

theorem xmlcat_unreadable:
  assumes "list_all (readable X) files" and "in_range (all_attrs X files)" and "read_file X f = None"
  shows "xmlcat_main X (files @ f # rest) =
    Inr \<lparr>stdout = [], stderr = ''Failed to open '' @ f @ [NL], status = -1\<rparr>"
  using cat_all_files [OF assms(1,2)] assms(3) by (simp add: xmlcat_main_def root_out_def cat_files_append)

theorem xmlcat_unreadable_witness:
  "xmlcat_main plain_xml [''a.xml'', ''b.xml'', ''c.xml'', ''a.xml''] =
    Inr \<lparr>stdout = [], stderr = ''Failed to open c.xml'' @ [NL], status = -1\<rparr>"
proof -
  have "read_file plain_xml ''c.xml'' = None" by code_simp
  from xmlcat_unreadable [OF plain_readable plain_in_range this, of "[''a.xml'']"] show ?thesis by simp
qed


section \<open>The buffer\<close>

definition ranged :: "counts \<Rightarrow> bool" where
  "ranged n \<longleftrightarrow> list_all (\<lambda>v. - (2 ^ 31) \<le> v \<and> v < 2 ^ 31) [tests n, failures n, errors n, skip n]"

lemma add_content_ranged:
  "add_content a n = Inr m \<Longrightarrow> - (2 ^ 31) \<le> n \<and> n < 2 ^ 31 \<Longrightarrow> - (2 ^ 31) \<le> m \<and> m < 2 ^ 31"
  by (auto simp: add_content_def Let_def split: option.splits if_splits)

lemma count_attr_ranged: "count_attr a n = Inr m \<Longrightarrow> ranged n \<Longrightarrow> ranged m"
  using add_content_ranged [of a]
  by (fastforce simp: count_attr_def ranged_def map_sum_def split: option.splits if_splits sum.splits)

lemma count_attr_error: "count_attr a n = Inl e \<Longrightarrow> e \<noteq> Buffer_overflow"
  by (auto simp: count_attr_def add_content_def map_sum_def Let_def split: option.splits if_splits sum.splits)

lemma count_attrs_ranged:
  "(count_attrs attrs n = Inr m \<longrightarrow> ranged n \<longrightarrow> ranged m) \<and> (count_attrs attrs n = Inl e \<longrightarrow> e \<noteq> Buffer_overflow)"
  by (induction attrs n rule: count_attrs.induct)
    (auto split: sum.splits dest: count_attr_ranged count_attr_error)

lemma cat_files_ranged:
  "(cat_files X files st = Inr st' \<longrightarrow> ranged (fst st) \<longrightarrow> ranged (fst st')) \<and>
   (cat_files X files st = Inl e \<longrightarrow> e \<noteq> Buffer_overflow)"
  by (induction X files st rule: cat_files.induct)
    (auto split: option.splits sum.splits dest: count_attrs_ranged [THEN conjunct1, rule_format]
      count_attrs_ranged [THEN conjunct2, rule_format])

text \<open>
  C40. The 16 bytes of \<open>buff\<close> are enough whatever the files hold: no counter leaves the range of an
  int without the overflow showing up first, and no int needs more than 11 characters. The only
  other failures are a document without root, an attribute without name and a sum that overflows.
\<close>

theorem xmlcat_buffer_suffices:
  "xmlcat_main X files \<in> range Inr \<union> {Inl Null_pointer, Inl Signed_overflow}"
proof (cases "cat_files X files (\<lparr>tests = 0, errors = 0, failures = 0, skip = 0\<rparr>, [])")
  case (Inl e)
  then have "e \<noteq> Buffer_overflow" using cat_files_ranged by blast
  with Inl show ?thesis by (cases e) (simp_all add: xmlcat_main_def root_out_def)
next
  case (Inr st)
  have "ranged \<lparr>tests = 0, errors = 0, failures = 0, skip = 0\<rparr>" by (simp add: ranged_def)
  with Inr have "ranged (fst st)" using cat_files_ranged by (metis fst_conv)
  with Inr show ?thesis
    by (cases st) (simp add: xmlcat_main_def root_out_def int_prop_def ranged_def fmt_d_length)
qed

section \<open>Reports of reports\<close>

lemma atoi_fmt_d:
  assumes "0 \<le> v" and "v < 2 ^ 31"
  shows "atoi (fmt_d v) = v"
proof -
  have "strtol (show_base 10 (nat v)) 10 = int (nat v)" using assms by (intro strtol_dec) simp_all
  then show ?thesis using assms to_int32_id [of v] by (simp add: atoi_def fmt_d_def)
qed

lemma plain_prop_value:
  "attr_total name (plain_prop attrs name' v) = attr_total name attrs + (if name = name' then atoi v else 0)"
  by (simp add: plain_prop_def attr_value_def)

lemma total_attrs_counts:
  assumes "new_prop X = plain_prop" and "list_all countable_attr attrs" and "in_range attrs"
  shows "name \<in> set counters \<Longrightarrow> attr_total name (total_attrs X attrs) = attr_total name attrs"
    and "list_all countable_attr (total_attrs X attrs)"
proof -
  have v: "atoi (fmt_d (attr_total name attrs)) = attr_total name attrs" "0 \<le> attr_total name attrs"
    if "name \<in> set counters" for name
    using that total_nonneg [OF assms(2), of name] assms(3)
    by (auto simp: in_range_def list_all_iff intro!: atoi_fmt_d)
  show "name \<in> set counters \<Longrightarrow> attr_total name (total_attrs X attrs) = attr_total name attrs"
    using v by (auto simp: total_attrs_def counters_def assms(1) plain_prop_value plain_prop_def [of "[]"] attr_value_def)
  show "list_all countable_attr (total_attrs X attrs)"
    using v by (simp add: total_attrs_def counters_def assms(1) plain_prop_def countable_attr_def attr_value_def)
qed

lemma total_attrs_cong:
  "(\<And>name. name \<in> set counters \<Longrightarrow> attr_total name as = attr_total name bs) \<Longrightarrow> total_attrs X as = total_attrs X bs"
  by (simp add: total_attrs_def counters_def)

text \<open>
  Reports can be joined in steps: a report of the reports of two groups of files has the
  attributes of the report of all the files, when the attributes of the saved reports are read back.
\<close>

theorem xmlcat_regroup:
  assumes X: "new_prop X = plain_prop"
    and files: "list_all (readable X) (fs @ gs)" "in_range (all_attrs X (fs @ gs))"
    and fs: "root_out X fs = Inr r" "read_file X f = Some (Some r')" "properties r' = properties r"
    and gs: "root_out X gs = Inr q" "read_file X g = Some (Some q')" "properties q' = properties q"
  shows "map_sum id properties (root_out X [f, g]) = map_sum id properties (root_out X (fs @ gs))"
proof -
  let ?as = "all_attrs X fs" and ?bs = "all_attrs X gs"
  have c: "list_all countable_attr ?as" "list_all countable_attr ?bs"
    using files(1) readable_attrs by simp_all
  have n: "0 \<le> attr_total name ?as" "0 \<le> attr_total name ?bs" if "name \<in> set counters" for name
    using total_nonneg that c by blast+
  have i: "in_range ?as" "in_range ?bs"
    using files(2) n by (auto simp: in_range_def list_all_iff) (smt (verit))+
  have p: "properties r = total_attrs X ?as" "properties q = total_attrs X ?bs"
    using root_out_adds [of X fs] root_out_adds [of X gs] fs(1) gs(1) files(1) i by auto
  have roots: "root_of X f = r'" "root_of X g = q'" using fs(2) gs(2) by (simp_all add: root_of_def)
  have ab: "all_attrs X [f, g] = total_attrs X ?as @ total_attrs X ?bs"
    using p fs(3) gs(3) roots by simp
  note t = total_attrs_counts [OF X c(1) i(1)] total_attrs_counts [OF X c(2) i(2)]
  have same: "attr_total name (all_attrs X [f, g]) = attr_total name (all_attrs X (fs @ gs))"
    if "name \<in> set counters" for name
    using t(1,3) [OF that] unfolding ab by simp
  have "list_all (readable X) [f, g]"
    using t(2,4) fs(2,3) gs(2,3) p by (simp add: readable_def)
  moreover have "in_range (all_attrs X [f, g])"
    using files(2) same by (simp add: in_range_def list_all_iff)
  ultimately have "root_out X [f, g] = Inr (Node XML_ELEMENT_NODE ''testsuite'' (total_attrs X (all_attrs X [f, g])) None
    (foldl (add_child X) [] (map (copy_node X) (all_children X [f, g]))))"
    by (rule root_out_adds)
  then show ?thesis
    using root_out_adds [OF files] total_attrs_cong [OF same, where X = X] by simp
qed

theorem xmlcat_regroup_witness:
  "map_sum id properties (root_out plain_xml [''ab.xml'', ''none.xml'']) =
     map_sum id properties (root_out plain_xml [''a.xml'', ''b.xml''])"
proof -
  have r: "root_out plain_xml [''a.xml'', ''b.xml''] = Inr (report 3 1 [test_case ''alu'', test_case ''mem'', test_case ''cp2''])"
    "root_out plain_xml [] = Inr (report 0 0 [])"
    "read_file plain_xml ''ab.xml'' = Some (Some (report 3 1 []))"
    "read_file plain_xml ''none.xml'' = Some (Some (report 0 0 []))"
    by code_simp+
  show ?thesis
    using xmlcat_regroup [of plain_xml "[''a.xml'', ''b.xml'']" "[]", OF _ _ _ r(1) r(3) _ r(2) r(4)]
      plain_readable plain_in_range
    by (simp add: plain_xml_def report_def)
qed

end
