(* ===== verification/MultiDmaGen.thy ===== *)
theory MultiDmaGen
  imports DmaTest
begin

text \<open>
  The generator of the DMA tests with several threads, \<open>fuzz_dma/generate_multithread_dma_test.cpp\<close>,
  and the TLB entries the tests make (\<open>fuzz_dma/mips_tlb.h\<close>). The engine and the encoders are the
  arguments of \<open>DmaTest\<close>; the random engine and the two distributions of the C++ library are an
  argument that draws pages, \<open>page_rng\<close>. A result that is not there (\<open>None\<close>) is a loop that does
  not end or a program that is read past its end. Releasing memory is not modelled here.
\<close>

type_synonym program = "u32 option list"

datatype gen_error = Program_error dma_error | Page_assertion

text \<open>Running on, when there is a result and it is no error.\<close>

definition and_then :: "('e + 'a) option \<Rightarrow> ('a \<Rightarrow> ('e + 'b) option) \<Rightarrow> ('e + 'b) option" where
  "and_then m f = (case m of None \<Rightarrow> None | Some (Inl e) \<Rightarrow> Some (Inl e) | Some (Inr a) \<Rightarrow> f a)"

lemma and_then_Some_Inr:
  "and_then m f = Some (Inr b) \<longleftrightarrow> (\<exists>a. m = Some (Inr a) \<and> f a = Some (Inr b))"
  by (auto simp: and_then_def split: option.splits sum.splits)

lemma and_then_simps [simp]:
  "and_then None f = None" "and_then (Some (Inl e)) f = Some (Inl e)" "and_then (Some (Inr a)) f = f a"
  by (simp_all add: and_then_def)

section \<open>Programs and transfers\<close>

fun generate_programs ::
  "(u32 \<Rightarrow> (dma_error + program \<times> u64) option) \<Rightarrow> nat \<Rightarrow> u64 \<Rightarrow> (gen_error + program list) option" where
  "generate_programs gen 0 next = Some (Inr [])"
| "generate_programs gen (Suc n) next =
     (let (r, next) = myrand next
      in and_then (map_option (map_sum Program_error id) (gen (word_of_int r)))
           (\<lambda>(p, next). map_option (map_sum id ((#) p)) (generate_programs gen n next)))"

fun generate_transfer_lists :: "program dma_engine \<Rightarrow> program list \<Rightarrow> transfer list list option" where
  "generate_transfer_lists exec [] = Some []"
| "generate_transfer_lists exec (p # programs) =
     (case (list_transfers exec p, generate_transfer_lists exec programs) of
        (Some (h, first), Some tss) \<Rightarrow> Some (transfer_list h first # tss)
      | _ \<Rightarrow> None)"

section \<open>Printing\<close>

definition fmt_llx :: "u64 \<Rightarrow> string" where
  "fmt_llx w = show_base 16 (unat w)"

fun print_programs :: "u32 \<Rightarrow> program list \<Rightarrow> string option" where
  "print_programs stop [] = Some []"
| "print_programs stop (p # programs) =
     (case (print_instructions stop p, print_programs stop programs) of
        (Some text, Some rest) \<Rightarrow>
          Some (''(dma_instruction[]){'' @ text @ ''}'' @ (if programs = [] then [] else '', '') @ rest)
      | _ \<Rightarrow> None)"

fun print_pointer_array :: "u64 list \<Rightarrow> string" where
  "print_pointer_array [] = []"
| "print_pointer_array (a # as) =
     ''(uint8_t *)0x'' @ fmt_llx a @ (if as = [] then [] else '', '') @ print_pointer_array as"

definition print_set :: "u64 \<Rightarrow> u8 \<Rightarrow> string" where
  "print_set a v = ''*((volatile uint8_t *)0x'' @ fmt_llx a @ '') = '' @ fmt_d (uint v) @ '';''"

definition print_compare :: "u64 \<Rightarrow> u8 \<Rightarrow> string" where
  "print_compare a v = ''&& *((volatile uint8_t *)0x'' @ fmt_llx a @ '') == '' @ fmt_d (uint v) @ '' ''"

text \<open>The bytes of the transfers of one thread at its base, and of all threads.\<close>

fun print_thread ::
  "(u64 \<Rightarrow> u8 \<Rightarrow> string) \<Rightarrow> (transfer \<Rightarrow> u64) \<Rightarrow> u64 \<Rightarrow> transfer list \<Rightarrow> u8 \<Rightarrow> string \<times> u8" where
  "print_thread pr at base [] access_number = ([], access_number)"
| "print_thread pr at base (t # ts) access_number =
     (let (text, k) = print_bytes pr (base + at t) (2 ^ snd (snd t)) access_number;
          (rest, k) = print_thread pr at base ts k
      in (text @ rest, k))"

fun print_threads ::
  "(u64 \<Rightarrow> u8 \<Rightarrow> string) \<Rightarrow> (transfer \<Rightarrow> u64) \<Rightarrow> u64 list \<Rightarrow> transfer list list \<Rightarrow> u8 \<Rightarrow> string" where
  "print_threads pr at (base # bases) (ts # tss) access_number =
     (let (text, k) = print_thread pr at base ts access_number
      in text @ print_threads pr at bases tss k)"
| "print_threads pr at _ _ access_number = []"

section \<open>Tests on virtual addresses\<close>

definition MIN_PHYS_PAGE :: u64 where "MIN_PHYS_PAGE = 0x08000"
definition MAX_PHYS_PAGE :: u64 where "MAX_PHYS_PAGE = 0x1FFFF"
definition VIRT_PAGE_COUNT :: u64 where "VIRT_PAGE_COUNT = 0x1FFFFFFFFFFFF"

definition phys_pn_to_addr :: "u64 \<Rightarrow> u64" where
  "phys_pn_to_addr phys_pn = 0x9000000000000000 + push_bit 12 phys_pn"

definition virt_pn_to_addr :: "u64 \<Rightarrow> u64" where
  "virt_pn_to_addr virt_pn = push_bit 12 virt_pn"

definition in_vector :: "u64 \<Rightarrow> u64 list \<Rightarrow> bool" where
  "in_vector to_test vector = list_ex (\<lambda>a. a = to_test) vector"

text \<open>What \<open>_main\<close>, which nothing calls, prints of it.\<close>

definition in_vector_main :: string where
  "in_vector_main =
     (let test_data = [3, 0, 2] in
      concat (map (\<lambda>v. (if in_vector v test_data then ''1'' else ''0'') @ [NL]) [2, 1, 3]))"

lemma in_vector_main: "in_vector_main = [CHR ''1'', NL, CHR ''0'', NL, CHR ''1'', NL]"
  by (simp add: in_vector_main_def in_vector_def)

record 'r page_rng =
  random_phys_pn :: "'r \<Rightarrow> u64 \<times> 'r"
  random_virt_pn :: "'r \<Rightarrow> u64 \<times> 'r"

record pages =
  source_phys_pns :: "u64 list"
  dest_phys_pns :: "u64 list"
  source_virt_pns :: "u64 list"
  dest_virt_pns :: "u64 list"
  used_phys_pns :: "u64 list"
  used_virt_pns :: "u64 list"

definition usage_pages :: "transfer list \<Rightarrow> u64" where
  "usage_pages ts =
     (if ts = [] then 0
      else case last ts of (s, d, z) \<Rightarrow> (max s d + push_bit z 1) div 0x2000)"

text \<open>Drawing until a page is not used; \<open>ok\<close> is the assertion behind the draw of a virtual page.\<close>

partial_function (option) pick_page ::
  "('r \<Rightarrow> u64 \<times> 'r) \<Rightarrow> (u64 \<Rightarrow> bool) \<Rightarrow> u64 list \<Rightarrow> 'r \<Rightarrow> (gen_error + u64 \<times> 'r) option" where
  "pick_page gen ok used r =
     (let (next_addr, r') = gen r
      in if \<not> ok next_addr then Some (Inl Page_assertion)
         else if in_vector next_addr used then pick_page gen ok used r'
         else Some (Inr (next_addr, r')))"

text \<open>
  The loop over the pages of a run counts with 32 bits: it does not end when the last page does not
  fit into them.
\<close>

definition push_pages :: "u64 \<Rightarrow> u64 \<Rightarrow> u64 list \<Rightarrow> (gen_error + u64 list) option" where
  "push_pages usage next_addr used =
     (if unat usage < 2 ^ 32 - 1
      then Some (Inr (used @ map (\<lambda>j. next_addr + of_nat j) [0..<Suc (unat usage)])) else None)"

definition pick_phys ::
  "'r page_rng \<Rightarrow> u64 \<Rightarrow> pages \<times> 'r \<Rightarrow> (gen_error + u64 \<times> pages \<times> 'r) option" where
  "pick_phys R usage = (\<lambda>(P, r).
     and_then (pick_page (random_phys_pn R) (\<lambda>_. True) (used_phys_pns P) r) (\<lambda>(a, r).
     and_then (push_pages usage a (used_phys_pns P)) (\<lambda>used.
       Some (Inr (a, P\<lparr>used_phys_pns := used\<rparr>, r)))))"

definition pick_virt ::
  "'r page_rng \<Rightarrow> u64 \<Rightarrow> pages \<times> 'r \<Rightarrow> (gen_error + u64 \<times> pages \<times> 'r) option" where
  "pick_virt R usage = (\<lambda>(P, r).
     and_then (pick_page (random_virt_pn R) (\<lambda>a. a \<le> VIRT_PAGE_COUNT) (used_virt_pns P) r) (\<lambda>(a, r).
     and_then (push_pages usage a (used_virt_pns P)) (\<lambda>used.
       Some (Inr (a, P\<lparr>used_virt_pns := used\<rparr>, r)))))"

definition allocate_thread ::
  "'r page_rng \<Rightarrow> transfer list \<Rightarrow> pages \<times> 'r \<Rightarrow> (gen_error + pages \<times> 'r) option" where
  "allocate_thread R ts st =
     (let usage = usage_pages ts
      in and_then (pick_phys R usage st) (\<lambda>(sp, st).
         and_then (pick_phys R usage st) (\<lambda>(dp, st).
         and_then (pick_virt R usage st) (\<lambda>(sv, st).
         and_then (pick_virt R usage st) (\<lambda>(dv, P, r).
           Some (Inr (P\<lparr>source_phys_pns := source_phys_pns P @ [sp], dest_phys_pns := dest_phys_pns P @ [dp],
                        source_virt_pns := source_virt_pns P @ [sv], dest_virt_pns := dest_virt_pns P @ [dv]\<rparr>, r)))))))"

fun allocate_pages ::
  "'r page_rng \<Rightarrow> transfer list list \<Rightarrow> pages \<times> 'r \<Rightarrow> (gen_error + pages \<times> 'r) option" where
  "allocate_pages R [] st = Some (Inr st)"
| "allocate_pages R (ts # tss) st = and_then (allocate_thread R ts st) (allocate_pages R tss)"

definition no_pages :: pages where
  "no_pages = \<lparr>source_phys_pns = [], dest_phys_pns = [], source_virt_pns = [], dest_virt_pns = [],
     used_phys_pns = [], used_virt_pns = []\<rparr>"

definition print_mapping :: "u64 \<Rightarrow> u64 \<Rightarrow> string" where
  "print_mapping v p =
     ''add_tlb_mapping(0x'' @ fmt_llx (2 * v) @ '', 0x'' @ fmt_llx (2 * p) @ '', 0x'' @ fmt_llx (2 * p + 1) @ '');''"

definition print_virt_fields :: "pages \<Rightarrow> transfer list list \<Rightarrow> string" where
  "print_virt_fields P tss =
     concat (map2 print_mapping (used_virt_pns P) (used_phys_pns P)) @
     print_threads print_set fst (map (\<lambda>a. phys_pn_to_addr (2 * a)) (source_phys_pns P)) tss 0 @
     ''$assert(1 '' @
     print_threads print_compare transfer_destination
       (map (\<lambda>a. phys_pn_to_addr (2 * a)) (dest_phys_pns P)) tss 0 @
     '');$'' @ print_pointer_array (map (\<lambda>a. virt_pn_to_addr (2 * a)) (source_virt_pns P)) @
     ''$'' @ print_pointer_array (map (\<lambda>a. virt_pn_to_addr (2 * a)) (dest_virt_pns P))"

text \<open>What both kinds of test print first, and what their fields come from.\<close>

definition print_programs_then ::
  "u32 \<Rightarrow> (u32 \<Rightarrow> (dma_error + program \<times> u64) option) \<Rightarrow> program dma_engine \<Rightarrow> nat \<Rightarrow> u32 \<Rightarrow>
   (transfer list list \<Rightarrow> (gen_error + string) option) \<Rightarrow> (gen_error + string) option" where
  "print_programs_then stop gen exec thread_count seed print_fields =
     and_then (generate_programs gen thread_count (mysrand seed)) (\<lambda>programs.
       case (generate_transfer_lists exec programs, print_programs stop programs) of
         (Some tss, Some text) \<Rightarrow>
           map_option (map_sum id (\<lambda>rest. ''#define DMA_ADDR DMA_VIRT$'' @ text @ ''$'' @ rest)) (print_fields tss)
       | _ \<Rightarrow> None)"

text \<open>\<open>new_rng\<close> is the random engine made from a seed.\<close>

definition print_virtualised_test_information ::
  "u32 \<Rightarrow> (u32 \<Rightarrow> (dma_error + program \<times> u64) option) \<Rightarrow> program dma_engine \<Rightarrow> 'r page_rng \<Rightarrow> (u32 \<Rightarrow> 'r) \<Rightarrow>
   u32 \<Rightarrow> u32 \<Rightarrow> (gen_error + string) option" where
  "print_virtualised_test_information stop gen exec R new_rng thread_count seed =
     print_programs_then stop gen exec (unat thread_count) seed (\<lambda>tss.
       and_then (allocate_pages R tss (no_pages, new_rng seed)) (\<lambda>(P, r).
         Some (Inr (print_virt_fields P tss))))"

section \<open>Tests on physical addresses\<close>

definition DRAM_START :: u64 where "DRAM_START = 0x9000000010000000"

definition next_aligned :: "u64 \<Rightarrow> nat \<Rightarrow> u64" where
  "next_aligned address width = (address + push_bit width 1 - 1) AND NOT (push_bit width 1 - 1)"

text \<open>
  The bases of the threads and the position behind the last. The first argument is what the array of
  the bases holds when \<open>new\<close> returns it: a thread that transfers nothing is given no base, and its
  element keeps that value.
\<close>

fun lay_out :: "u64 list \<Rightarrow> (transfer \<Rightarrow> u64) \<Rightarrow> transfer list list \<Rightarrow> u64 \<Rightarrow> u64 list \<times> u64" where
  "lay_out (a # rest) at (ts # tss) dram_position =
     (case ts of
        [] \<Rightarrow> let (as, pos) = lay_out rest at tss dram_position in (a # as, pos)
      | t # _ \<Rightarrow>
          let base = next_aligned dram_position (snd (snd t));
              (as, pos) = lay_out rest at tss (base + at (last ts) + push_bit (snd (snd (last ts))) 1)
          in (base # as, pos))"
| "lay_out rest at tss dram_position = ([], dram_position)"

definition print_phys_fields :: "u64 list \<Rightarrow> u64 list \<Rightarrow> transfer list list \<Rightarrow> string" where
  "print_phys_fields new_sources new_dests tss =
     (let (source_addrs, pos) = lay_out new_sources fst tss DRAM_START;
          (dest_addrs, pos) = lay_out new_dests transfer_destination tss pos
      in print_threads print_set fst source_addrs tss 0 @ ''$assert(1 '' @
         print_threads print_compare transfer_destination dest_addrs tss 0 @
         '');$'' @ print_pointer_array source_addrs @ ''$'' @ print_pointer_array dest_addrs)"

text \<open>\<open>new_sources\<close> and \<open>new_dests\<close>: what the two arrays of bases hold before they are filled.\<close>

definition print_phys_test_information ::
  "u32 \<Rightarrow> (u32 \<Rightarrow> (dma_error + program \<times> u64) option) \<Rightarrow> program dma_engine \<Rightarrow> u64 list \<Rightarrow> u64 list \<Rightarrow>
   u32 \<Rightarrow> u32 \<Rightarrow> (gen_error + string) option" where
  "print_phys_test_information stop gen exec new_sources new_dests thread_count seed =
     print_programs_then stop gen exec (unat thread_count) seed (\<lambda>tss.
       Some (Inr (print_phys_fields new_sources new_dests tss)))"

section \<open>The program\<close>

fun print_all :: "(int \<Rightarrow> int \<Rightarrow> (gen_error + string) option) \<Rightarrow> (int \<times> int) list \<Rightarrow> (gen_error + string) option" where
  "print_all test [] = Some (Inr [])"
| "print_all test ((i, j) # rest) =
     and_then (test i j) (\<lambda>line. map_option (map_sum id (\<lambda>lines. line @ [NL] @ lines)) (print_all test rest))"

definition multithread_usage :: string where
  "multithread_usage =
     ''Usage: <virt|phys> <min thread count> <max thread count> <min seed> <max seed>'' @ [NL]"

definition generate_multithread_main ::
  "(u32 \<Rightarrow> u32 \<Rightarrow> (gen_error + string) option) \<Rightarrow> (u32 \<Rightarrow> u32 \<Rightarrow> (gen_error + string) option) \<Rightarrow>
   string list \<Rightarrow> (gen_error + proc) option" where
  "generate_multithread_main virt phys args =
     (case args of
        [mode, thread_lower, thread_higher, seed_lower, seed_higher] \<Rightarrow>
          if mode = ''virt'' \<or> mode = ''phys''
          then map_option (map_sum id exit_ok)
            (print_all (\<lambda>i j. (if mode = ''virt'' then virt else phys) (word_of_int i) (word_of_int j))
              [(i, j). i \<leftarrow> [atoi thread_lower..atoi thread_higher], j \<leftarrow> [atoi seed_lower..atoi seed_higher]])
          else Some (Inr \<lparr>stdout = multithread_usage, stderr = [], status = 1\<rparr>)
      | _ \<Rightarrow> Some (Inr \<lparr>stdout = multithread_usage, stderr = [], status = 1\<rparr>))"

section \<open>TLB entries\<close>

text \<open>The values \<open>add_tlb_mapping\<close> moves to the registers of coprocessor 0 before \<open>tlbwr\<close>.\<close>

record tlb_entry =
  page_mask :: u64
  entry_hi :: u64
  entry_lo0 :: u64
  entry_lo1 :: u64

definition add_tlb_mapping :: "u64 \<Rightarrow> u64 \<Rightarrow> u64 \<Rightarrow> tlb_entry" where
  "add_tlb_mapping virtual_pn physical_pn_0 physical_pn_1 =
     \<lparr>page_mask = 0, entry_hi = push_bit 12 virtual_pn,
      entry_lo0 = push_bit 6 physical_pn_0 OR 7, entry_lo1 = push_bit 6 physical_pn_1 OR 7\<rparr>"

end
