(* ===== verification/MultiDmaText.thy ===== *)
theory MultiDmaText
  imports MultiDmaGen
begin

text \<open>
  The tests of \<open>MultiDmaGen\<close> as \<open>build_multithread_tests.py\<close> takes them from the printed line: six
  fields, of which the third holds the calls of \<open>add_tlb_mapping\<close> and the assignments, the fourth the
  assertion and the last two the pointers of the threads. Reading what is printed gives back what the
  printing started from.
\<close>

section \<open>Reading\<close>

definition read_mapping :: "string \<Rightarrow> ((u64 \<times> u64 \<times> u64) \<times> string) option" where
  "read_mapping s =
     Option.bind (expect ''add_tlb_mapping('' s) (\<lambda>s. Option.bind (read_address s) (\<lambda>(v, s).
     Option.bind (expect '', '' s) (\<lambda>s. Option.bind (read_address s) (\<lambda>(p0, s).
     Option.bind (expect '', '' s) (\<lambda>s. Option.bind (read_address s) (\<lambda>(p1, s).
     map_option (\<lambda>s. ((v, p0, p1), s)) (expect '');'' s)))))))"

definition read_assignment :: "string \<Rightarrow> ((u64 \<times> u8) \<times> string) option" where
  "read_assignment s =
     Option.bind (expect ''*((volatile uint8_t *)'' s) (\<lambda>s. Option.bind (read_address s) (\<lambda>(a, s).
     Option.bind (expect '') = '' s) (\<lambda>s. Option.bind (read_byte s) (\<lambda>(v, s).
     map_option (\<lambda>s. ((a, v), s)) (expect '';'' s)))))"

definition read_comparison :: "string \<Rightarrow> ((u64 \<times> u8) \<times> string) option" where
  "read_comparison s =
     Option.bind (expect ''&& *((volatile uint8_t *)'' s) (\<lambda>s. Option.bind (read_address s) (\<lambda>(a, s).
     Option.bind (expect '') == '' s) (\<lambda>s. Option.bind (read_byte s) (\<lambda>(v, s).
     map_option (\<lambda>s. ((a, v), s)) (expect '' '' s)))))"

definition read_pointer :: "string \<Rightarrow> (u64 \<times> string) option" where
  "read_pointer s =
     Option.bind (expect ''(uint8_t *)'' s) (\<lambda>s. Option.bind (read_address s) (\<lambda>(a, s).
       if s = [] then Some (a, []) else map_option (Pair a) (expect '', '' s)))"

record thread_test =
  mappings :: "(u64 \<times> u64 \<times> u64) list"
  assignments :: "(u64 \<times> u8) list"
  comparisons :: "(u64 \<times> u8) list"
  source_pointers :: "u64 list"
  dest_pointers :: "u64 list"

definition read_thread_fields :: "string list \<Rightarrow> thread_test option" where
  "read_thread_fields parts =
     (case parts of
        [set_sources, asserts, source_addrs, dest_addrs] \<Rightarrow>
          (case read_many read_mapping set_sources of (ms, rest) \<Rightarrow>
           Option.bind (read_all read_assignment rest) (\<lambda>as.
           Option.bind (expect ''assert(1 '' asserts) (\<lambda>s.
           case read_many read_comparison s of (cs, rest) \<Rightarrow>
           if rest \<noteq> '');'' then None
           else Option.bind (read_all read_pointer source_addrs) (\<lambda>ss.
             Option.bind (read_all read_pointer dest_addrs) (\<lambda>ds.
             Some \<lparr>mappings = ms, assignments = as, comparisons = cs, source_pointers = ss, dest_pointers = ds\<rparr>)))))
      | _ \<Rightarrow> None)"

definition read_thread_test :: "string \<Rightarrow> thread_test option" where
  "read_thread_test line =
     (case split_on CHR ''$'' line of
        define_dma # programs # parts \<Rightarrow> read_thread_fields parts
      | _ \<Rightarrow> None)"

section \<open>Reading what was printed\<close>

lemma read_address_llx: "no_digit s \<Longrightarrow> read_address (CHR ''0'' # CHR ''x'' # fmt_llx a @ s) = Some (a, s)"
  by (simp add: fmt_llx_def read_address_show)

lemma read_mapping_print: "read_mapping (print_mapping v p @ s) = Some ((2 * v, 2 * p, 2 * p + 1), s)"
  by (simp add: read_mapping_def print_mapping_def read_address_llx)

lemma read_assignment_print: "read_assignment (print_set a v @ s) = Some ((a, v), s)"
  by (simp add: read_assignment_def print_set_def read_address_llx read_byte_show)

lemma read_comparison_print: "read_comparison (print_compare a v @ s) = Some ((a, v), s)"
  by (simp add: read_comparison_def print_compare_def read_address_llx read_byte_show)

lemma read_comparisons_printed:
  "read_many read_comparison (concat (map (\<lambda>(a, v). print_compare a v) xs) @ '');'') = (xs, '');'')"
  by (rule read_many_concat [where G = "\<lambda>_. True"])
    (auto simp: read_comparison_print, simp_all add: read_comparison_def print_compare_def)

lemma read_assignments_printed:
  "read_all read_assignment (concat (map (\<lambda>(a, v). print_set a v) xs)) = Some xs"
  by (rule read_all_concat [where G = "\<lambda>_. True"])
    (auto simp: read_assignment_print, simp_all add: read_assignment_def print_set_def expect_Nil)

lemma assignments_no_mapping: "read_mapping (concat (map (\<lambda>(a, v). print_set a v) xs)) = None"
  by (cases xs) (auto simp: read_mapping_def print_set_def expect_Nil)

lemma read_mappings_printed:
  "read_many read_mapping (concat (map2 print_mapping vs ps) @ concat (map (\<lambda>(a, v). print_set a v) xs)) =
     (map2 (\<lambda>v p. (2 * v, 2 * p, 2 * p + 1)) vs ps, concat (map (\<lambda>(a, v). print_set a v) xs))"
proof -
  let ?e = "\<lambda>(v, p). (2 * v, 2 * p, 2 * p + 1)" and ?rest = "concat (map (\<lambda>(a, v). print_set a v) xs)"
  have "read_many read_mapping (concat (map (\<lambda>(v, p). print_mapping v p) vps) @ ?rest) = (map ?e vps, ?rest)" for vps
  proof (induction vps)
    case Nil
    then show ?case using assignments_no_mapping by (simp add: read_many_stop)
  next
    case (Cons vp vps)
    obtain v p where vp: "vp = (v, p)" by (cases vp)
    have "print_mapping v p \<noteq> []" by (simp add: print_mapping_def)
    then show ?case
      using Cons by (subst read_many.simps) (simp add: vp read_mapping_print)
  qed
  then show ?thesis .
qed

lemma read_pointer_print:
  "read_pointer (''(uint8_t *)0x'' @ fmt_llx a @ []) = Some (a, [])"
  "read_pointer (''(uint8_t *)0x'' @ fmt_llx a @ '', '' @ s) = Some (a, s)"
  by (simp_all add: read_pointer_def read_address_llx del: append_Nil2)

lemma read_pointers_printed: "read_all read_pointer (print_pointer_array as) = Some as"
proof -
  have "read_many read_pointer (print_pointer_array as) = (as, [])"
  proof (induction as)
    case Nil
    then show ?case by (simp add: read_many_stop read_pointer_def expect_Nil)
  next
    case (Cons a as)
    then show ?case
    proof (cases "as = []")
      case True
      then show ?thesis using Cons read_pointer_print(1) [of a] by (subst read_many.simps) simp
    next
      case False
      then show ?thesis
        using Cons read_pointer_print(2) [of a "print_pointer_array as"] by (subst read_many.simps) simp
    qed
  qed
  then show ?thesis by (simp add: read_all_def)
qed

section \<open>The fields of a line\<close>

lemma map_result_Inr:
  "map_sum id f m = Inr b \<longleftrightarrow> (\<exists>a. m = Inr a \<and> b = f a)"
  by (cases m) auto

lemma fmt_llx_no_dollar [simp]: "CHR ''$'' \<notin> set (fmt_llx w)"
  by (simp add: fmt_llx_def)

lemma print_statement_no_dollar [simp]:
  "CHR ''$'' \<notin> set (print_mapping v p)" "CHR ''$'' \<notin> set (print_set a b)" "CHR ''$'' \<notin> set (print_compare a b)"
  by (auto simp: print_mapping_def print_set_def print_compare_def)

lemma print_no_dollar [simp]:
  "CHR ''$'' \<notin> set (concat (map2 print_mapping vs ps))"
  "CHR ''$'' \<notin> set (concat (map (\<lambda>(a, v). print_set a v) xs))"
  "CHR ''$'' \<notin> set (concat (map (\<lambda>(a, v). print_compare a v) xs))"
  by auto

lemma print_pointer_array_no_dollar [simp]: "CHR ''$'' \<notin> set (print_pointer_array as)"
  by (induction as) simp_all

lemma print_programs_no_dollar: "print_programs stop programs = Some s \<Longrightarrow> CHR ''$'' \<notin> set s"
  by (induction programs arbitrary: s) (auto split: option.splits if_splits dest: print_instructions_no_dollar)

text \<open>The fields of a test with the given values, as both printing functions end a line.\<close>

lemma read_fields_printed:
  "read_thread_fields (split_on CHR ''$''
     (concat (map2 print_mapping vs ps) @ concat (map (\<lambda>(a, v). print_set a v) as) @ ''$assert(1 '' @
      concat (map (\<lambda>(a, v). print_compare a v) cs) @ '');$'' @ print_pointer_array ss @ ''$'' @ print_pointer_array ds)) =
   Some \<lparr>mappings = map2 (\<lambda>v p. (2 * v, 2 * p, 2 * p + 1)) vs ps, assignments = as, comparisons = cs,
     source_pointers = ss, dest_pointers = ds\<rparr>"
proof -
  let ?set = "concat (map2 print_mapping vs ps) @ concat (map (\<lambda>(a, v). print_set a v) as)"
    and ?asserts = "''assert(1 '' @ concat (map (\<lambda>(a, v). print_compare a v) cs) @ '');''"
  have "CHR ''$'' \<notin> set ?set" "CHR ''$'' \<notin> set ?asserts"
    using print_no_dollar(1) [of vs ps] print_no_dollar(2) [of as] print_no_dollar(3) [of cs]
    by (simp_all only: set_append) simp_all
  then have "split_on CHR ''$'' (?set @ CHR ''$'' # ?asserts @ CHR ''$'' # print_pointer_array ss @ CHR ''$'' # print_pointer_array ds) =
      [?set, ?asserts, print_pointer_array ss, print_pointer_array ds]"
    by (simp only: split_on_append split_on_last print_pointer_array_no_dollar not_False_eq_True)
  then show ?thesis
    by (simp add: read_thread_fields_def read_mappings_printed read_assignments_printed
        read_comparisons_printed read_pointers_printed)
qed

lemma print_programs_then_fields:
  assumes "print_programs_then stop gen exec n seed print_fields = Some (Inr line)"
    and "generate_programs gen n (mysrand seed) = Some (Inr programs)"
    and "generate_transfer_lists exec programs = Some tss"
  shows "\<exists>rest. print_fields tss = Some (Inr rest) \<and>
    read_thread_test line = read_thread_fields (split_on CHR ''$'' rest)"
proof -
  obtain progs rest where t: "print_programs stop programs = Some progs" "print_fields tss = Some (Inr rest)"
    "line = ''#define DMA_ADDR DMA_VIRT'' @ CHR ''$'' # progs @ CHR ''$'' # rest"
    using assms by (auto simp: print_programs_then_def map_result_Inr split: option.splits)
  have "CHR ''$'' \<notin> set progs" using t(1) by (rule print_programs_no_dollar)
  moreover have "CHR ''$'' \<notin> set ''#define DMA_ADDR DMA_VIRT''" by simp
  ultimately have "split_on CHR ''$'' line = ''#define DMA_ADDR DMA_VIRT'' # progs # split_on CHR ''$'' rest"
    unfolding t(3) by (simp only: split_on_append not_False_eq_True)
  then show ?thesis using t(2) by (simp add: read_thread_test_def)
qed

lemma print_programs_then_line:
  assumes "generate_programs gen n (mysrand seed) = Some (Inr programs)"
    and "generate_transfer_lists exec programs = Some tss"
    and "print_programs stop programs = Some progs" and "print_fields tss = Some (Inr rest)"
  shows "\<exists>line. print_programs_then stop gen exec n seed print_fields = Some (Inr line)"
  by (simp add: print_programs_then_def assms)

lemma generate_programs_length: "generate_programs gen n next = Some (Inr ps) \<Longrightarrow> length ps = n"
  by (induction n arbitrary: "next" ps)
    (auto simp: Let_def and_then_Some_Inr map_result_Inr split: prod.splits)

lemma generate_transfer_lists_length: "generate_transfer_lists exec ps = Some tss \<Longrightarrow> length tss = length ps"
  by (induction ps arbitrary: tss) (auto split: option.splits)

end
