(* ===== verification/MultiDmaProps.thy ===== *)
theory MultiDmaProps
  imports MultiDmaText
begin

text \<open>
  What the tests of \<open>MultiDmaGen\<close> rest on: the runs of pages a virtual test draws, the TLB entries, which
  lead every thread to its pages, and the assertions of a printed test, which hold after the transfers of
  all threads, in whatever order the engine makes them, for programs that stay within 8K.
\<close>

section \<open>Pages\<close>

lemma pick_page_unused:
  assumes run: "pick_page gen ok used r = Some (Inr (a, r'))"
  shows "a \<notin> set used \<and> ok a \<and> (\<exists>r. a = fst (gen r))"
proof -
  define y where "y = (Inr (a, r') :: gen_error + u64 \<times> 'a)"
  let ?Q = "\<lambda>gen ok used r x. \<forall>a r'. x = Inr (a, r') \<longrightarrow> a \<notin> set used \<and> ok a \<and> (\<exists>r. a = fst (gen r))"
  have "pick_page gen ok used r = Some y" using run by (simp add: y_def)
  then have "?Q gen ok used r y"
  proof (rule pick_page.raw_induct [rotated], intro allI impI)
    fix f :: "('a \<Rightarrow> u64 \<times> 'a) \<Rightarrow> (u64 \<Rightarrow> bool) \<Rightarrow> u64 list \<Rightarrow> 'a \<Rightarrow> (gen_error + u64 \<times> 'a) option"
      and gen ok used r x a r'
    assume ih: "\<And>gen ok used r x. f gen ok used r = Some x \<Longrightarrow> ?Q gen ok used r x"
      and body: "(let (next_addr, r') = gen r
        in if \<not> ok next_addr then Some (Inl Page_assertion)
           else if in_vector next_addr used then f gen ok used r' else Some (Inr (next_addr, r'))) = Some x"
      and x: "x = Inr (a, r')"
    show "a \<notin> set used \<and> ok a \<and> (\<exists>r. a = fst (gen r))"
    proof (cases "ok (fst (gen r)) \<and> in_vector (fst (gen r)) used")
      case True
      then have "f gen ok used (snd (gen r)) = Some x"
        using body by (auto simp: Let_def split: prod.splits)
      then show ?thesis using ih x by blast
    next
      case False
      then have "a = fst (gen r)" "ok a" "\<not> in_vector a used"
        using body x by (auto simp: Let_def split: prod.splits if_splits)
      then show ?thesis by (auto simp: in_vector_def list_ex_iff)
    qed
  qed
  then show ?thesis by (simp add: y_def)
qed

text \<open>Transfers within the first 8K of a thread, and the two lists of its pages in turn.\<close>

definition small_transfer :: "transfer \<Rightarrow> bool" where
  "small_transfer = (\<lambda>(s, d, z). unat s + 2 ^ z < 0x2000 \<and> unat d + 2 ^ z < 0x2000)"

definition interleave :: "'a list \<Rightarrow> 'a list \<Rightarrow> 'a list" where
  "interleave xs ys = concat (map2 (\<lambda>x y. [x, y]) xs ys)"

lemma interleave_simps [simp]:
  "interleave [] [] = []"
  "length xs = length ys \<Longrightarrow> interleave (xs @ [x]) (ys @ [y]) = interleave xs ys @ [x, y]"
  by (simp_all add: interleave_def)

lemma interleave_nth:
  "length xs = length ys \<Longrightarrow> length as = length xs \<Longrightarrow> length bs = length xs \<Longrightarrow> i < length xs \<Longrightarrow>
   (xs ! i, as ! i) \<in> set (zip (interleave xs ys) (interleave as bs)) \<and>
   (ys ! i, bs ! i) \<in> set (zip (interleave xs ys) (interleave as bs))"
proof (induction xs ys arbitrary: as bs i rule: list_induct2)
  case (Cons x xs y ys)
  then obtain a as' b bs' where ab: "as = a # as'" "bs = b # bs'" by (metis length_Suc_conv)
  show ?case
  proof (cases i)
    case 0
    then show ?thesis by (simp add: ab interleave_def)
  next
    case (Suc k)
    then show ?thesis using Cons.IH [of as' bs' k] Cons.prems by (simp add: ab interleave_def)
  qed
qed simp

lemma interleave_mset: "length xs = length ys \<Longrightarrow> mset (interleave xs ys) = mset (xs @ ys)"
  by (induction xs ys rule: list_induct2) (simp_all add: interleave_def)

lemma interleave_distinct:
  "length xs = length ys \<Longrightarrow> distinct (interleave xs ys) \<longleftrightarrow> distinct (xs @ ys)"
  using interleave_mset by (metis mset_eq_imp_distinct_iff)

text \<open>
  What a program needs: where its last transfer ends, and the double pages of 8K from the first to
  that one. The pages of a run follow each other, and a sequence of runs is fresh when the first page
  of every run is not in the runs before it.
\<close>

definition transfer_end :: "transfer \<Rightarrow> nat" where
  "transfer_end = (\<lambda>(s, d, z). max (unat s) (unat d) + 2 ^ z)"

definition last_end :: "transfer list \<Rightarrow> nat" where
  "last_end ts = (if ts = [] then 0 else transfer_end (last ts))"

definition pages_needed :: "transfer list \<Rightarrow> nat" where
  "pages_needed ts = last_end ts div 0x2000 + 1"

definition page_run :: "u64 \<times> nat \<Rightarrow> u64 list" where
  "page_run = (\<lambda>(a, n). map (\<lambda>j. a + of_nat j) [0..<n])"

definition page_runs :: "u64 list \<Rightarrow> u64 list \<Rightarrow> transfer list list \<Rightarrow> (u64 \<times> nat) list" where
  "page_runs sources dests tss =
     zip (interleave sources dests) (concat (map (\<lambda>ts. [pages_needed ts, pages_needed ts]) tss))"

fun fresh_runs :: "u64 list \<Rightarrow> (u64 \<times> nat) list \<Rightarrow> bool" where
  "fresh_runs used [] \<longleftrightarrow> True"
| "fresh_runs used ((a, n) # runs) \<longleftrightarrow> a \<notin> set used \<and> fresh_runs (used @ page_run (a, n)) runs"

lemma fresh_runs_append:
  "fresh_runs used (xs @ ys) \<longleftrightarrow> fresh_runs used xs \<and> fresh_runs (used @ concat (map page_run xs)) ys"
  by (induction used xs rule: fresh_runs.induct) simp_all

lemma interleave_length: "length xs = length ys \<Longrightarrow> length (interleave xs ys) = 2 * length xs"
  by (induction xs ys rule: list_induct2) (simp_all add: interleave_def)

lemma page_runs_snoc:
  assumes "length ss = length tss" "length ds = length tss"
  shows "page_runs (ss @ [s]) (ds @ [d]) (tss @ [ts]) =
    page_runs ss ds tss @ [(s, pages_needed ts), (d, pages_needed ts)]"
proof -
  have "length (concat (map (\<lambda>ts. [pages_needed ts, pages_needed ts]) tss)) = 2 * length tss"
    by (induction tss) simp_all
  then show ?thesis using assms interleave_length [of ss ds] by (simp add: page_runs_def)
qed

lemma unat_power: "z < 64 \<Longrightarrow> unat (2 ^ z :: u64) = 2 ^ z"
  using unsigned_of_nat [of "2 ^ z :: nat", where ?'b = 64 and ?'a = nat]
  by (simp add: take_bit_nat_eq_self)

lemma usage_pages_needed:
  assumes "last_end ts < 2 ^ 64"
  shows "Suc (unat (usage_pages ts)) = pages_needed ts"
proof (cases "ts = []")
  case False
  obtain s d z where l: "last ts = (s, d, z)" by (cases "last ts") auto
  then have e: "max (unat s) (unat d) + 2 ^ z < (2 :: nat) ^ 64"
    using assms False by (simp add: last_end_def transfer_end_def)
  then have "2 ^ z < (2 :: nat) ^ 64" by linarith
  then have "z < 64" by (simp only: power_strict_increasing_iff)
  then have "unat (push_bit z 1 :: u64) = 2 ^ z" by (simp add: unat_power push_bit_eq_mult)
  moreover have "unat (max s d) = max (unat s) (unat d)"
    by (simp add: max_def word_le_nat_alt)
  ultimately have "unat (max s d + push_bit z 1) = max (unat s) (unat d) + 2 ^ z"
    using e by (simp add: unat_word_ariths)
  then show ?thesis
    using False l by (simp add: usage_pages_def pages_needed_def last_end_def transfer_end_def unat_div_distrib)
qed (simp add: usage_pages_def pages_needed_def last_end_def)

lemma push_pages_run:
  "push_pages usage a used = Some (Inr used') \<Longrightarrow> used' = used @ page_run (a, Suc (unat usage))"
  by (simp add: push_pages_def page_run_def split: if_splits)

definition pages_inv :: "'r page_rng \<Rightarrow> transfer list list \<Rightarrow> pages \<Rightarrow> bool" where
  "pages_inv R tss P \<longleftrightarrow>
     length (source_phys_pns P) = length tss \<and> length (dest_phys_pns P) = length tss \<and>
     length (source_virt_pns P) = length tss \<and> length (dest_virt_pns P) = length tss \<and>
     used_phys_pns P = concat (map page_run (page_runs (source_phys_pns P) (dest_phys_pns P) tss)) \<and>
     used_virt_pns P = concat (map page_run (page_runs (source_virt_pns P) (dest_virt_pns P) tss)) \<and>
     fresh_runs [] (page_runs (source_phys_pns P) (dest_phys_pns P) tss) \<and>
     fresh_runs [] (page_runs (source_virt_pns P) (dest_virt_pns P) tss) \<and>
     (\<forall>p\<in>set (source_phys_pns P @ dest_phys_pns P). \<exists>r. p = fst (random_phys_pn R r)) \<and>
     (\<forall>v\<in>set (source_virt_pns P @ dest_virt_pns P). v \<le> VIRT_PAGE_COUNT)"

lemma pick_phys_run:
  assumes "pick_phys R usage (P, r) = Some (Inr (a, P', r'))"
  shows "P' = P\<lparr>used_phys_pns := used_phys_pns P @ page_run (a, Suc (unat usage))\<rparr>"
    and "a \<notin> set (used_phys_pns P)" and "\<exists>r. a = fst (random_phys_pn R r)"
  using assms by (auto simp: pick_phys_def and_then_Some_Inr dest!: push_pages_run pick_page_unused)

lemma pick_virt_run:
  assumes "pick_virt R usage (P, r) = Some (Inr (a, P', r'))"
  shows "P' = P\<lparr>used_virt_pns := used_virt_pns P @ page_run (a, Suc (unat usage))\<rparr>"
    and "a \<notin> set (used_virt_pns P)" and "a \<le> VIRT_PAGE_COUNT"
  using assms by (auto simp: pick_virt_def and_then_Some_Inr dest!: push_pages_run pick_page_unused)

lemma allocate_thread_inv:
  assumes run: "allocate_thread R ts (P, r) = Some (Inr (P', r'))" and "last_end ts < 2 ^ 64"
    and P: "pages_inv R tss P"
  shows "pages_inv R (tss @ [ts]) P'"
proof -
  let ?n = "pages_needed ts"
  obtain sp P1 r1 dp P2 r2 sv P3 r3 dv P4 r4 where
    runs: "pick_phys R (usage_pages ts) (P, r) = Some (Inr (sp, P1, r1))"
      "pick_phys R (usage_pages ts) (P1, r1) = Some (Inr (dp, P2, r2))"
      "pick_virt R (usage_pages ts) (P2, r2) = Some (Inr (sv, P3, r3))"
      "pick_virt R (usage_pages ts) (P3, r3) = Some (Inr (dv, P4, r4))"
    and P': "P' = P4\<lparr>source_phys_pns := source_phys_pns P4 @ [sp], dest_phys_pns := dest_phys_pns P4 @ [dp],
       source_virt_pns := source_virt_pns P4 @ [sv], dest_virt_pns := dest_virt_pns P4 @ [dv]\<rparr>"
    using run by (auto simp: allocate_thread_def Let_def and_then_Some_Inr)
  note picked = pick_phys_run [OF runs(1)] pick_phys_run [OF runs(2)] pick_virt_run [OF runs(3)] pick_virt_run [OF runs(4)]
  show ?thesis
    using P picked unfolding pages_inv_def P' usage_pages_needed [OF assms(2)]
    by (auto simp: page_runs_snoc fresh_runs_append)
qed

lemma allocate_pages_inv:
  assumes "allocate_pages R tss (P, r) = Some (Inr (P', r'))" and "list_all (\<lambda>ts. last_end ts < 2 ^ 64) tss"
    and "pages_inv R done P"
  shows "pages_inv R (done @ tss) P'"
  using assms
proof (induction tss arbitrary: P r "done")
  case (Cons ts tss)
  then obtain P1 r1 where "allocate_thread R ts (P, r) = Some (Inr (P1, r1))"
    "allocate_pages R tss (P1, r1) = Some (Inr (P', r'))"
    by (auto simp: and_then_Some_Inr)
  then show ?case using Cons.IH [of P1 r1 "done @ [ts]"] allocate_thread_inv Cons.prems(2,3) by fastforce
qed simp

lemma no_pages_inv: "pages_inv R [] no_pages"
  by (simp add: pages_inv_def no_pages_def page_runs_def)

lemma allocated_pages:
  assumes "allocate_pages R tss (no_pages, r) = Some (Inr (P, r'))" and "list_all (\<lambda>ts. last_end ts < 2 ^ 64) tss"
  shows "pages_inv R tss P"
  using allocate_pages_inv [OF assms no_pages_inv] by simp

text \<open>A program whose last transfer ends last stays within the pages it is given.\<close>

lemma pages_needed_cover:
  assumes "\<forall>t\<in>set ts. transfer_end t \<le> last_end ts" and "last_end ts < 2 ^ 64"
    and "a \<in> set (byte_addresses at ts)" and "at = fst \<or> at = transfer_destination"
  shows "unat a div 0x2000 < pages_needed ts"
proof -
  obtain s d z i where t: "(s, d, z) \<in> set ts" "i < 2 ^ z" "a = at (s, d, z) + of_nat i"
    using assms(3) by (auto simp: byte_addresses_def)
  have e: "transfer_end (s, d, z) \<le> last_end ts" using t(1) assms(1) by blast
  then have "unat (at (s, d, z)) + 2 ^ z \<le> last_end ts" using assms(4) by (auto simp: transfer_end_def)
  moreover have "unat a \<le> unat (at (s, d, z)) + i"
    unfolding t(3) unat_word_ariths by (simp add: unsigned_of_nat take_bit_eq_mod order_trans [OF mod_less_eq_dividend])
  ultimately have "unat a < last_end ts" using t(2) by linarith
  then have "unat a div 0x2000 \<le> last_end ts div 0x2000" by (intro div_le_mono) simp
  then show ?thesis by (simp add: pages_needed_def)
qed

lemma page_runs_single:
  assumes "length ss = length tss" "length ds = length tss" "list_all (\<lambda>ts. pages_needed ts = 1) tss"
  shows "concat (map page_run (page_runs ss ds tss)) = interleave ss ds"
    and "fresh_runs [] (page_runs ss ds tss) \<longleftrightarrow> distinct (interleave ss ds)"
proof -
  have "concat (map (\<lambda>ts. [pages_needed ts, pages_needed ts]) tss) = replicate (2 * length tss) 1"
    using assms(3) by (induction tss) simp_all
  then have z: "page_runs ss ds tss = map (\<lambda>a. (a, 1)) (interleave ss ds)"
    using assms(1,2) by (simp add: page_runs_def interleave_length zip_replicate2)
  have c: "concat (map page_run (map (\<lambda>a. (a, 1)) xs)) = xs" for xs
    by (induction xs) (simp_all add: page_run_def)
  have f: "fresh_runs used (map (\<lambda>a. (a, 1)) xs) \<longleftrightarrow> distinct xs \<and> set used \<inter> set xs = {}" for used xs
    by (induction xs arbitrary: used) (auto simp: page_run_def)
  show "concat (map page_run (page_runs ss ds tss)) = interleave ss ds" unfolding z by (rule c)
  show "fresh_runs [] (page_runs ss ds tss) \<longleftrightarrow> distinct (interleave ss ds)" unfolding z using f [of "[]" "interleave ss ds"] by simp
qed

lemma small_needs_one:
  assumes "list_all small_transfer ts"
  shows "pages_needed ts = 1" and "last_end ts < 2 ^ 64"
proof -
  have "last_end ts < 0x2000"
  proof (cases "ts = []")
    case False
    then have "small_transfer (last ts)" using assms by (simp add: list_all_iff)
    then show ?thesis using False by (auto simp: last_end_def transfer_end_def small_transfer_def split: prod.splits)
  qed (simp add: last_end_def)
  then show "pages_needed ts = 1" "last_end ts < 2 ^ 64" by (simp_all add: pages_needed_def)
qed

text \<open>
  C15. The pages drawn for a virtual test, for programs whose last transfer ends below \<open>2 ^ 64\<close>: every
  thread has a source and a destination in physical and in virtual memory, each a run of pages that
  reaches from offset 0 through the page in which the last transfer ends, so that a program whose last
  transfer ends last finds all its bytes in the run; the pages in use are these runs in the order of
  the draws. The first page of every run is not in any run before it, is within the range of the
  assertion if it is virtual and one the distribution gave if it is physical. Only when every program
  stays within its first 8K are all the pages different from each other.
\<close>

theorem virtual_pages_apart:
  assumes "allocate_pages R tss (no_pages, r) = Some (Inr (P, r'))"
    and "list_all (\<lambda>ts. last_end ts < 2 ^ 64) tss"
  defines "phys \<equiv> page_runs (source_phys_pns P) (dest_phys_pns P) tss"
    and "virt \<equiv> page_runs (source_virt_pns P) (dest_virt_pns P) tss"
  shows "length (source_phys_pns P) = length tss \<and> length (dest_phys_pns P) = length tss \<and>
    length (source_virt_pns P) = length tss \<and> length (dest_virt_pns P) = length tss \<and>
    used_phys_pns P = concat (map page_run phys) \<and> used_virt_pns P = concat (map page_run virt) \<and>
    fresh_runs [] phys \<and> fresh_runs [] virt \<and>
    (\<forall>v\<in>set (source_virt_pns P @ dest_virt_pns P). v \<le> VIRT_PAGE_COUNT) \<and>
    (\<forall>p\<in>set (source_phys_pns P @ dest_phys_pns P). \<exists>r. p = fst (random_phys_pn R r)) \<and>
    (\<forall>ts\<in>set tss. (\<forall>t\<in>set ts. transfer_end t \<le> last_end ts) \<longrightarrow>
       (\<forall>a\<in>set (byte_addresses fst ts) \<union> set (byte_addresses transfer_destination ts).
          unat a div 0x2000 < pages_needed ts)) \<and>
    (list_all (list_all small_transfer) tss \<longrightarrow>
       distinct (source_phys_pns P @ dest_phys_pns P) \<and> distinct (source_virt_pns P @ dest_virt_pns P))"
proof -
  have i: "pages_inv R tss P" using assms(1,2) by (rule allocated_pages)
  have cover: "\<forall>ts\<in>set tss. (\<forall>t\<in>set ts. transfer_end t \<le> last_end ts) \<longrightarrow>
       (\<forall>a\<in>set (byte_addresses fst ts) \<union> set (byte_addresses transfer_destination ts).
          unat a div 0x2000 < pages_needed ts)"
    using assms(2) pages_needed_cover unfolding list_all_iff by blast
  have "distinct (source_phys_pns P @ dest_phys_pns P) \<and> distinct (source_virt_pns P @ dest_virt_pns P)"
    if "list_all (list_all small_transfer) tss"
  proof -
    have "list_all (\<lambda>ts. pages_needed ts = 1) tss" using that small_needs_one by (simp add: list_all_iff)
    then show ?thesis using i page_runs_single(2) interleave_distinct unfolding pages_inv_def by metis
  qed
  then show ?thesis using i cover unfolding pages_inv_def phys_def virt_def by blast
qed

text \<open>A generator that counts through four pages of memory, and the pages it gives two threads.\<close>

definition counting_rng :: "(u64 \<times> u64) page_rng" where
  "counting_rng = \<lparr>random_phys_pn = (\<lambda>(p, v). (0x8000 + p mod 4, p + 1, v)), random_virt_pn = (\<lambda>(p, v). (v, p, v + 1))\<rparr>"

definition two_transfers :: "transfer list list" where
  "two_transfers = [[(0, 0, 1), (8, 2, 0)], [(0, 4, 2)]]"

definition four_pages :: pages where
  "four_pages = \<lparr>source_phys_pns = [0x8000, 0x8002], dest_phys_pns = [0x8001, 0x8003],
     source_virt_pns = [0, 2], dest_virt_pns = [1, 3],
     used_phys_pns = [0x8000, 0x8001, 0x8002, 0x8003], used_virt_pns = [0, 1, 2, 3]\<rparr>"

declare pick_page.simps [code]

lemma two_transfers_ends: "list_all (\<lambda>ts. last_end ts < 2 ^ 64) two_transfers"
  by (simp add: two_transfers_def last_end_def transfer_end_def)

lemma two_transfers_small: "list_all (list_all small_transfer) two_transfers"
  by (simp add: two_transfers_def small_transfer_def)

lemma push_pages_0: "push_pages 0 a used = Some (Inr (used @ [a]))"
  by (simp add: push_pages_def)

lemma four_pages: "allocate_pages counting_rng two_transfers (no_pages, 0, 0) = Some (Inr (four_pages, 4, 4))"
  by (simp add: two_transfers_def allocate_thread_def usage_pages_def pick_phys_def pick_virt_def pick_page.simps
      counting_rng_def in_vector_def no_pages_def push_pages_0 four_pages_def VIRT_PAGE_COUNT_def Let_def)

theorem virtual_pages_apart_witness:
  "distinct (source_phys_pns four_pages @ dest_phys_pns four_pages) \<and>
   used_phys_pns four_pages = concat (map page_run (page_runs [0x8000, 0x8002] [0x8001, 0x8003] two_transfers)) \<and>
   list_all (\<lambda>v. v \<le> VIRT_PAGE_COUNT) (source_virt_pns four_pages @ dest_virt_pns four_pages)"
  using virtual_pages_apart [OF four_pages two_transfers_ends] two_transfers_small
  unfolding list_all_iff by (simp add: four_pages_def)

text \<open>
  Without the bound on the programs the pages may overlap: only the first page of a run is compared
  with those in use, so a run may end in one that was given out before. Here a program transfers
  a byte behind the first 8K, and the second page of its destination is the first of its source.
\<close>

definition listed_rng :: "(u64 list \<times> u64 list) page_rng" where
  "listed_rng = \<lparr>random_phys_pn = (\<lambda>(ps, vs). (hd ps, (tl ps, vs))), random_virt_pn = (\<lambda>(ps, vs). (hd vs, (ps, tl vs)))\<rparr>"

lemma page_runs_overlap:
  "\<exists>P. allocate_pages listed_rng [[(0x2000, 0x2000, 0)]] (no_pages, [0x10005, 0x10004], [7, 3]) = Some (Inr (P, [], [])) \<and>
     used_phys_pns P = [0x10005, 0x10006, 0x10004, 0x10005] \<and> used_virt_pns P = [7, 8, 3, 4] \<and>
     source_phys_pns P = [0x10005] \<and> dest_phys_pns P = [0x10004]"
  by (simp add: allocate_thread_def usage_pages_def pick_phys_def pick_virt_def pick_page.simps
      listed_rng_def in_vector_def no_pages_def push_pages_def VIRT_PAGE_COUNT_def Let_def upt_rec)

section \<open>The printed bytes\<close>

definition thread_addresses :: "(transfer \<Rightarrow> u64) \<Rightarrow> u64 list \<Rightarrow> transfer list list \<Rightarrow> u64 list" where
  "thread_addresses at bases tss = concat (map2 (\<lambda>b ts. map ((+) b) (byte_addresses at ts)) bases tss)"

lemma thread_addresses_simps [simp]:
  "thread_addresses at [] tss = []" "thread_addresses at bases [] = []"
  "thread_addresses at (b # bases) (ts # tss) = map ((+) b) (byte_addresses at ts) @ thread_addresses at bases tss"
  by (simp_all add: thread_addresses_def)

lemma print_thread_numbered:
  "print_thread pr at b ts k =
     (concat (map (\<lambda>(a, v). pr a v) (numbered_from k (map ((+) b) (byte_addresses at ts)))),
      k + of_nat (length (byte_addresses at ts)))"
  by (induction ts arbitrary: k)
    (simp_all add: print_bytes_numbered numbered_from_append comp_def add.assoc)

lemma print_threads_numbered:
  "print_threads pr at bases tss k =
     concat (map (\<lambda>(a, v). pr a v) (numbered_from k (thread_addresses at bases tss)))"
  by (induction pr at bases tss k rule: print_threads.induct)
    (simp_all add: print_thread_numbered numbered_from_append)

lemma thread_addresses_length:
  "length bases = length bases' \<Longrightarrow> length (thread_addresses f bases tss) = length (thread_addresses g bases' tss)"
proof (induction bases bases' arbitrary: tss rule: list_induct2)
  case (Cons b bs c cs)
  then show ?case by (cases tss) (simp_all add: byte_addresses_length [of f _ g])
qed simp

section \<open>The TLB\<close>

text \<open>
  How the processor reads an entry with a page mask of 0: bits from 13 on select the entry, bit 12 one
  of its two pages, the frame number is in the bits from 6 on and bit 1 says that the page is valid.
\<close>

definition entry_matches :: "u64 \<Rightarrow> tlb_entry \<Rightarrow> bool" where
  "entry_matches va e \<longleftrightarrow> page_mask e = 0 \<and> drop_bit 13 (entry_hi e) = drop_bit 13 va"

definition entry_address :: "u64 \<Rightarrow> tlb_entry \<Rightarrow> u64 option" where
  "entry_address va e =
     (let lo = if bit va 12 then entry_lo1 e else entry_lo0 e
      in if bit lo 1 then Some (push_bit 12 (drop_bit 6 lo) + take_bit 12 va) else None)"

text \<open>
  The TLB has a fixed number of entries; \<open>tlbwr\<close> overwrites the one at the index the processor draws.
  Each call of \<open>add_tlb_mapping\<close> executes it once, so the indices drawn during a test are a list with
  one index for each call. A lookup needs exactly one matching entry.
\<close>

definition write_mappings ::
  "nat list \<Rightarrow> (u64 \<times> u64 \<times> u64) list \<Rightarrow> tlb_entry option list \<Rightarrow> tlb_entry option list" where
  "write_mappings random ms tlb =
     fold (\<lambda>(i, v, p0, p1) tlb. tlb[i := Some (add_tlb_mapping v p0 p1)]) (zip random ms) tlb"

definition matching :: "u64 \<Rightarrow> tlb_entry option list \<Rightarrow> tlb_entry list" where
  "matching va tlb = concat (map (case_option [] (\<lambda>e. if entry_matches va e then [e] else [])) tlb)"

definition tlb_lookup :: "tlb_entry option list \<Rightarrow> u64 \<Rightarrow> u64 option" where
  "tlb_lookup tlb va = (case matching va tlb of [e] \<Rightarrow> entry_address va e | _ \<Rightarrow> None)"

text \<open>The draws that keep every mapping: an empty TLB with room for them, no index drawn twice.\<close>

definition keeps_all :: "nat \<Rightarrow> nat list \<Rightarrow> (u64 \<times> u64 \<times> u64) list \<Rightarrow> bool" where
  "keeps_all entries random ms \<longleftrightarrow>
     length random = length ms \<and> distinct random \<and> list_all (\<lambda>i. i < entries) random"

lemma matching_update:
  assumes "i < length tlb" "tlb ! i = None"
  shows "mset (matching va (tlb[i := Some e])) = mset (matching va tlb) + (if entry_matches va e then {#e#} else {#})"
proof -
  have "matching va tlb = matching va (take i tlb) @ matching va (drop (Suc i) tlb)"
    by (subst id_take_nth_drop [OF assms(1)]) (simp add: matching_def assms(2))
  then show ?thesis by (simp add: upd_conv_take_nth_drop [OF assms(1)] matching_def)
qed

lemma matching_written:
  assumes "length random = length ms" "distinct random" "\<forall>i\<in>set random. i < length tlb \<and> tlb ! i = None"
  shows "mset (matching va (write_mappings random ms tlb)) =
    mset (matching va tlb) + mset (filter (entry_matches va) (map (\<lambda>(v, p0, p1). add_tlb_mapping v p0 p1) ms))"
  using assms
proof (induction random ms arbitrary: tlb rule: list_induct2)
  case (Cons i random m ms)
  obtain v p0 p1 where m: "m = (v, p0, p1)" by (cases m)
  have "\<forall>j\<in>set random. j < length (tlb[i := Some (add_tlb_mapping v p0 p1)]) \<and> tlb[i := Some (add_tlb_mapping v p0 p1)] ! j = None"
    using Cons.prems by (auto simp: nth_list_update)
  then show ?case
    using Cons.IH [of "tlb[i := Some (add_tlb_mapping v p0 p1)]"] Cons.prems matching_update [of i tlb va "add_tlb_mapping v p0 p1"]
    by (simp add: m write_mappings_def)
qed (simp add: write_mappings_def)

lemma tlb_lookup_written:
  assumes "keeps_all entries random ms"
    and "filter (entry_matches va) (map (\<lambda>(v, p0, p1). add_tlb_mapping v p0 p1) ms) = [e]"
  shows "tlb_lookup (write_mappings random ms (replicate entries None)) va = entry_address va e"
proof -
  have "matching va (replicate entries None) = []"
    by (simp add: matching_def)
  then have "mset (matching va (write_mappings random ms (replicate entries None))) = {#e#}"
    using matching_written [of random ms "replicate entries None" va] assms
    by (simp add: keeps_all_def list_all_iff)
  then have "matching va (write_mappings random ms (replicate entries None)) = [e]" by simp
  then show ?thesis by (simp add: tlb_lookup_def)
qed

text \<open>Nothing in the tests sees to that: a page whose entry is overwritten is no longer found.\<close>

lemma mapping_replaced:
  "tlb_lookup (write_mappings [1, 1] [(0, 0x10000, 0x10001), (2, 0x10002, 0x10003)] (replicate 2 None)) 0x10 = None"
  "tlb_lookup (write_mappings [1, 0] [(0, 0x10000, 0x10001), (2, 0x10002, 0x10003)] (replicate 2 None)) 0x10 = Some 0x10000010"
  by code_simp+

text \<open>The mappings of a test, and the entry of one of them.\<close>

definition page_mapping :: "u64 \<Rightarrow> u64 \<Rightarrow> u64 \<times> u64 \<times> u64" where
  "page_mapping v p = (2 * v, 2 * p, 2 * p + 1)"

definition page_entry :: "u64 \<Rightarrow> u64 \<Rightarrow> tlb_entry" where
  "page_entry v p = add_tlb_mapping (2 * v) (2 * p) (2 * p + 1)"

lemma double_page:
  fixes v :: u64
  shows "push_bit 12 (2 * v) = push_bit 13 v"
  by (simp add: push_bit_eq_mult)

lemma unat_push_page:
  assumes "unat v < 2 ^ 50"
  shows "unat (push_bit 13 v :: u64) = unat v * 0x2000"
  using assms by (simp add: push_bit_eq_mult unat_word_ariths)

lemma unat_page_offset:
  assumes "unat v < 2 ^ 50" and "off < (0x2000 :: u64)"
  shows "unat (push_bit 13 v + off) = unat v * 0x2000 + unat off"
proof -
  have "unat off < 0x2000" using assms(2) by (simp add: word_less_nat_alt)
  then show ?thesis using assms(1) by (simp add: unat_word_ariths unat_push_page)
qed

lemma page_of_address:
  assumes "unat v < 2 ^ 50" and "off < (0x2000 :: u64)"
  shows "drop_bit 13 (push_bit 13 v + off) = v"
proof -
  have "unat off < 0x2000" using assms(2) by (simp add: word_less_nat_alt)
  then have "unat (drop_bit 13 (push_bit 13 v + off)) = unat v"
    by (simp add: drop_bit_eq_div unat_div_distrib unat_page_offset [OF assms])
  then show ?thesis by (simp only: word_unat_eq_iff)
qed

lemma entry_of_page:
  assumes "unat v < 2 ^ 50"
  shows "drop_bit 13 (entry_hi (page_entry v p)) = v"
  using page_of_address [of v 0] assms by (simp add: page_entry_def add_tlb_mapping_def double_page)


lemma drop_push_6:
  assumes "unat x < 2 ^ 58"
  shows "drop_bit 6 (push_bit 6 x OR 7) = (x :: u64)"
proof -
  have "unat (drop_bit 6 (push_bit 6 x)) = unat x"
    using assms by (simp add: drop_bit_eq_div push_bit_eq_mult unat_div_distrib unat_word_ariths)
  then have "drop_bit 6 (push_bit 6 x) = x" by (simp only: word_unat_eq_iff)
  moreover have "drop_bit 6 (7 :: u64) = 0" by simp
  ultimately show ?thesis by (simp only: drop_bit_or or.right_neutral)
qed

lemma valid_bit: "bit (push_bit 6 x OR (7 :: u64)) 1"
  by (simp add: bit_or_iff)

lemma offset_parts:
  assumes "unat v < 2 ^ 50" and "off < (0x2000 :: u64)"
  shows "bit (push_bit 13 v + off) 12 \<longleftrightarrow> 0x1000 \<le> unat off"
    and "unat (take_bit 12 (push_bit 13 v + off)) = unat off mod 0x1000"
proof -
  let ?va = "push_bit 13 v + off"
  have off: "unat off < 0x2000" using assms(2) by (simp add: word_less_nat_alt)
  note va = unat_page_offset [OF assms]
  have "bit ?va 12 \<longleftrightarrow> bit (unat ?va) 12" by (simp only: bit_unsigned_iff) simp
  also have "\<dots> \<longleftrightarrow> odd ((unat v * 0x2000 + unat off) div 0x1000)" by (simp add: bit_iff_odd va)
  also have "(unat v * 0x2000 + unat off) div 0x1000 = unat v * 2 + unat off div 0x1000" by simp
  also have "odd (unat v * 2 + unat off div 0x1000) \<longleftrightarrow> odd (unat off div 0x1000)" by simp
  also have "\<dots> \<longleftrightarrow> 0x1000 \<le> unat off"
  proof (cases "0x1000 \<le> unat off")
    case True
    then have "unat off div 0x1000 = 1" using off by (intro div_nat_eqI) simp_all
    then show ?thesis using True by simp
  qed simp
  finally show "bit ?va 12 \<longleftrightarrow> 0x1000 \<le> unat off" .
  have "unat (take_bit 12 ?va) = take_bit 12 (unat ?va)" by (simp only: unsigned_take_bit_eq)
  also have "\<dots> = (unat v * 0x2000 + unat off) mod 0x1000" by (simp add: take_bit_eq_mod va)
  also have "unat v * 0x2000 + unat off = unat off + unat v * 2 * 0x1000" by simp
  also have "(unat off + unat v * 2 * 0x1000) mod 0x1000 = unat off mod 0x1000" by (rule mod_mult_self1)
  finally show "unat (take_bit 12 ?va) = unat off mod 0x1000" .
qed

lemma entry_address_page:
  assumes "unat v < 2 ^ 50" and "unat p < 2 ^ 50" and "off < (0x2000 :: u64)"
  shows "entry_address (push_bit 13 v + off) (page_entry v p) = Some (push_bit 13 p + off)"
proof -
  let ?va = "push_bit 13 v + off"
  let ?q = "if 0x1000 \<le> unat off then 2 * p + 1 else 2 * p"
  have off: "unat off < 0x2000" using assms(3) by (simp add: word_less_nat_alt)
  have q: "unat ?q = 2 * unat p + unat off div 0x1000"
  proof (cases "0x1000 \<le> unat off")
    case True
    then have "unat off div 0x1000 = 1" using off by (intro div_nat_eqI) simp_all
    then show ?thesis using assms(2) True by (simp add: unat_word_ariths)
  qed (use assms(2) in \<open>simp add: unat_word_ariths\<close>)
  have "(if bit ?va 12 then entry_lo1 (page_entry v p) else entry_lo0 (page_entry v p)) = push_bit 6 ?q OR 7"
    by (simp add: offset_parts(1) [OF assms(1,3)] page_entry_def add_tlb_mapping_def)
  moreover have "drop_bit 6 (push_bit 6 ?q OR 7) = ?q"
    using q assms(2) off by (intro drop_push_6) simp
  ultimately have e: "entry_address ?va (page_entry v p) = Some (push_bit 12 ?q + take_bit 12 ?va)"
    by (simp only: entry_address_def Let_def valid_bit if_True)
  have "unat (push_bit 12 ?q) = unat ?q * 0x1000"
    unfolding push_bit_eq_mult unat_word_ariths using q assms(2) off by simp
  then have "unat (push_bit 12 ?q + take_bit 12 ?va) = (2 * unat p + unat off div 0x1000) * 0x1000 + unat off mod 0x1000"
    unfolding unat_word_ariths offset_parts(2) [OF assms(1,3)] using q assms(2) off by simp
  also have "\<dots> = unat p * 0x2000 + unat off" by simp
  also have "\<dots> = unat (push_bit 13 p + off)" by (simp only: unat_page_offset [OF assms(2,3)])
  finally have "push_bit 12 ?q + take_bit 12 ?va = push_bit 13 p + off" by (simp only: word_unat_eq_iff)
  then show ?thesis unfolding e by (rule arg_cong)
qed

text \<open>Where a page of the test is found.\<close>

definition in_dram :: "'r page_rng \<Rightarrow> bool" where
  "in_dram R \<longleftrightarrow> (\<forall>r. MIN_PHYS_PAGE \<le> fst (random_phys_pn R r) \<and> fst (random_phys_pn R r) \<le> MAX_PHYS_PAGE)"

lemma filter_distinct:
  assumes "distinct xs" and "length xs = length ys" and "(x, y) \<in> set (zip xs ys)"
    and "\<And>x' y'. (x', y') \<in> set (zip xs ys) \<Longrightarrow> Q (f x' y') \<longleftrightarrow> x' = x"
  shows "filter Q (map2 f xs ys) = [f x y]"
  using assms(2,1,3,4)
proof (induction xs ys rule: list_induct2)
  case (Cons a xs b ys)
  show ?case
  proof (cases "a = x")
    case True
    then have "\<forall>(x', y')\<in>set (zip xs ys). x' \<noteq> x" using Cons.prems(1) by (auto dest: set_zip_leftD)
    then have "filter Q (map2 f xs ys) = []" "y = b"
      using Cons.prems(2,3) True by (auto simp: filter_empty_conv)
    then show ?thesis using True Cons.prems(3) by simp
  next
    case False
    then show ?thesis using Cons.IH Cons.prems by simp
  qed
qed simp

lemma small_pages:
  "v \<le> VIRT_PAGE_COUNT \<Longrightarrow> unat v < 2 ^ 50" "p \<le> MAX_PHYS_PAGE \<Longrightarrow> unat p < 2 ^ 50"
  by (simp_all add: VIRT_PAGE_COUNT_def MAX_PHYS_PAGE_def word_le_nat_alt)

text \<open>On programs within 8K the pages in use are the sources and destinations in turn.\<close>

lemma small_pages_used:
  assumes P: "pages_inv R tss P" and small: "list_all (list_all small_transfer) tss"
  shows "used_phys_pns P = interleave (source_phys_pns P) (dest_phys_pns P)"
    and "used_virt_pns P = interleave (source_virt_pns P) (dest_virt_pns P)"
    and "distinct (used_phys_pns P)" and "distinct (used_virt_pns P)"
proof -
  have n: "list_all (\<lambda>ts. pages_needed ts = 1) tss" using small small_needs_one by (simp add: list_all_iff)
  show u: "used_phys_pns P = interleave (source_phys_pns P) (dest_phys_pns P)"
    "used_virt_pns P = interleave (source_virt_pns P) (dest_virt_pns P)"
    using P page_runs_single(1) [OF _ _ n] unfolding pages_inv_def by metis+
  show "distinct (used_phys_pns P)" "distinct (used_virt_pns P)"
    unfolding u using P page_runs_single(2) [OF _ _ n] unfolding pages_inv_def by metis+
qed

lemma small_ends: "list_all (list_all small_transfer) tss \<Longrightarrow> list_all (\<lambda>ts. last_end ts < 2 ^ 64) tss"
  by (erule list.pred_mono_strong) (rule small_needs_one(2))

lemma small_pages_bound:
  assumes P: "pages_inv R tss P" "list_all (list_all small_transfer) tss" and R: "in_dram R"
  shows "p \<in> set (used_phys_pns P) \<Longrightarrow> MIN_PHYS_PAGE \<le> p \<and> p \<le> MAX_PHYS_PAGE"
    and "v \<in> set (used_virt_pns P) \<Longrightarrow> v \<le> VIRT_PAGE_COUNT"
proof -
  have "set (used_phys_pns P) = set (source_phys_pns P @ dest_phys_pns P)"
    "set (used_virt_pns P) = set (source_virt_pns P @ dest_virt_pns P)"
    using P interleave_mset small_pages_used(1,2) [OF P] unfolding pages_inv_def by (metis mset_eq_setD)+
  then show "p \<in> set (used_phys_pns P) \<Longrightarrow> MIN_PHYS_PAGE \<le> p \<and> p \<le> MAX_PHYS_PAGE"
    "v \<in> set (used_virt_pns P) \<Longrightarrow> v \<le> VIRT_PAGE_COUNT"
    using P(1) R unfolding pages_inv_def in_dram_def by (metis, metis)
qed

lemma tlb_lookup_page:
  assumes P: "pages_inv R tss P" "list_all (list_all small_transfer) tss" "in_dram R"
    and vp: "(v, p) \<in> set (zip (used_virt_pns P) (used_phys_pns P))" and off: "off < 0x2000"
    and ms: "ms = map2 page_mapping (used_virt_pns P) (used_phys_pns P)" and keeps: "keeps_all entries random ms"
  shows "tlb_lookup (write_mappings random ms (replicate entries None)) (push_bit 13 v + off) = Some (push_bit 13 p + off)"
proof -
  have small: "unat v' < 2 ^ 50 \<and> unat p' < 2 ^ 50"
    if "(v', p') \<in> set (zip (used_virt_pns P) (used_phys_pns P))" for v' p'
    using small_pages_bound [OF P] set_zip_leftD [OF that] set_zip_rightD [OF that] small_pages by blast
  have "length (used_virt_pns P) = length (used_phys_pns P)"
    using P(1) interleave_length small_pages_used(1,2) [OF P(1,2)] unfolding pages_inv_def by metis
  moreover have "entry_matches (push_bit 13 v + off) (page_entry v' p') \<longleftrightarrow> v' = v"
    if "(v', p') \<in> set (zip (used_virt_pns P) (used_phys_pns P))" for v' p'
  proof -
    have "drop_bit 13 (entry_hi (page_entry v' p')) = v'" using small [OF that] by (intro entry_of_page) simp
    moreover have "drop_bit 13 (push_bit 13 v + off) = v" using small [OF vp] off by (intro page_of_address) simp_all
    ultimately show ?thesis by (simp add: entry_matches_def page_entry_def add_tlb_mapping_def)
  qed
  ultimately have "filter (entry_matches (push_bit 13 v + off))
      (map2 page_entry (used_virt_pns P) (used_phys_pns P)) = [page_entry v p]"
    using vp small_pages_used(4) [OF P(1,2)] by (intro filter_distinct) simp_all
  moreover have "map2 page_entry (used_virt_pns P) (used_phys_pns P) = map (\<lambda>(v, p0, p1). add_tlb_mapping v p0 p1) ms"
    by (simp add: ms page_mapping_def page_entry_def comp_def case_prod_beta)
  ultimately show ?thesis
    using tlb_lookup_written [OF keeps] small [OF vp] off by (simp add: entry_address_page)
qed

text \<open>Reading the line of a virtual test.\<close>

definition virtual_test :: "pages \<Rightarrow> transfer list list \<Rightarrow> thread_test" where
  "virtual_test P tss =
     \<lparr>mappings = map2 page_mapping (used_virt_pns P) (used_phys_pns P),
      assignments = numbered_from 0 (thread_addresses fst (map (\<lambda>p. phys_pn_to_addr (2 * p)) (source_phys_pns P)) tss),
      comparisons = numbered_from 0
        (thread_addresses transfer_destination (map (\<lambda>p. phys_pn_to_addr (2 * p)) (dest_phys_pns P)) tss),
      source_pointers = map (\<lambda>v. virt_pn_to_addr (2 * v)) (source_virt_pns P),
      dest_pointers = map (\<lambda>v. virt_pn_to_addr (2 * v)) (dest_virt_pns P)\<rparr>"

lemma read_virt_fields:
  "read_thread_fields (split_on CHR ''$'' (print_virt_fields P tss)) = Some (virtual_test P tss)"
  unfolding print_virt_fields_def print_threads_numbered read_fields_printed
  by (simp add: virtual_test_def page_mapping_def)

text \<open>
  C14. The calls of \<open>add_tlb_mapping\<close> that a virtual test prints lead the threads to their memory. For
  programs within 8K, physical pages from the range of the distribution and a TLB that keeps the
  mappings (it holds nothing else, has room for them, and \<open>tlbwr\<close> never draws an index twice), every
  address within the 8K behind a printed pointer of a thread is translated to the address at the same
  offset of the page drawn for it, as the unmapped segment shows it, and all of these lie in the memory
  behind the test, from 256 MB to 1 GB.
\<close>

theorem virtual_addresses_mapped:
  assumes "allocate_pages R tss (no_pages, r) = Some (Inr (P, r'))"
    and "list_all (list_all small_transfer) tss" and "in_dram R" and "i < length tss" and "off < 0x2000"
  shows "\<exists>T. read_thread_fields (split_on CHR ''$'' (print_virt_fields P tss)) = Some T \<and>
    length (source_pointers T) = length tss \<and> length (dest_pointers T) = length tss \<and>
    (\<forall>entries random. keeps_all entries random (mappings T) \<longrightarrow>
      (let tlb = write_mappings random (mappings T) (replicate entries None) in
       \<exists>a b. tlb_lookup tlb (source_pointers T ! i + off) = Some a \<and>
         0x9000000000000000 + a = phys_pn_to_addr (2 * source_phys_pns P ! i) + off \<and>
         tlb_lookup tlb (dest_pointers T ! i + off) = Some b \<and>
         0x9000000000000000 + b = phys_pn_to_addr (2 * dest_phys_pns P ! i) + off \<and>
         0x10000000 \<le> a \<and> a < 0x40000000 \<and> 0x10000000 \<le> b \<and> b < 0x40000000))"
proof -
  have P: "pages_inv R tss P"
    using allocated_pages [OF assms(1) small_ends [OF assms(2)]] .
  have l: "length (source_phys_pns P) = length tss" "length (dest_phys_pns P) = length tss"
    "length (source_virt_pns P) = length tss" "length (dest_virt_pns P) = length tss"
    using P by (simp_all add: pages_inv_def)
  have zip: "(source_virt_pns P ! i, source_phys_pns P ! i) \<in> set (zip (used_virt_pns P) (used_phys_pns P))"
    "(dest_virt_pns P ! i, dest_phys_pns P ! i) \<in> set (zip (used_virt_pns P) (used_phys_pns P))"
    using assms(4) l small_pages_used(1,2) [OF P assms(2)]
      interleave_nth [of "source_virt_pns P" "dest_virt_pns P" "source_phys_pns P" "dest_phys_pns P" i]
    by simp_all
  have range: "0x10000000 \<le> push_bit 13 p + off \<and> push_bit 13 p + off < 0x40000000"
    if "(v, p) \<in> set (zip (used_virt_pns P) (used_phys_pns P))" for v p
  proof -
    have "MIN_PHYS_PAGE \<le> p" "p \<le> MAX_PHYS_PAGE"
      using small_pages_bound(1) [OF P assms(2,3)] set_zip_rightD [OF that] by blast+
    then have p: "0x8000 \<le> unat p" "unat p \<le> 0x1FFFF"
      by (simp_all add: MIN_PHYS_PAGE_def MAX_PHYS_PAGE_def word_le_nat_alt)
    moreover have "unat off < 0x2000" using assms(5) by (simp add: word_less_nat_alt)
    moreover have "unat (push_bit 13 p + off) = unat p * 0x2000 + unat off"
      using p assms(5) by (intro unat_page_offset) simp_all
    ultimately show ?thesis by (simp add: word_le_nat_alt word_less_nat_alt)
  qed
  have found: "let tlb = write_mappings random (mappings (virtual_test P tss)) (replicate entries None) in
       \<exists>a b. tlb_lookup tlb (source_pointers (virtual_test P tss) ! i + off) = Some a \<and>
         0x9000000000000000 + a = phys_pn_to_addr (2 * source_phys_pns P ! i) + off \<and>
         tlb_lookup tlb (dest_pointers (virtual_test P tss) ! i + off) = Some b \<and>
         0x9000000000000000 + b = phys_pn_to_addr (2 * dest_phys_pns P ! i) + off \<and>
         0x10000000 \<le> a \<and> a < 0x40000000 \<and> 0x10000000 \<le> b \<and> b < 0x40000000"
    if "keeps_all entries random (mappings (virtual_test P tss))" for entries random
    using that assms(4) l range [OF zip(1)] range [OF zip(2)]
      tlb_lookup_page [OF P assms(2,3) zip(1) assms(5) refl, of entries random]
      tlb_lookup_page [OF P assms(2,3) zip(2) assms(5) refl, of entries random]
    by (simp add: virtual_test_def virt_pn_to_addr_def phys_pn_to_addr_def double_page add.assoc)
  show ?thesis
    using found l by (intro exI [of _ "virtual_test P tss"] conjI allI impI read_virt_fields) (simp_all add: virtual_test_def)
qed

lemma counting_in_dram: "in_dram counting_rng"
proof -
  have "unat (0x8000 + p mod 4 :: u64) = 0x8000 + unat p mod 4" for p
    by (simp add: unat_word_ariths)
  then show ?thesis
    by (auto simp: in_dram_def counting_rng_def word_le_nat_alt MIN_PHYS_PAGE_def MAX_PHYS_PAGE_def
        intro: order_trans [of _ "0x8003"])
qed

lemma four_pages_keeps: "keeps_all 8 [5, 0, 7, 2] (mappings (virtual_test four_pages two_transfers))"
  by (simp add: keeps_all_def virtual_test_def four_pages_def)

theorem virtual_addresses_mapped_witness:
  "\<exists>T a. read_thread_fields (split_on CHR ''$'' (print_virt_fields four_pages two_transfers)) = Some T \<and>
     tlb_lookup (write_mappings [5, 0, 7, 2] (mappings T) (replicate 8 None)) (source_pointers T ! 1 + 0x1234) = Some a \<and>
     0x9000000000000000 + a = phys_pn_to_addr (2 * 0x8002) + 0x1234"
proof -
  have "1 < length two_transfers" "(0x1234 :: u64) < 0x2000" by (simp_all add: two_transfers_def)
  from virtual_addresses_mapped [OF four_pages two_transfers_small counting_in_dram this]
  obtain T where T: "read_thread_fields (split_on CHR ''$'' (print_virt_fields four_pages two_transfers)) = Some T"
    "\<forall>entries random. keeps_all entries random (mappings T) \<longrightarrow>
      (let tlb = write_mappings random (mappings T) (replicate entries None) in
       \<exists>a. tlb_lookup tlb (source_pointers T ! 1 + 0x1234) = Some a \<and>
         0x9000000000000000 + a = phys_pn_to_addr (2 * source_phys_pns four_pages ! 1) + 0x1234)"
    unfolding Let_def by blast
  have "T = virtual_test four_pages two_transfers" using T(1) by (simp add: read_virt_fields)
  then have "keeps_all 8 [5, 0, 7, 2] (mappings T)" using four_pages_keeps by simp
  with T(2) obtain a where "tlb_lookup (write_mappings [5, 0, 7, 2] (mappings T) (replicate 8 None)) (source_pointers T ! 1 + 0x1234) = Some a"
    "0x9000000000000000 + a = phys_pn_to_addr (2 * source_phys_pns four_pages ! 1) + 0x1234"
    unfolding Let_def by blast
  then show ?thesis using T(1) by (auto simp: four_pages_def)
qed

section \<open>Copies in any order\<close>

definition run_copies :: "(u64 \<times> u64) list \<Rightarrow> (u64 \<Rightarrow> u8) \<Rightarrow> u64 \<Rightarrow> u8" where
  "run_copies = fold (\<lambda>(a, b) m. m(b := m a))"

lemma run_copies_untouched: "b \<notin> snd ` set cs \<Longrightarrow> run_copies cs m b = m b"
  by (induction cs arbitrary: m) (auto simp: run_copies_def)

lemma run_copies_apart:
  "distinct (map snd cs) \<Longrightarrow> fst ` set cs \<inter> snd ` set cs = {} \<Longrightarrow> (a, b) \<in> set cs \<Longrightarrow> run_copies cs m b = m a"
proof (induction cs arbitrary: m)
  case (Cons c cs)
  obtain a0 b0 where c: "c = (a0, b0)" by (cases c)
  show ?case
  proof (cases "c = (a, b)")
    case True
    then have "b \<notin> snd ` set cs" using Cons.prems(1) by auto
    then show ?thesis using True run_copies_untouched by (simp add: run_copies_def)
  next
    case False
    then have in_cs: "(a, b) \<in> set cs" using Cons.prems(3) by simp
    then have "a \<in> fst ` set cs" by force
    then have "a \<noteq> b0" using Cons.prems(2) c by auto
    moreover have "fst ` set cs \<inter> snd ` set cs = {}" using Cons.prems(2) by auto
    ultimately show ?thesis using in_cs Cons c by (simp add: run_copies_def)
  qed
qed simp

lemma numbered_checks:
  assumes "distinct S" "distinct D" "set S \<inter> set D = {}" "length S = length D"
    and "mset cs = mset (zip S D)"
  shows "checks_hold (numbered_from 0 D) (run_copies cs (run_sources (numbered_from 0 S) m))"
proof -
  have s: "set cs = set (zip S D)" using assms(5) by (rule mset_eq_setD)
  have "mset (map snd cs) = mset (map snd (zip S D))" using assms(5) by (metis mset_map)
  then have d: "distinct (map snd cs)" using assms(2,4) by (metis map_snd_zip mset_eq_imp_distinct_iff)
  have "fst ` set cs \<subseteq> set S" "snd ` set cs \<subseteq> set D"
    by (auto simp: s dest: set_zip_leftD set_zip_rightD)
  then have "fst ` set cs \<inter> snd ` set cs = {}" using assms(3) by blast
  then have "run_copies cs (run_sources (numbered_from 0 S) m) (D ! i) = of_nat i" if "i < length D" for i
  proof -
    have "(S ! i, D ! i) \<in> set cs" using that assms(4) by (auto simp: s set_zip)
    then have "run_copies cs (run_sources (numbered_from 0 S) m) (D ! i) = run_sources (numbered_from 0 S) m (S ! i)"
      using d \<open>fst ` set cs \<inter> snd ` set cs = {}\<close> by (intro run_copies_apart)
    also have "\<dots> = of_nat i"
      using assms(1,4) that by (intro run_sources_lookup) (simp only: map_fst_numbered, simp add: numbered_from_def)
    finally show ?thesis .
  qed
  then show ?thesis by (simp add: checks_hold_def numbered_from_def list_all_iff)
qed


section \<open>Tests on virtual addresses\<close>

text \<open>The copies of bytes an engine makes through the TLB; the test uses the unmapped segment.\<close>

fun run_virtual :: "tlb_entry option list \<Rightarrow> (u64 \<times> u64) list \<Rightarrow> (u64 \<Rightarrow> u8) \<Rightarrow> (u64 \<Rightarrow> u8) option" where
  "run_virtual tlb [] m = Some m"
| "run_virtual tlb ((a, b) # copies) m =
     (case (tlb_lookup tlb a, tlb_lookup tlb b) of
        (Some p, Some q) \<Rightarrow>
          run_virtual tlb copies (m(0x9000000000000000 + q := m (0x9000000000000000 + p)))
      | _ \<Rightarrow> None)"

definition phys_of :: "tlb_entry option list \<Rightarrow> u64 \<Rightarrow> u64" where
  "phys_of tlb va = 0x9000000000000000 + the (tlb_lookup tlb va)"

lemma phys_of_lookup: "tlb_lookup tlb a = Some p \<Longrightarrow> phys_of tlb a = 0x9000000000000000 + p"
  by (simp add: phys_of_def)

lemma run_virtual_copies:
  "\<forall>(a, b)\<in>set copies. tlb_lookup tlb a \<noteq> None \<and> tlb_lookup tlb b \<noteq> None \<Longrightarrow>
   run_virtual tlb copies m = Some (run_copies (map (\<lambda>(a, b). (phys_of tlb a, phys_of tlb b)) copies) m)"
  by (induction tlb copies m rule: run_virtual.induct)
    (auto simp: run_copies_def phys_of_def split: option.splits)

text \<open>
  The copies of bytes the programs ask for, each thread relative to the pointers it was started with.
\<close>

definition engine_copies :: "u64 list \<Rightarrow> u64 list \<Rightarrow> transfer list list \<Rightarrow> (u64 \<times> u64) list" where
  "engine_copies sources dests tss =
     zip (thread_addresses fst sources tss) (thread_addresses transfer_destination dests tss)"

text \<open>The addresses of a thread lie in its 8K.\<close>

lemma byte_addresses_small:
  assumes "list_all small_transfer ts" and "a \<in> set (byte_addresses at ts)" and "at = fst \<or> at = transfer_destination"
  shows "a < 0x2000"
proof -
  obtain s d z i where t: "(s, d, z) \<in> set ts" "i < 2 ^ z" "a = at (s, d, z) + of_nat i"
    using assms(2) by (auto simp: byte_addresses_def)
  have "small_transfer (s, d, z)" using t(1) assms(1) by (simp add: list_all_iff)
  then have u: "unat (at (s, d, z)) + 2 ^ z < 0x2000" using assms(3) by (auto simp: small_transfer_def)
  then have "unat (of_nat i :: u64) = i" using t(2) by (simp add: unsigned_of_nat take_bit_nat_eq_self)
  then have "unat a < 0x2000" using u t(2) by (simp add: t(3) unat_word_ariths)
  then show ?thesis by (simp add: word_less_nat_alt)
qed

lemma thread_addresses_translated:
  assumes "length vs = length ps" "length ps = length tss" "list_all (list_all small_transfer) tss"
    and "at = fst \<or> at = transfer_destination"
    and "\<And>v p off. (v, p) \<in> set (zip vs ps) \<Longrightarrow> off < 0x2000 \<Longrightarrow>
      tlb_lookup tlb (push_bit 13 v + off) = Some (push_bit 13 p + off)"
  shows "map (phys_of tlb) (thread_addresses at (map (\<lambda>v. virt_pn_to_addr (2 * v)) vs) tss) =
      thread_addresses at (map (\<lambda>p. phys_pn_to_addr (2 * p)) ps) tss \<and>
    (\<forall>a\<in>set (thread_addresses at (map (\<lambda>v. virt_pn_to_addr (2 * v)) vs) tss). tlb_lookup tlb a \<noteq> None)"
  using assms(1-3,5)
proof (induction vs ps tss rule: list_induct3)
  case (Cons v vs p ps ts tss)
  have "a < 0x2000" if "a \<in> set (byte_addresses at ts)" for a
    using that Cons.prems(1) assms(4) by (intro byte_addresses_small [of ts _ at]) simp_all
  then have "tlb_lookup tlb (push_bit 13 v + a) = Some (push_bit 13 p + a)" if "a \<in> set (byte_addresses at ts)" for a
    using that Cons.prems(2) by simp
  moreover have "map (phys_of tlb) (thread_addresses at (map (\<lambda>v. virt_pn_to_addr (2 * v)) vs) tss) =
      thread_addresses at (map (\<lambda>p. phys_pn_to_addr (2 * p)) ps) tss \<and>
    (\<forall>a\<in>set (thread_addresses at (map (\<lambda>v. virt_pn_to_addr (2 * v)) vs) tss). tlb_lookup tlb a \<noteq> None)"
    using Cons.prems by (intro Cons.IH) simp_all
  ultimately show ?case
    by (auto simp: virt_pn_to_addr_def phys_pn_to_addr_def double_page phys_of_lookup add.assoc)
qed simp

text \<open>Different pages keep the bytes of different threads apart.\<close>

definition page_of :: "u64 \<Rightarrow> u64" where
  "page_of a = drop_bit 13 (a - 0x9000000000000000)"

lemma thread_addresses_pages:
  assumes "length ps = length tss" and "list_all (list_all small_transfer) tss"
    and "at = fst \<or> at = transfer_destination"
    and "list_all (\<lambda>ts. distinct (byte_addresses at ts)) tss"
    and "distinct ps" and "\<forall>p\<in>set ps. unat p < 2 ^ 50"
  shows "distinct (thread_addresses at (map (\<lambda>p. phys_pn_to_addr (2 * p)) ps) tss) \<and>
    page_of ` set (thread_addresses at (map (\<lambda>p. phys_pn_to_addr (2 * p)) ps) tss) \<subseteq> set ps"
  using assms(1,2,4-6)
proof (induction ps tss rule: list_induct2)
  case (Cons p ps ts tss)
  let ?A = "map ((+) (phys_pn_to_addr (2 * p))) (byte_addresses at ts)"
  let ?B = "thread_addresses at (map (\<lambda>p. phys_pn_to_addr (2 * p)) ps) tss"
  have "page_of (phys_pn_to_addr (2 * p) + a) = p" if "a \<in> set (byte_addresses at ts)" for a
  proof -
    have "a < 0x2000" using that Cons.prems(1) assms(3) by (intro byte_addresses_small [of ts _ at]) simp_all
    then show ?thesis
      using Cons.prems(4) page_of_address [of p a] by (simp add: page_of_def phys_pn_to_addr_def double_page)
  qed
  then have A: "page_of ` set ?A \<subseteq> {p}" by auto
  have B: "distinct ?B \<and> page_of ` set ?B \<subseteq> set ps" using Cons by simp
  have "p \<notin> set ps" using Cons.prems(3) by simp
  then have "set ?A \<inter> set ?B = {}" using A B by blast
  moreover have "distinct ?A" using Cons.prems(2) by (simp add: distinct_map)
  ultimately show ?case using A B by auto
qed simp

text \<open>The addresses the engine is given lead to those of the test, and the latter are all different.\<close>

lemma virtual_test_addresses:
  fixes P :: pages and tss :: "transfer list list"
  defines "VS \<equiv> thread_addresses fst (map (\<lambda>v. virt_pn_to_addr (2 * v)) (source_virt_pns P)) tss"
    and "VD \<equiv> thread_addresses transfer_destination (map (\<lambda>v. virt_pn_to_addr (2 * v)) (dest_virt_pns P)) tss"
    and "S \<equiv> thread_addresses fst (map (\<lambda>p. phys_pn_to_addr (2 * p)) (source_phys_pns P)) tss"
    and "D \<equiv> thread_addresses transfer_destination (map (\<lambda>p. phys_pn_to_addr (2 * p)) (dest_phys_pns P)) tss"
  assumes P: "pages_inv R tss P" and small: "list_all (list_all small_transfer) tss" and R: "in_dram R"
    and once: "list_all (\<lambda>ts. distinct (byte_addresses fst ts)) tss"
      "list_all (\<lambda>ts. distinct (byte_addresses transfer_destination ts)) tss"
    and tlb: "keeps_all entries random (mappings (virtual_test P tss))"
      "tlb = write_mappings random (mappings (virtual_test P tss)) (replicate entries None)"
  shows "map (phys_of tlb) VS = S" "\<forall>a\<in>set VS. tlb_lookup tlb a \<noteq> None"
    and "map (phys_of tlb) VD = D" "\<forall>a\<in>set VD. tlb_lookup tlb a \<noteq> None"
    and "distinct S" "distinct D" "set S \<inter> set D = {}" "length S = length D"
proof -
  have l: "length (source_phys_pns P) = length tss" "length (dest_phys_pns P) = length tss"
    "length (source_virt_pns P) = length tss" "length (dest_virt_pns P) = length tss"
    using P by (simp_all add: pages_inv_def)
  note used = small_pages_used [OF P small]
  have d: "distinct (source_phys_pns P @ dest_phys_pns P)"
    using used(1,3) interleave_distinct l(1,2) by metis
  have "set (source_phys_pns P @ dest_phys_pns P) = set (used_phys_pns P)"
    using used(1) interleave_mset l(1,2) by (metis mset_eq_setD)
  then have b: "unat p < 2 ^ 50" if "p \<in> set (source_phys_pns P @ dest_phys_pns P)" for p
    using that small_pages(2) small_pages_bound(1) [OF P small R] by blast
  have zip: "(v, p) \<in> set (zip (used_virt_pns P) (used_phys_pns P))"
    if "(v, p) \<in> set (zip (source_virt_pns P) (source_phys_pns P)) \<or> (v, p) \<in> set (zip (dest_virt_pns P) (dest_phys_pns P))" for v p
    using that l interleave_nth [of "source_virt_pns P" "dest_virt_pns P" "source_phys_pns P" "dest_phys_pns P"]
    by (auto simp: used(1,2) in_set_zip)
  have ms: "mappings (virtual_test P tss) = map2 page_mapping (used_virt_pns P) (used_phys_pns P)"
    by (simp add: virtual_test_def)
  have page: "tlb_lookup tlb (push_bit 13 v + off) = Some (push_bit 13 p + off)"
    if "(v, p) \<in> set (zip (source_virt_pns P) (source_phys_pns P)) \<or> (v, p) \<in> set (zip (dest_virt_pns P) (dest_phys_pns P))"
      "off < 0x2000" for v p off
    unfolding tlb(2) using tlb_lookup_page [OF P small R zip [OF that(1)] that(2) ms tlb(1)] .
  have s: "map (phys_of tlb) VS = S \<and> (\<forall>a\<in>set VS. tlb_lookup tlb a \<noteq> None)"
    unfolding VS_def S_def using small l page by (intro thread_addresses_translated) simp_all
  have t: "map (phys_of tlb) VD = D \<and> (\<forall>a\<in>set VD. tlb_lookup tlb a \<noteq> None)"
    unfolding VD_def D_def using small l page by (intro thread_addresses_translated) simp_all
  have ps: "distinct S \<and> page_of ` set S \<subseteq> set (source_phys_pns P)"
    using l small once d b unfolding S_def by (intro thread_addresses_pages) simp_all
  have pd: "distinct D \<and> page_of ` set D \<subseteq> set (dest_phys_pns P)"
    using l small once d b unfolding D_def by (intro thread_addresses_pages) simp_all
  have apart: "set S \<inter> set D = {}" using ps pd d by (fastforce simp: image_subset_iff)
  show "map (phys_of tlb) VS = S" "\<forall>a\<in>set VS. tlb_lookup tlb a \<noteq> None"
    "map (phys_of tlb) VD = D" "\<forall>a\<in>set VD. tlb_lookup tlb a \<noteq> None"
    "distinct S" "distinct D" "set S \<inter> set D = {}"
    using s t ps pd apart by simp_all
  show "length S = length D" unfolding S_def D_def using l by (intro thread_addresses_length) simp
qed

lemma virtual_copies_checked:
  assumes P: "pages_inv R tss P" and small: "list_all (list_all small_transfer) tss" and R: "in_dram R"
    and once: "list_all (\<lambda>ts. distinct (byte_addresses fst ts)) tss"
      "list_all (\<lambda>ts. distinct (byte_addresses transfer_destination ts)) tss"
    and T: "T = virtual_test P tss" and keeps: "keeps_all entries random (mappings T)"
    and tlb: "tlb = write_mappings random (mappings T) (replicate entries None)"
    and order: "mset copies = mset (engine_copies (source_pointers T) (dest_pointers T) tss)"
  shows "map (map_option ((+) 0x9000000000000000) \<circ> tlb_lookup tlb) (thread_addresses transfer_destination (dest_pointers T) tss)
      = map (Some \<circ> fst) (comparisons T)"
    and "\<exists>m'. run_virtual tlb copies (run_sources (assignments T) m) = Some m' \<and> checks_hold (comparisons T) m'"
proof -
  let ?f = "phys_of tlb" and ?c = "map (\<lambda>(a, b). (phys_of tlb a, phys_of tlb b)) copies"
  let ?S = "thread_addresses fst (map (\<lambda>p. phys_pn_to_addr (2 * p)) (source_phys_pns P)) tss"
    and ?D = "thread_addresses transfer_destination (map (\<lambda>p. phys_pn_to_addr (2 * p)) (dest_phys_pns P)) tss"
  note v = virtual_test_addresses [OF P small R once keeps [unfolded T] tlb [unfolded T]]
  have t: "source_pointers T = map (\<lambda>v. virt_pn_to_addr (2 * v)) (source_virt_pns P)"
    "dest_pointers T = map (\<lambda>v. virt_pn_to_addr (2 * v)) (dest_virt_pns P)"
    "assignments T = numbered_from 0 ?S" "comparisons T = numbered_from 0 ?D"
    by (simp_all add: T virtual_test_def)
  have "map (map_option ((+) 0x9000000000000000) \<circ> tlb_lookup tlb) (thread_addresses transfer_destination (dest_pointers T) tss) =
      map (Some \<circ> ?f) (thread_addresses transfer_destination (dest_pointers T) tss)"
    using v(4) unfolding t(2) by (intro map_cong refl) (auto simp: phys_of_def)
  also have "\<dots> = map Some ?D" using v(3) unfolding t(2) by (simp flip: map_map)
  also have "\<dots> = map (Some \<circ> fst) (comparisons T)" unfolding t(4) by (simp flip: map_map)
  finally show "map (map_option ((+) 0x9000000000000000) \<circ> tlb_lookup tlb)
      (thread_addresses transfer_destination (dest_pointers T) tss) = map (Some \<circ> fst) (comparisons T)" .
  have "set copies = set (engine_copies (source_pointers T) (dest_pointers T) tss)" using order by (rule mset_eq_setD)
  then have "tlb_lookup tlb a \<noteq> None \<and> tlb_lookup tlb b \<noteq> None" if "(a, b) \<in> set copies" for a b
    using that v(2) [rule_format, OF set_zip_leftD, of a b] v(4) [rule_format, OF set_zip_rightD, of a b]
    unfolding engine_copies_def t by blast
  then have "\<forall>(a, b)\<in>set copies. tlb_lookup tlb a \<noteq> None \<and> tlb_lookup tlb b \<noteq> None" by blast
  then have run: "run_virtual tlb copies (run_sources (assignments T) m) = Some (run_copies ?c (run_sources (assignments T) m))"
    by (rule run_virtual_copies)
  have "mset ?c = mset (map (\<lambda>(a, b). (?f a, ?f b)) (engine_copies (source_pointers T) (dest_pointers T) tss))"
    using order by (simp add: mset_map)
  also have "map (\<lambda>(a, b). (?f a, ?f b)) (engine_copies (source_pointers T) (dest_pointers T) tss) = zip ?S ?D"
    unfolding engine_copies_def t by (simp add: zip_map_map [symmetric] v(1,3))
  finally have "checks_hold (comparisons T) (run_copies ?c (run_sources (assignments T) m))"
    unfolding t using v by (intro numbered_checks) simp_all
  then show "\<exists>m'. run_virtual tlb copies (run_sources (assignments T) m) = Some m' \<and> checks_hold (comparisons T) m'"
    using run by simp
qed

text \<open>
  C7. A virtual test passes, in whatever order the engine takes the threads. For programs that stay
  within 8K, of which none reads or writes a byte twice, and physical pages from the range of the
  distribution, every line that is printed reads back as a test with two pointers for every thread. On a TLB that keeps its mappings (it
  holds nothing else, has room for them, and \<open>tlbwr\<close> never draws an index twice) the test
  compares, one by one, the bytes its pointers lead the threads to; and when the bytes of all the
  threads are copied through the TLB, in any order, every comparison holds, whatever memory held before
  and however often the counter of the values wraps around.
\<close>

theorem virtual_test_passes:
  assumes line: "print_virtualised_test_information stop gen exec R new_rng thread_count seed = Some (Inr line)"
    and programs: "generate_programs gen (unat thread_count) (mysrand seed) = Some (Inr programs)"
      "generate_transfer_lists exec programs = Some tss"
    and R: "in_dram R" and small: "list_all (list_all small_transfer) tss"
    and once: "list_all (\<lambda>ts. distinct (byte_addresses fst ts)) tss"
      "list_all (\<lambda>ts. distinct (byte_addresses transfer_destination ts)) tss"
  shows "\<exists>T. read_thread_test line = Some T \<and>
    length (source_pointers T) = length tss \<and> length (dest_pointers T) = length tss \<and>
    (\<forall>entries random copies m. keeps_all entries random (mappings T) \<longrightarrow>
      mset copies = mset (engine_copies (source_pointers T) (dest_pointers T) tss) \<longrightarrow>
      (let tlb = write_mappings random (mappings T) (replicate entries None) in
       map (map_option ((+) 0x9000000000000000) \<circ> tlb_lookup tlb) (thread_addresses transfer_destination (dest_pointers T) tss)
         = map (Some \<circ> fst) (comparisons T) \<and>
       (\<exists>m'. run_virtual tlb copies (run_sources (assignments T) m) = Some m' \<and> checks_hold (comparisons T) m')))"
proof -
  from print_programs_then_fields [OF line [unfolded print_virtualised_test_information_def] programs]
  obtain parts where parts: "and_then (allocate_pages R tss (no_pages, new_rng seed)) (\<lambda>(P, r). Some (Inr (print_virt_fields P tss)))
      = Some (Inr parts)" "read_thread_test line = read_thread_fields (split_on CHR ''$'' parts)"
    by blast
  then obtain P r where alloc: "allocate_pages R tss (no_pages, new_rng seed) = Some (Inr (P, r))"
    "parts = print_virt_fields P tss"
    by (auto simp: and_then_Some_Inr)
  have P: "pages_inv R tss P" using allocated_pages [OF alloc(1) small_ends [OF small]] .
  have "read_thread_test line = Some (virtual_test P tss)"
    unfolding parts(2) alloc(2) by (rule read_virt_fields)
  moreover have "length (source_pointers (virtual_test P tss)) = length tss"
    "length (dest_pointers (virtual_test P tss)) = length tss"
    using P by (simp_all add: virtual_test_def pages_inv_def)
  ultimately show ?thesis
    unfolding Let_def using virtual_copies_checked [OF P small R once refl _ refl] by blast
qed

text \<open>Two threads with a program of two transfers each.\<close>

definition byte_gen :: "u32 \<Rightarrow> (dma_error + program \<times> u64) option" where
  "byte_gen seed = Some (Inr ([Some 7, Some 7, Some 0], 0))"

definition byte_transfers :: "transfer list list" where
  "byte_transfers = [[(0, 0, 0), (1, 1, 0)], [(0, 0, 0), (1, 1, 0)]]"

lemma byte_programs:
  "generate_programs byte_gen (unat (2 :: u32)) (mysrand 3) =
     Some (Inr [[Some 7, Some 7, Some 0], [Some 7, Some 7, Some 0]])"
  "generate_transfer_lists byte_engine [[Some 7, Some 7, Some 0], [Some 7, Some 7, Some 0]] = Some byte_transfers"
  "\<exists>progs. print_programs 0 [[Some 7, Some 7, Some 0], [Some 7, Some 7, Some 0]] = Some progs"
proof -
  obtain h as where h: "list_transfers byte_engine [Some 7, Some 7, Some 0] = Some (h, next_record (h ! 0))"
    "transfer_list h (next_record (h ! 0)) = concat (map kept [[(0, 0, 0)], [(1, 1, 0)], []])"
    by (rule list_transfers_chain [OF byte_engine_run])
  then show "generate_transfer_lists byte_engine [[Some 7, Some 7, Some 0], [Some 7, Some 7, Some 0]] = Some byte_transfers"
    by (simp add: byte_transfers_def kept_def)
  have u: "unat (2 :: u32) = Suc (Suc 0)" by simp
  show "generate_programs byte_gen (unat (2 :: u32)) (mysrand 3) =
     Some (Inr [[Some 7, Some 7, Some 0], [Some 7, Some 7, Some 0]])"
    unfolding u by (simp add: byte_gen_def Let_def case_prod_beta)
  have "print_instructions 0 [Some 7, Some 7, Some 0] = Some ''0x00000007, 0x00000007, 0x00000000''"
    by code_simp
  then show "\<exists>progs. print_programs 0 [[Some 7, Some 7, Some 0], [Some 7, Some 7, Some 0]] = Some progs" by simp
qed

lemma byte_pages: "allocate_pages counting_rng byte_transfers (no_pages, 0, 0) = Some (Inr (four_pages, 4, 4))"
  by (simp add: byte_transfers_def allocate_thread_def usage_pages_def pick_phys_def pick_virt_def pick_page.simps
      counting_rng_def in_vector_def no_pages_def push_pages_0 four_pages_def VIRT_PAGE_COUNT_def Let_def)

lemma byte_pages_printed:
  "and_then (allocate_pages counting_rng byte_transfers (no_pages, 0, 0)) (\<lambda>(P, r). Some (Inr (print_virt_fields P tss))) =
     Some (Inr (print_virt_fields four_pages tss))"
  by (simp add: byte_pages)

lemma byte_transfers_small:
  "list_all (list_all small_transfer) byte_transfers"
  "list_all (\<lambda>ts. distinct (byte_addresses fst ts)) byte_transfers"
  "list_all (\<lambda>ts. distinct (byte_addresses transfer_destination ts)) byte_transfers"
  by (simp_all add: byte_transfers_def small_transfer_def)

theorem virtual_test_passes_witness:
  "\<exists>line T. print_virtualised_test_information 0 byte_gen byte_engine counting_rng (\<lambda>_. (0, 0)) 2 3 = Some (Inr line) \<and>
     read_thread_test line = Some T \<and>
     (\<exists>m'. run_virtual (write_mappings [5, 0, 7, 2] (mappings T) (replicate 8 None))
        (rev (engine_copies (source_pointers T) (dest_pointers T) byte_transfers)) (run_sources (assignments T) (\<lambda>_. 9)) =
        Some m' \<and> checks_hold (comparisons T) m')"
proof -
  obtain progs where "print_programs 0 [[Some 7, Some 7, Some 0], [Some 7, Some 7, Some 0]] = Some progs"
    using byte_programs(3) by blast
  then have "\<exists>line. print_virtualised_test_information 0 byte_gen byte_engine counting_rng (\<lambda>_. (0, 0)) 2 3 = Some (Inr line)"
    unfolding print_virtualised_test_information_def
    by (rule print_programs_then_line [OF byte_programs(1,2)]) (rule byte_pages_printed)
  then obtain line where line:
    "print_virtualised_test_information 0 byte_gen byte_engine counting_rng (\<lambda>_. (0, 0)) 2 3 = Some (Inr line)"
    by blast
  obtain T where T: "read_thread_test line = Some T"
    "\<forall>entries random copies m. keeps_all entries random (mappings T) \<longrightarrow>
      mset copies = mset (engine_copies (source_pointers T) (dest_pointers T) byte_transfers) \<longrightarrow>
      (\<exists>m'. run_virtual (write_mappings random (mappings T) (replicate entries None)) copies
         (run_sources (assignments T) m) = Some m' \<and> checks_hold (comparisons T) m')"
    using virtual_test_passes [OF line byte_programs(1,2) counting_in_dram byte_transfers_small]
    unfolding Let_def by blast
  have "read_thread_test line = Some (virtual_test four_pages byte_transfers)"
    using print_programs_then_fields [OF line [unfolded print_virtualised_test_information_def] byte_programs(1,2)]
    by (simp add: byte_pages read_virt_fields)
  then have "keeps_all 8 [5, 0, 7, 2] (mappings T)"
    using T(1) by (simp add: keeps_all_def virtual_test_def four_pages_def)
  moreover have "mset (rev (engine_copies (source_pointers T) (dest_pointers T) byte_transfers)) =
      mset (engine_copies (source_pointers T) (dest_pointers T) byte_transfers)" by simp
  ultimately have "\<exists>m'. run_virtual (write_mappings [5, 0, 7, 2] (mappings T) (replicate 8 None))
      (rev (engine_copies (source_pointers T) (dest_pointers T) byte_transfers)) (run_sources (assignments T) (\<lambda>_. 9)) =
      Some m' \<and> checks_hold (comparisons T) m'"
    using T(2) by blast
  then show ?thesis using line T(1) by blast
qed

section \<open>Tests on physical addresses\<close>

lemma next_aligned_bounds:
  assumes "w < 16" and "unat start + 2 ^ w < 2 ^ 64"
  shows "unat start \<le> unat (next_aligned start w) \<and> unat (next_aligned start w) < unat start + 2 ^ w"
proof -
  have m: "push_bit w 1 - 1 = (mask w :: u64)" by (simp add: mask_eq_exp_minus_1)
  have um: "unat (mask w :: u64) = 2 ^ w - 1"
    using assms(1) unsigned_of_nat [of "mask w :: nat", where ?'b = 64 and ?'a = nat]
    by (simp add: take_bit_of_mask min_def) (simp add: mask_eq_exp_minus_1)
  let ?x = "start + mask w"
  have ux: "unat ?x = unat start + (2 ^ w - 1)" using assms(2) um by (simp add: unat_word_ariths)
  have n: "next_aligned start w = push_bit w (drop_bit w ?x)"
    unfolding next_aligned_def add_diff_eq [symmetric] m
    by (rule bit_word_eqI) (auto simp: bit_and_iff bit_not_iff bit_mask_iff bit_push_bit_iff bit_drop_bit_eq)
  have s: "next_aligned start w + take_bit w ?x = ?x" unfolding n by (rule bits_ident)
  have "next_aligned start w = ?x - take_bit w ?x" using s by (simp add: eq_diff_eq)
  moreover have "unat (take_bit w ?x) \<le> 2 ^ w - 1" "unat (take_bit w ?x) \<le> unat ?x"
  proof -
    have "unat (take_bit w ?x) = unat ?x mod 2 ^ w" by (simp only: unsigned_take_bit_eq) (simp only: take_bit_eq_mod)
    moreover have "unat ?x mod 2 ^ w < 2 ^ w" by simp
    ultimately show "unat (take_bit w ?x) \<le> 2 ^ w - 1" "unat (take_bit w ?x) \<le> unat ?x" by (linarith | simp)+
  qed
  ultimately have "unat (next_aligned start w) = unat ?x - unat (take_bit w ?x)"
    by (simp add: unat_sub word_le_nat_alt)
  moreover have "(0 :: nat) < 2 ^ w" by simp
  ultimately show ?thesis using ux \<open>unat (take_bit w ?x) \<le> 2 ^ w - 1\<close> by linarith
qed

text \<open>Transfers whose last one ends behind all the others.\<close>

definition climbing :: "(transfer \<Rightarrow> u64) \<Rightarrow> transfer list \<Rightarrow> bool" where
  "climbing at ts \<longleftrightarrow>
     (ts \<noteq> [] \<longrightarrow> list_all (\<lambda>t. unat (at t) + 2 ^ snd (snd t) \<le> unat (at (last ts)) + 2 ^ snd (snd (last ts))) ts)"

lemma lay_out_addresses:
  assumes "lay_out array at tss start = (as, finish)" and "length array = length tss" and "at = fst \<or> at = transfer_destination"
    and "list_all (\<lambda>ts. list_all small_transfer ts \<and> climbing at ts \<and> distinct (byte_addresses at ts)) tss"
    and "unat start + length tss * 0x4000 < 2 ^ 64"
  shows "length as = length tss \<and> unat start \<le> unat finish \<and> unat finish \<le> unat start + length tss * 0x4000 \<and>
    distinct (thread_addresses at as tss) \<and>
    (\<forall>a\<in>set (thread_addresses at as tss). unat start \<le> unat a \<and> unat a < unat finish)"
  using assms(1,2,4,5)
proof (induction tss arbitrary: array start as)
  case Nil
  then show ?case by (cases array) simp_all
next
  case (Cons ts tss)
  obtain x rest' where array: "array = x # rest'" "length rest' = length tss"
    using Cons.prems(2) by (cases array) auto
  show ?case
  proof (cases ts)
    case Nil
    then obtain as' where "lay_out rest' at tss start = (as', finish)" "as = x # as'"
      using Cons.prems(1) array by (auto split: prod.splits)
    then show ?thesis using Cons.IH [of rest' start as'] Cons.prems array(2) Nil by simp
  next
    case ts: (Cons t rest)
    let ?b = "next_aligned start (snd (snd t))" and ?l = "last ts"
    let ?e = "?b + at ?l + push_bit (snd (snd ?l)) 1"
    obtain as' where as': "lay_out rest' at tss ?e = (as', finish)" "as = ?b # as'"
      using Cons.prems(1) ts array by (auto simp: Let_def split: prod.splits)
    have small: "unat (at u) + 2 ^ snd (snd u) < 0x2000" if "u \<in> set ts" for u
      using that Cons.prems(3) assms(3) by (cases u) (auto simp: list_all_iff small_transfer_def)
    have pow: "snd (snd u) < 13" if "u \<in> set ts" for u
    proof -
      have "2 ^ snd (snd u) < (2 :: nat) ^ 13" using small [OF that] by simp
      then show ?thesis by (simp only: power_strict_increasing_iff)
    qed
    have b: "unat start \<le> unat ?b" "unat ?b < unat start + 0x2000"
      using next_aligned_bounds [of "snd (snd t)" start] pow [of t] small [of t] Cons.prems(4) ts by simp_all
    have l: "unat (at ?l) + 2 ^ snd (snd ?l) < 0x2000" "snd (snd ?l) < 13"
      using small [of ?l] pow [of ?l] ts by simp_all
    have "unat (2 ^ snd (snd ?l) :: u64) = 2 ^ snd (snd ?l)"
      using l(2) by (intro unat_power) simp
    then have e: "unat ?e = unat ?b + (unat (at ?l) + 2 ^ snd (snd ?l))"
      using l(1) b(2) Cons.prems(4) by (simp add: unat_word_ariths)
    have IH: "length as' = length tss \<and> unat ?e \<le> unat finish \<and> unat finish \<le> unat ?e + length tss * 0x4000 \<and>
      distinct (thread_addresses at as' tss) \<and>
      (\<forall>a\<in>set (thread_addresses at as' tss). unat ?e \<le> unat a \<and> unat a < unat finish)"
      using Cons.IH [OF as'(1) array(2)] Cons.prems(3,4) e l(1) b(2) by simp
    have first: "unat start \<le> unat (?b + a) \<and> unat (?b + a) < unat ?e" if bytes: "a \<in> set (byte_addresses at ts)" for a
    proof -
      obtain u i where u: "u \<in> set ts" "i < 2 ^ snd (snd u)" "a = at u + of_nat i"
        using bytes by (auto simp: byte_addresses_def)
      have "unat (at u) + 2 ^ snd (snd u) \<le> unat (at ?l) + 2 ^ snd (snd ?l)"
      proof -
        have "climbing at ts" using Cons.prems(3) by simp
        moreover have "ts \<noteq> []" using ts by simp
        ultimately show ?thesis using u(1) unfolding climbing_def list_all_iff by blast
      qed
      moreover have "unat a = unat (at u) + i"
        using small [OF u(1)] u(2) by (simp add: u(3) unat_word_ariths unsigned_of_nat take_bit_nat_eq_self)
      ultimately have a: "unat a < unat (at ?l) + 2 ^ snd (snd ?l)" using u(2) by simp
      then have "unat (?b + a) = unat ?b + unat a" using l(1) b(2) Cons.prems(4) by (simp add: unat_word_ariths)
      then show ?thesis using a e b(1) by simp
    qed
    have "distinct (map ((+) ?b) (byte_addresses at ts))" using Cons.prems(3) by (simp add: distinct_map)
    moreover have "set (map ((+) ?b) (byte_addresses at ts)) \<inter> set (thread_addresses at as' tss) = {}"
      using first IH by fastforce
    ultimately show ?thesis
      using IH first b(1,2) e l(1) as'(2) by fastforce
  qed
qed


lemma lay_out_leftover:
  "lay_out array at tss start = (as, finish) \<Longrightarrow> length array = length tss \<Longrightarrow> i < length tss \<Longrightarrow> tss ! i = [] \<Longrightarrow>
   as ! i = array ! i"
proof (induction array at tss start arbitrary: as i rule: lay_out.induct)
  case (1 a rest at ts tss start)
  then show ?case by (cases i; cases ts) (auto simp: Let_def split: prod.splits)
qed simp_all

definition physical_test :: "u64 list \<Rightarrow> u64 list \<Rightarrow> transfer list list \<Rightarrow> thread_test" where
  "physical_test sources dests tss =
     \<lparr>mappings = [], assignments = numbered_from 0 (thread_addresses fst sources tss),
      comparisons = numbered_from 0 (thread_addresses transfer_destination dests tss),
      source_pointers = sources, dest_pointers = dests\<rparr>"

lemma read_phys_fields:
  assumes "lay_out new_sources fst tss DRAM_START = (sources, middle)"
    and "lay_out new_dests transfer_destination tss middle = (dests, finish)"
  shows "read_thread_fields (split_on CHR ''$'' (print_phys_fields new_sources new_dests tss)) =
    Some (physical_test sources dests tss)"
  using read_fields_printed [where vs = "[]" and ps = "[]"]
  by (simp add: print_phys_fields_def assms print_threads_numbered physical_test_def)

text \<open>
  C16. A physical test passes as well, in whatever order the engine takes the threads, when all the
  programs stay within 8K and none of them reads or writes a byte twice or makes a transfer that ends
  behind the end of its last one. Every line that is printed reads back as a test without mappings that
  compares, one by one, the bytes its pointers lead the threads to, and every comparison holds when the
  bytes of all the threads are copied, in any order, whatever memory held before. The pointers of a
  thread that transfers nothing are what the arrays of the pointers held before they were filled.
\<close>

theorem physical_test_passes:
  assumes line: "print_phys_test_information stop gen exec new_sources new_dests thread_count seed = Some (Inr line)"
    and programs: "generate_programs gen (unat thread_count) (mysrand seed) = Some (Inr programs)"
      "generate_transfer_lists exec programs = Some tss"
    and arrays: "length new_sources = unat thread_count" "length new_dests = unat thread_count"
    and tss: "list_all (\<lambda>ts. list_all small_transfer ts \<and>
      climbing fst ts \<and> distinct (byte_addresses fst ts) \<and>
      climbing transfer_destination ts \<and> distinct (byte_addresses transfer_destination ts)) tss"
  shows "\<exists>T. read_thread_test line = Some T \<and> mappings T = [] \<and>
    map fst (comparisons T) = thread_addresses transfer_destination (dest_pointers T) tss \<and>
    (\<forall>copies m. mset copies = mset (engine_copies (source_pointers T) (dest_pointers T) tss) \<longrightarrow>
      checks_hold (comparisons T) (run_copies copies (run_sources (assignments T) m))) \<and>
    length (source_pointers T) = length tss \<and> length (dest_pointers T) = length tss \<and>
    (\<forall>i<length tss. tss ! i = [] \<longrightarrow>
      source_pointers T ! i = new_sources ! i \<and> dest_pointers T ! i = new_dests ! i)"
proof -
  obtain sources middle where s: "lay_out new_sources fst tss DRAM_START = (sources, middle)" by fastforce
  obtain dests finish where d: "lay_out new_dests transfer_destination tss middle = (dests, finish)" by fastforce
  let ?S = "thread_addresses fst sources tss" and ?D = "thread_addresses transfer_destination dests tss"
  have n: "length tss = unat thread_count"
    using generate_programs_length [OF programs(1)] generate_transfer_lists_length [OF programs(2)] by simp
  have start: "unat DRAM_START = 0x9000000010000000" by (simp add: DRAM_START_def)
  have "unat thread_count < 2 ^ 32" using unsigned_less [of thread_count, where ?'a = nat] by simp
  then have room: "unat DRAM_START + length tss * 0x4000 + length tss * 0x4000 < 2 ^ 64"
    using start n by simp
  have l: "list_all (\<lambda>ts. list_all small_transfer ts \<and> climbing fst ts \<and> distinct (byte_addresses fst ts)) tss"
    "list_all (\<lambda>ts. list_all small_transfer ts \<and> climbing transfer_destination ts \<and>
      distinct (byte_addresses transfer_destination ts)) tss"
    using tss by (simp_all add: list_all_iff)
  have S: "length sources = length tss \<and> unat middle \<le> unat DRAM_START + length tss * 0x4000 \<and> distinct ?S \<and>
    (\<forall>a\<in>set ?S. unat a < unat middle)"
    using lay_out_addresses [OF s _ _ l(1)] arrays n room by simp
  have D: "length dests = length tss \<and> distinct ?D \<and> (\<forall>a\<in>set ?D. unat middle \<le> unat a)"
    using lay_out_addresses [OF d _ _ l(2)] arrays n room S by simp
  have apart: "set ?S \<inter> set ?D = {}" using S D by fastforce
  have len: "length ?S = length ?D" using S D by (intro thread_addresses_length) simp
  have passes: "checks_hold (comparisons (physical_test sources dests tss))
      (run_copies copies (run_sources (assignments (physical_test sources dests tss)) m))"
    if "mset copies = mset (engine_copies sources dests tss)" for copies m
    using that S D apart len unfolding engine_copies_def physical_test_def
    by (simp only: thread_test.simps) (intro numbered_checks; simp)
  have line': "read_thread_test line = Some (physical_test sources dests tss)"
    using print_programs_then_fields [OF line [unfolded print_phys_test_information_def] programs]
      read_phys_fields [OF s d] by auto
  show ?thesis
  proof (intro exI [of _ "physical_test sources dests tss"] conjI)
    show "\<forall>i<length tss. tss ! i = [] \<longrightarrow> source_pointers (physical_test sources dests tss) ! i = new_sources ! i \<and>
        dest_pointers (physical_test sources dests tss) ! i = new_dests ! i"
      using lay_out_leftover [OF s] lay_out_leftover [OF d] arrays n by (simp add: physical_test_def)
    show "\<forall>copies m. mset copies = mset (engine_copies (source_pointers (physical_test sources dests tss))
        (dest_pointers (physical_test sources dests tss)) tss) \<longrightarrow>
      checks_hold (comparisons (physical_test sources dests tss))
        (run_copies copies (run_sources (assignments (physical_test sources dests tss)) m))"
      using passes by (simp add: physical_test_def)
  qed (use line' S D in \<open>simp_all add: physical_test_def\<close>)
qed

theorem physical_test_passes_witness:
  "\<exists>line T. print_phys_test_information 0 byte_gen byte_engine [7, 7] [8, 8] 2 3 = Some (Inr line) \<and>
     read_thread_test line = Some T \<and>
     checks_hold (comparisons T)
       (run_copies (rev (engine_copies (source_pointers T) (dest_pointers T) byte_transfers))
         (run_sources (assignments T) (\<lambda>_. 9)))"
proof -
  obtain progs where "print_programs 0 [[Some 7, Some 7, Some 0], [Some 7, Some 7, Some 0]] = Some progs"
    using byte_programs(3) by blast
  then have "\<exists>line. print_phys_test_information 0 byte_gen byte_engine [7, 7] [8, 8] 2 3 = Some (Inr line)"
    unfolding print_phys_test_information_def
    by (rule print_programs_then_line [OF byte_programs(1,2)]) (rule refl)
  then obtain line where line: "print_phys_test_information 0 byte_gen byte_engine [7, 7] [8, 8] 2 3 = Some (Inr line)"
    by blast
  have t: "list_all (\<lambda>ts. list_all small_transfer ts \<and>
      climbing fst ts \<and> distinct (byte_addresses fst ts) \<and>
      climbing transfer_destination ts \<and> distinct (byte_addresses transfer_destination ts)) byte_transfers"
    by (simp add: byte_transfers_def small_transfer_def climbing_def)
  have "length [7, 7 :: u64] = unat (2 :: u32)" "length [8, 8 :: u64] = unat (2 :: u32)" by simp_all
  from physical_test_passes [OF line byte_programs(1,2) this t] show ?thesis using line by (metis mset_rev)
qed

end
