(* ===== verification/TestMachine.thy ===== *)
theory TestMachine
  imports CrtInit
begin

text \<open>
  What the small tests of \<open>cheri-c-tests\<close> run on: a memory with tags and the counter \<open>faults\<close> of
  \<open>test_runtime.c\<close>. A load or store of data or of a capability that faults calls the handler of
  the test and goes on behind the instruction, so a store does nothing and a load leaves its
  register as it was; the old value of the register is an argument. An address error is no
  protection fault: it ends the program.
\<close>

section \<open>Programs\<close>

record machine =
  mem :: memory
  faults :: int

datatype stop = Killed cheri_fault | Assertion

type_synonym 'a prog = "machine \<Rightarrow> stop + 'a \<times> machine"

definition ret :: "'a \<Rightarrow> 'a prog" where "ret x s = Inr (x, s)"

definition bind :: "'a prog \<Rightarrow> ('a \<Rightarrow> 'b prog) \<Rightarrow> 'b prog" where
  "bind p f s = (case p s of Inl e \<Rightarrow> Inl e | Inr (x, s') \<Rightarrow> f x s')"

text \<open>\<open>assert\<close> of an expression that reads no memory, and of one on the state.\<close>

definition assert_that :: "bool \<Rightarrow> unit prog" where
  "assert_that b s = (if b then Inr ((), s) else Inl Assertion)"

definition assert_state :: "(machine \<Rightarrow> bool) \<Rightarrow> unit prog" where
  "assert_state P s = assert_that (P s) s"

fun in_order :: "unit prog list \<Rightarrow> unit prog" where
  "in_order [] = ret ()"
| "in_order (p # ps) = bind p (\<lambda>_. in_order ps)"

section \<open>Loads and stores\<close>

text \<open>A word of \<open>n\<close> bytes, most significant byte first, at an aligned address.\<close>

definition get_data :: "cap \<Rightarrow> memory \<Rightarrow> cheri_fault + 'a::len word" where
  "get_data c m =
     (let n = LENGTH('a) div 8
      in case access_check c PERM_LOAD Load_fault n of
           Some e \<Rightarrow> Inl e
         | None \<Rightarrow> if unat (cap_addr c) mod n \<noteq> 0 then Inl Address_error
                  else Inr (word_of_nat (be_nat (read_bytes m (cap_addr c) n))))"

definition put_data :: "cap \<Rightarrow> 'a::len word \<Rightarrow> memory \<Rightarrow> cheri_fault + memory" where
  "put_data c v m =
     (let n = LENGTH('a) div 8
      in case access_check c PERM_STORE Store_fault n of
           Some e \<Rightarrow> Inl e
         | None \<Rightarrow> if unat (cap_addr c) mod n \<noteq> 0 then Inl Address_error
                  else Inr (write_bytes (cap_addr c) (be_bytes n v) m))"

type_synonym handler = "cheri_fault \<Rightarrow> unit prog"

text \<open>The handler the runtime starts with.\<close>

definition count_faults :: handler where
  "count_faults e s = Inr ((), s\<lparr>faults := faults s + 1\<rparr>)"

definition trap :: "handler \<Rightarrow> cheri_fault \<Rightarrow> 'a \<Rightarrow> 'a prog" where
  "trap H e old = (if e = Address_error then (\<lambda>s. Inl (Killed e)) else bind (H e) (\<lambda>_. ret old))"

definition reading :: "handler \<Rightarrow> (memory \<Rightarrow> cheri_fault + 'a) \<Rightarrow> 'a \<Rightarrow> 'a prog" where
  "reading H get old s = (case get (mem s) of Inl e \<Rightarrow> trap H e old s | Inr v \<Rightarrow> Inr (v, s))"

definition writing :: "handler \<Rightarrow> (memory \<Rightarrow> cheri_fault + memory) \<Rightarrow> unit prog" where
  "writing H put s = (case put (mem s) of Inl e \<Rightarrow> trap H e () s | Inr m \<Rightarrow> Inr ((), s\<lparr>mem := m\<rparr>))"

text \<open>Pointer arithmetic, and an operation on capabilities that may fault.\<close>

definition plus_ptr :: "cap \<Rightarrow> u64 \<Rightarrow> cap" where
  "plus_ptr c k = c\<lparr>cap_offset := cap_offset c + k\<rparr>"

definition deriving :: "handler \<Rightarrow> cheri_fault + cap \<Rightarrow> cap \<Rightarrow> cap prog" where
  "deriving H r old = (case r of Inl e \<Rightarrow> trap H e old | Inr c \<Rightarrow> ret c)"

section \<open>Running programs\<close>

lemma run_simps [simp]:
  "ret x s = Inr (x, s)"
  "bind (ret x) f s = f x s"
  "p s = Inl x0 \<Longrightarrow> bind p f s = Inl x0"
  "p s = Inr (x, s') \<Longrightarrow> bind p f s = f x s'"
  "assert_that True s = Inr ((), s)"
  "assert_state P s = assert_that (P s) s"
  "count_faults e s = Inr ((), s\<lparr>faults := faults s + 1\<rparr>)"
  "deriving H (Inr c) old = ret c"
  by (simp_all add: ret_def bind_def assert_that_def assert_state_def count_faults_def deriving_def)

lemma trap_count: "e \<noteq> Address_error \<Longrightarrow> trap count_faults e old s = Inr (old, s\<lparr>faults := faults s + 1\<rparr>)"
  by (simp add: trap_def)

lemma in_order_append: "in_order (ps @ qs) s = bind (in_order ps) (\<lambda>_. in_order qs) s"
  by (induction ps arbitrary: s) (auto simp: bind_def ret_def split: sum.splits)

lemma plus_ptr_simps [simp]:
  "cap_tag (plus_ptr c k) = cap_tag c" "cap_sealed (plus_ptr c k) = cap_sealed c"
  "cap_perms (plus_ptr c k) = cap_perms c" "cap_base (plus_ptr c k) = cap_base c"
  "cap_length (plus_ptr c k) = cap_length c" "has_perm (plus_ptr c k) p = has_perm c p"
  "usable (plus_ptr c k) = usable c" "cap_addr (plus_ptr c k) = cap_addr c + k"
  "cap_offset (plus_ptr c k) = cap_offset c + k" "plus_ptr c 0 = c"
  by (simp_all add: plus_ptr_def has_perm_def usable_def cap_addr_def)

section \<open>What is read after a store\<close>

text \<open>An access of \<open>n\<close> bytes that asks for the permissions \<open>p\<close> and does not fault.\<close>

definition can :: "u32 \<Rightarrow> nat \<Rightarrow> cap \<Rightarrow> bool" where
  "can p n c \<longleftrightarrow> usable c \<and> has_perm c p \<and> in_bounds c n \<and> unat (cap_addr c) mod n = 0"

lemma access_check_None: "access_check c p e n = None \<longleftrightarrow> usable c \<and> has_perm c p \<and> in_bounds c n"
  by (simp add: access_check_def usable_def)

lemma get_data_can:
  "can PERM_LOAD (LENGTH('a::len) div 8) c \<Longrightarrow>
   get_data c m = Inr (word_of_nat (be_nat (read_bytes m (cap_addr c) (LENGTH('a) div 8))) :: 'a word)"
  by (simp add: get_data_def can_def access_check_def usable_def Let_def)

lemma put_data_can:
  "can PERM_STORE (LENGTH('a::len) div 8) c \<Longrightarrow>
   put_data c (v :: 'a word) m = Inr (write_bytes (cap_addr c) (be_bytes (LENGTH('a) div 8) v) m)"
  by (simp add: put_data_def can_def access_check_def usable_def Let_def)

lemma can_no_wrap: "can p n c \<Longrightarrow> cap_wf c \<Longrightarrow> unat (cap_addr c) + n \<le> 2 ^ 64"
  by (simp add: can_def in_bounds_def cap_wf_def)

lemma read_bytes_same:
  assumes "unat a + length vs \<le> 2 ^ 64"
  shows "read_bytes (write_bytes a vs m) a (length vs) = vs"
proof (rule nth_equalityI)
  fix i assume i: "i < length (read_bytes (write_bytes a vs m) a (length vs))"
  then have "unat (a + of_nat i) = unat a + i" using assms by (intro unat_add_of_nat) simp
  then show "read_bytes (write_bytes a vs m) a (length vs) ! i = vs ! i"
    using i by (simp add: read_bytes_nth bytes_write_bytes [OF assms] in_region_def)
qed simp

lemma read_bytes_apart:
  assumes "unat a + length vs \<le> 2 ^ 64" "unat b + n \<le> 2 ^ 64"
    and "unat b + n \<le> unat a \<or> unat a + length vs \<le> unat b"
  shows "read_bytes (write_bytes a vs m) b n = read_bytes m b n"
proof (rule nth_equalityI)
  fix i assume i: "i < length (read_bytes (write_bytes a vs m) b n)"
  then have "unat (b + of_nat i) = unat b + i" using assms by (intro unat_add_of_nat) simp
  then show "read_bytes (write_bytes a vs m) b n ! i = read_bytes m b n ! i"
    using i assms(3) by (auto simp: read_bytes_nth bytes_write_bytes [OF assms(1)] in_region_def)
qed simp

text \<open>The word at an address, and what a store of a word leaves.\<close>

definition word_at :: "memory \<Rightarrow> u64 \<Rightarrow> 'a::len word" where
  "word_at m a = word_of_nat (be_nat (read_bytes m a (LENGTH('a) div 8)))"

definition set_word :: "u64 \<Rightarrow> 'a::len word \<Rightarrow> memory \<Rightarrow> memory" where
  "set_word a v m = write_bytes a (be_bytes (LENGTH('a) div 8) v) m"

lemma reading_can:
  "can PERM_LOAD (LENGTH('a::len) div 8) c \<Longrightarrow> reading H (get_data c) (old :: 'a word) s = Inr (word_at (mem s) (cap_addr c), s)"
  by (simp add: reading_def get_data_can word_at_def)

lemma writing_can:
  "can PERM_STORE (LENGTH('a::len) div 8) c \<Longrightarrow>
   writing H (put_data c (v :: 'a word)) s = Inr ((), s\<lparr>mem := set_word (cap_addr c) v (mem s)\<rparr>)"
  by (simp add: writing_def put_data_can set_word_def)

lemma word_at_same:
  assumes "8 dvd LENGTH('a::len)" and "unat a + LENGTH('a) div 8 \<le> 2 ^ 64"
  shows "word_at (set_word a (v :: 'a word) m) a = v"
  using assms read_bytes_same [of a "be_bytes (LENGTH('a) div 8) v" m]
  by (simp add: word_at_def set_word_def be_bytes_inject)

lemma word_at_apart:
  assumes "unat a + LENGTH('a::len) div 8 \<le> 2 ^ 64" "unat b + LENGTH('b::len) div 8 \<le> 2 ^ 64"
    and "unat b + LENGTH('b) div 8 \<le> unat a \<or> unat a + LENGTH('a) div 8 \<le> unat b"
  shows "word_at (set_word a (v :: 'a word) m) b = (word_at m b :: 'b word)"
  using assms by (simp add: word_at_def set_word_def read_bytes_apart)

text \<open>A capability to an object of its own, at the start of it.\<close>

definition spans :: "cap \<Rightarrow> nat \<Rightarrow> bool" where
  "spans c n \<longleftrightarrow> usable c \<and> cap_offset c = 0 \<and> unat (cap_length c) = n \<and> cap_wf c"

lemma spans_addr: "spans c n \<Longrightarrow> cap_addr c = cap_base c"
  by (simp add: spans_def cap_addr_def)

lemma spans_in_bounds:
  assumes "spans c n" and "unat (cap_base c) + unat k < 2 ^ 64"
  shows "in_bounds (plus_ptr c k) w \<longleftrightarrow> unat k + w \<le> n"
  using assms by (auto simp: in_bounds_def spans_def cap_addr_def unat_word_ariths)

lemma spans_element:
  assumes "spans c n" and "unat (cap_base c) mod w = 0" and "w * i + w \<le> n" and "has_perm c p"
  shows "can p w (plus_ptr c (of_nat (w * i)))" and "unat (cap_addr (plus_ptr c (of_nat (w * i)))) = unat (cap_base c) + w * i"
proof -
  have wf: "unat (cap_base c) + n < 2 ^ 64" using assms(1) by (simp add: spans_def cap_wf_def)
  have k: "unat (of_nat (w * i) :: u64) = w * i"
    using wf assms(3) by (simp add: unsigned_of_nat take_bit_nat_eq_self del: of_nat_mult)
  then show a: "unat (cap_addr (plus_ptr c (of_nat (w * i)))) = unat (cap_base c) + w * i"
    using wf assms(1,3) by (simp add: spans_addr unat_word_ariths del: of_nat_mult)
  show "can p w (plus_ptr c (of_nat (w * i)))"
    using assms a spans_in_bounds [OF assms(1), of "of_nat (w * i)" w] k wf
    by (simp add: can_def spans_def mod_add_eq [symmetric] del: of_nat_mult)
qed


text \<open>A load or store that one of the checks stops.\<close>

lemma reading_fault:
  "access_check c PERM_LOAD Load_fault (LENGTH('a::len) div 8) = Some e \<Longrightarrow>
   reading H (get_data c) (old :: 'a word) s = trap H e old s"
  by (simp add: reading_def get_data_def Let_def)

lemma writing_fault:
  "access_check c PERM_STORE Store_fault (LENGTH('a::len) div 8) = Some e \<Longrightarrow>
   writing H (put_data c (v :: 'a word)) s = trap H e () s"
  by (simp add: writing_def put_data_def Let_def)

lemma access_check_outside: "usable c \<Longrightarrow> has_perm c p \<Longrightarrow> \<not> in_bounds c n \<Longrightarrow> access_check c p e n = Some Length_fault"
  by (simp add: access_check_def usable_def)

lemma access_check_forbidden: "usable c \<Longrightarrow> \<not> has_perm c p \<Longrightarrow> access_check c p e n = Some e"
  by (simp add: access_check_def usable_def)

lemma spans_start: "spans c n \<Longrightarrow> k \<le> n \<Longrightarrow> in_bounds c k"
  by (simp add: in_bounds_def spans_def cap_addr_def)

lemma can_start: "spans c n \<Longrightarrow> k \<le> n \<Longrightarrow> has_perm c p \<Longrightarrow> unat (cap_base c) mod k = 0 \<Longrightarrow> can p k c"
  by (simp add: can_def spans_start spans_addr) (simp add: spans_def)

lemma plus_ptr_plus_ptr [simp]: "plus_ptr (plus_ptr c i) j = plus_ptr c (i + j)"
  by (simp add: plus_ptr_def add.assoc)

lemma spans_outside:
  assumes "spans c n" and "n \<le> unat k" and "0 < w"
  shows "\<not> in_bounds (plus_ptr c k) w"
proof
  assume b: "in_bounds (plus_ptr c k) w"
  have k: "unat k < 2 ^ 64" "unat (cap_base c) < 2 ^ 64"
    using unsigned_less [of k, where ?'a = nat] unsigned_less [of "cap_base c", where ?'a = nat] by simp_all
  have a: "unat (cap_base c + k) = (unat (cap_base c) + unat k) mod 2 ^ 64" by (simp add: unat_word_ariths)
  show False
  proof (cases "unat (cap_base c) + unat k < 2 ^ 64")
    case True
    then show False using a b assms by (simp add: in_bounds_def spans_addr spans_def)
  next
    case False
    then have "(unat (cap_base c) + unat k) mod 2 ^ 64 = unat (cap_base c) + unat k - 2 ^ 64"
      using k by (simp add: mod_if)
    then show False using a b False k assms(1) by (simp add: in_bounds_def spans_addr) linarith
  qed
qed

lemma word_eq_of_nat: "unat w = n \<Longrightarrow> w = (of_nat n :: u64)"
  by auto

lemma get_byte: "can PERM_LOAD 1 p \<Longrightarrow> get_data p m = (Inr (bytes m (cap_addr p)) :: cheri_fault + u8)"
  by (simp add: get_data_can read_bytes_def be_nat_def)

lemma in_order_unchanged:
  assumes "\<And>p. p \<in> set ps \<Longrightarrow> p s = Inr ((), s)"
  shows "in_order ps s = Inr ((), s)"
  using assms
proof (induction ps)
  case (Cons p ps)
  then have "p s = Inr ((), s)" "in_order ps s = Inr ((), s)" by simp_all
  then show ?case by simp
qed simp

declare spans_def [cap_simps] can_def [cap_simps]

end
