(* ===== verification/FaultTests.thy ===== *)
theory FaultTests
  imports TestMachine
begin

text \<open>
  The tests of \<open>cheri-c-tests\<close> that fault on purpose: \<open>clang_purecap_array.c\<close>,
  \<open>clang_purecap_input.c\<close>, \<open>clang_purecap_output.c\<close> and \<open>clang_hybrid_cursor_trivial.c\<close>, and, on the
  same machine, \<open>clang_hybrid_cursor.c\<close>. The objects are arguments (a capability for each variable
  in memory), and so is what a register holds before a load that faults.
\<close>

section \<open>An array on the stack\<close>

definition array_handler :: handler where
  "array_handler cause =
     bind (assert_that (cheri_fault_code cause = Some 1)) (\<lambda>_ s. Inr ((), s\<lparr>faults := faults s + 1\<rparr>))"

text \<open>\<open>x[i] = i\<close> for an array of \<open>int\<close>; \<open>count\<close> is the number of bytes, 8 in the test.\<close>

definition clang_purecap_array :: "nat \<Rightarrow> cap \<Rightarrow> unit prog" where
  "clang_purecap_array count buffer =
     bind (assert_that (unat (cap_length buffer) = count)) (\<lambda>_.
     bind (in_order (map (\<lambda>i. writing array_handler
             (put_data (plus_ptr buffer (of_nat (4 * i))) (of_nat i :: u32))) [0..<count])) (\<lambda>_.
     assert_state (\<lambda>s. faults s = int (count - count div 4))))"

text \<open>The stores that fault are those of the elements that do not lie within the array as a whole.\<close>

lemma array_store:
  assumes b: "spans b n" "unat (cap_base b) mod 4 = 0" "has_perm b PERM_STORE" "unat (cap_base b) + 4 * n < 2 ^ 64"
    and i: "i < n"
  shows "\<exists>m. writing array_handler (put_data (plus_ptr b (of_nat (4 * i))) (of_nat i :: u32)) s =
    Inr ((), s\<lparr>mem := m, faults := faults s + (if i < n div 4 then 0 else 1)\<rparr>)"
proof (cases "i < n div 4")
  case True
  then have "4 * i + 4 \<le> n" by linarith
  then have "can PERM_STORE 4 (plus_ptr b (of_nat (4 * i)))" by (rule spans_element [OF b(1,2) _ b(3)])
  then show ?thesis using True writing_can [of "plus_ptr b (of_nat (4 * i))", where ?'a = 32] by auto
next
  case False
  have k: "unat (of_nat (4 * i) :: u64) = 4 * i"
    using b(4) i by (simp add: unsigned_of_nat take_bit_nat_eq_self del: of_nat_mult)
  have "unat (cap_base b) + unat (of_nat (4 * i) :: u64) < 2 ^ 64" using b(4) i unfolding k by linarith
  from spans_in_bounds [OF b(1) this, of 4]
  have "in_bounds (plus_ptr b (of_nat (4 * i))) 4 \<longleftrightarrow> 4 * i + 4 \<le> n" by (simp only: k)
  moreover have "\<not> 4 * i + 4 \<le> n" using False by linarith
  ultimately have "\<not> in_bounds (plus_ptr b (of_nat (4 * i))) 4" by blast
  then have "put_data (plus_ptr b (of_nat (4 * i))) (of_nat i :: u32) (mem s) = Inl Length_fault"
    using b(1,3) by (simp add: put_data_def access_check_def Let_def spans_def usable_def del: of_nat_mult)
  then have "writing array_handler (put_data (plus_ptr b (of_nat (4 * i))) (of_nat i :: u32)) s =
      Inr ((), s\<lparr>faults := faults s + 1\<rparr>)"
    by (simp add: writing_def trap_def array_handler_def del: of_nat_mult)
  then show ?thesis using False by (intro exI [of _ "mem s"]) (cases s, simp del: of_nat_mult)
qed

lemma array_stores:
  assumes "spans b n" "unat (cap_base b) mod 4 = 0" "has_perm b PERM_STORE" "unat (cap_base b) + 4 * n < 2 ^ 64"
    and "k \<le> n"
  shows "\<exists>m. in_order (map (\<lambda>i. writing array_handler (put_data (plus_ptr b (of_nat (4 * i))) (of_nat i :: u32))) [0..<k]) s =
    Inr ((), s\<lparr>mem := m, faults := faults s + int (k - n div 4)\<rparr>)"
  using assms(5)
proof (induction k)
  case 0
  show ?case by (rule exI [of _ "mem s"]) simp
next
  case (Suc k)
  let ?w = "\<lambda>i. writing array_handler (put_data (plus_ptr b (of_nat (4 * i))) (of_nat i :: u32))"
  obtain m where m: "in_order (map ?w [0..<k]) s = Inr ((), s\<lparr>mem := m, faults := faults s + int (k - n div 4)\<rparr>)"
    using Suc by auto
  let ?s = "s\<lparr>mem := m, faults := faults s + int (k - n div 4)\<rparr>"
  obtain m' where m': "?w k ?s = Inr ((), ?s\<lparr>mem := m', faults := faults ?s + (if k < n div 4 then 0 else 1)\<rparr>)"
    using array_store [OF assms(1-4), of k ?s] Suc.prems by auto
  have "in_order (map ?w [0..<Suc k]) s = bind (?w k) (\<lambda>_. ret ()) ?s"
    using m by (simp add: in_order_append)
  also have "\<dots> = Inr ((), s\<lparr>mem := m', faults := faults s + int (Suc k - n div 4)\<rparr>)"
    using m' by (simp add: Suc_diff_le)
  finally show ?case by blast
qed

text \<open>
  The array test passes for a buffer of any size: of the \<open>count\<close> stores exactly those beyond
  the end of the buffer fault, each with a length fault.
\<close>

theorem purecap_array_passes:
  assumes "spans buffer count" and "unat (cap_base buffer) mod 4 = 0" and "has_perm buffer PERM_STORE"
    and "unat (cap_base buffer) + 4 * count < 2 ^ 64" and "faults s = 0"
  shows "\<exists>m. clang_purecap_array count buffer s = Inr ((), s\<lparr>mem := m, faults := int (count - count div 4)\<rparr>)"
proof -
  obtain m where "in_order (map (\<lambda>i. writing array_handler (put_data (plus_ptr buffer (of_nat (4 * i))) (of_nat i :: u32))) [0..<count]) s =
      Inr ((), s\<lparr>mem := m, faults := faults s + int (count - count div 4)\<rparr>)"
    using array_stores [OF assms(1-4) order_refl] by blast
  then show ?thesis
    using assms(1,5) by (auto simp: clang_purecap_array_def spans_def)
qed


definition stack_buffer :: cap where
  "stack_buffer = \<lparr>cap_tag = True, cap_sealed = False, cap_perms = 0xff, cap_otype = 0, cap_base = 4096,
     cap_length = 8, cap_offset = 0\<rparr>"

definition empty_machine :: machine where
  "empty_machine = \<lparr>mem = \<lparr>bytes = (\<lambda>_. 0), tags = (\<lambda>_. False)\<rparr>, faults = 0\<rparr>"

lemma stack_buffer_simps:
  "spans stack_buffer 8" "cap_base stack_buffer = 4096" "has_perm stack_buffer PERM_STORE"
  "has_perm stack_buffer PERM_LOAD" "cap_perms stack_buffer = 0xff" "faults empty_machine = 0"
  by (simp_all add: cap_simps stack_buffer_def empty_machine_def)

theorem purecap_array_passes_witness:
  "\<exists>m. clang_purecap_array 8 stack_buffer empty_machine = Inr ((), empty_machine\<lparr>mem := m, faults := 6\<rparr>)"
  using purecap_array_passes [of stack_buffer 8 empty_machine] by (simp add: stack_buffer_simps)

section \<open>Pointers that may only be read or only be written\<close>

text \<open>
  What the qualifiers \<open>__input\<close> and \<open>__output\<close> do to a pointer argument is the compiler's: it is a
  parameter. The qualified pointer keeps all but the permissions it may not have.
\<close>

definition lacks_perm :: "cap \<Rightarrow> u32 \<Rightarrow> bool" where
  "lacks_perm c p \<longleftrightarrow> cap_perms c AND p = 0"

definition input_foo :: "u32 \<Rightarrow> cap \<Rightarrow> u32 prog" where
  "input_foo old x =
     bind (reading count_faults (get_data x) old) (\<lambda>y.
     bind (assert_that (lacks_perm x PERM_STORE)) (\<lambda>_.
     bind (assert_that (lacks_perm x PERM_STORE_CAPABILITY)) (\<lambda>_.
     bind (assert_that (has_perm x PERM_LOAD)) (\<lambda>_.
     bind (assert_that (has_perm x PERM_LOAD_CAPABILITY)) (\<lambda>_.
     bind (writing count_faults (put_data x (42 :: u32))) (\<lambda>_.
     ret y))))))"

definition clang_purecap_input :: "(cap \<Rightarrow> cap) \<Rightarrow> u32 \<Rightarrow> cap \<Rightarrow> unit prog" where
  "clang_purecap_input input_pointer old x =
     bind (writing count_faults (put_data x (47 :: u32))) (\<lambda>_.
     bind (input_foo old (input_pointer x)) (\<lambda>y.
     bind (reading count_faults (get_data x) old) (\<lambda>v.
     bind (assert_that (v = 47)) (\<lambda>_.
     bind (assert_that (y = 47)) (\<lambda>_.
     assert_state (\<lambda>s. faults s = 1))))))"

definition output_foo :: "u32 \<Rightarrow> cap \<Rightarrow> u32 prog" where
  "output_foo old x =
     bind (reading count_faults (get_data x) old) (\<lambda>y.
     bind (assert_that (lacks_perm x PERM_LOAD)) (\<lambda>_.
     bind (assert_that (lacks_perm x PERM_LOAD_CAPABILITY)) (\<lambda>_.
     bind (assert_that (has_perm x PERM_STORE)) (\<lambda>_.
     bind (assert_that (has_perm x PERM_STORE_CAPABILITY)) (\<lambda>_.
     bind (writing count_faults (put_data x (42 :: u32))) (\<lambda>_.
     ret y))))))"

definition clang_purecap_output :: "(cap \<Rightarrow> cap) \<Rightarrow> u32 \<Rightarrow> cap \<Rightarrow> unit prog" where
  "clang_purecap_output output_pointer old x =
     bind (writing count_faults (put_data x (47 :: u32))) (\<lambda>_.
     bind (output_foo old (output_pointer x)) (\<lambda>_.
     bind (reading count_faults (get_data x) old) (\<lambda>v.
     bind (assert_that (v = 42)) (\<lambda>_.
     assert_state (\<lambda>s. faults s = 1)))))"

text \<open>\<open>q\<close> is \<open>c\<close> without the permissions in \<open>p\<close>, the others of data and capability access kept.\<close>

definition without :: "u32 \<Rightarrow> cap \<Rightarrow> cap" where
  "without p c = c\<lparr>cap_perms := cap_perms c AND NOT p\<rparr>"

lemma spans_without [simp]: "spans (without p c) n = spans c n" "cap_base (without p c) = cap_base c"
    "cap_addr (without p c) = cap_addr c" "usable (without p c) = usable c"
  by (simp_all add: without_def spans_def usable_def cap_wf_def cap_addr_def)

lemma perms_without:
  assumes "cap_perms c AND 0x3c = 0x3c"
  shows "has_perm c PERM_LOAD" "has_perm c PERM_STORE"
    "lacks_perm (without (PERM_STORE OR PERM_STORE_CAPABILITY) c) PERM_STORE"
    "lacks_perm (without (PERM_STORE OR PERM_STORE_CAPABILITY) c) PERM_STORE_CAPABILITY"
    "has_perm (without (PERM_STORE OR PERM_STORE_CAPABILITY) c) PERM_LOAD"
    "has_perm (without (PERM_STORE OR PERM_STORE_CAPABILITY) c) PERM_LOAD_CAPABILITY"
    "\<not> has_perm (without (PERM_STORE OR PERM_STORE_CAPABILITY) c) PERM_STORE"
    "lacks_perm (without (PERM_LOAD OR PERM_LOAD_CAPABILITY) c) PERM_LOAD"
    "lacks_perm (without (PERM_LOAD OR PERM_LOAD_CAPABILITY) c) PERM_LOAD_CAPABILITY"
    "has_perm (without (PERM_LOAD OR PERM_LOAD_CAPABILITY) c) PERM_STORE"
    "has_perm (without (PERM_LOAD OR PERM_LOAD_CAPABILITY) c) PERM_STORE_CAPABILITY"
    "\<not> has_perm (without (PERM_LOAD OR PERM_LOAD_CAPABILITY) c) PERM_LOAD"
proof -
  have b: "bit (cap_perms c) 2" "bit (cap_perms c) 3" "bit (cap_perms c) 4" "bit (cap_perms c) 5"
    using arg_cong [OF assms, of "\<lambda>w. bit w 2"] arg_cong [OF assms, of "\<lambda>w. bit w 3"]
      arg_cong [OF assms, of "\<lambda>w. bit w 4"] arg_cong [OF assms, of "\<lambda>w. bit w 5"]
    by (simp_all add: bit_simps)
  have mask: "w AND 2 ^ n = (if bit w n then 2 ^ n else 0)" for w :: u32 and n
    by (rule bit_word_eqI) (auto simp: bit_simps)
  show "has_perm c PERM_LOAD" "has_perm c PERM_STORE"
    "lacks_perm (without (PERM_STORE OR PERM_STORE_CAPABILITY) c) PERM_STORE"
    "lacks_perm (without (PERM_STORE OR PERM_STORE_CAPABILITY) c) PERM_STORE_CAPABILITY"
    "has_perm (without (PERM_STORE OR PERM_STORE_CAPABILITY) c) PERM_LOAD"
    "has_perm (without (PERM_STORE OR PERM_STORE_CAPABILITY) c) PERM_LOAD_CAPABILITY"
    "\<not> has_perm (without (PERM_STORE OR PERM_STORE_CAPABILITY) c) PERM_STORE"
    "lacks_perm (without (PERM_LOAD OR PERM_LOAD_CAPABILITY) c) PERM_LOAD"
    "lacks_perm (without (PERM_LOAD OR PERM_LOAD_CAPABILITY) c) PERM_LOAD_CAPABILITY"
    "has_perm (without (PERM_LOAD OR PERM_LOAD_CAPABILITY) c) PERM_STORE"
    "has_perm (without (PERM_LOAD OR PERM_LOAD_CAPABILITY) c) PERM_STORE_CAPABILITY"
    "\<not> has_perm (without (PERM_LOAD OR PERM_LOAD_CAPABILITY) c) PERM_LOAD"
    using b mask [of _ 2] mask [of _ 3] mask [of _ 4] mask [of _ 5]
    by (simp_all add: has_perm_def lacks_perm_def without_def perm_defs bit_simps)
qed


text \<open>The variable of the test: an aligned \<open>int\<close> its pointer gives every access to.\<close>

definition int_variable :: "cap \<Rightarrow> bool" where
  "int_variable x \<longleftrightarrow> spans x 4 \<and> unat (cap_base x) mod 4 = 0 \<and> cap_perms x AND 0x3c = 0x3c"

lemma int_variable_ok:
  assumes "int_variable x"
  shows "can PERM_LOAD 4 x" "can PERM_STORE 4 x" "unat (cap_addr x) + 4 \<le> 2 ^ 64"
    "can PERM_LOAD 4 (without (PERM_STORE OR PERM_STORE_CAPABILITY) x)"
    "can PERM_STORE 4 (without (PERM_LOAD OR PERM_LOAD_CAPABILITY) x)"
    "access_check (without (PERM_STORE OR PERM_STORE_CAPABILITY) x) PERM_STORE Store_fault 4 = Some Store_fault"
    "access_check (without (PERM_LOAD OR PERM_LOAD_CAPABILITY) x) PERM_LOAD Load_fault 4 = Some Load_fault"
  using assms perms_without [of x]
  by (auto simp: int_variable_def spans_addr spans_def cap_wf_def intro!: can_start access_check_forbidden)
    (auto simp: without_def usable_def)

text \<open>
  The tests of qualified pointers pass. Through an \<open>__input\<close> argument a function can read but
  not write: its store faults once and the variable of the caller keeps its value. Through an
  \<open>__output\<close> argument it can write but not read: its load faults once and the caller sees what it
  stores.
\<close>

theorem qualified_pointers_pass:
  assumes "int_variable x" and "faults s = 0"
    and "input_pointer x = without (PERM_STORE OR PERM_STORE_CAPABILITY) x"
    and "output_pointer x = without (PERM_LOAD OR PERM_LOAD_CAPABILITY) x"
  shows "clang_purecap_input input_pointer old x s =
      Inr ((), s\<lparr>mem := set_word (cap_addr x) (47 :: u32) (mem s), faults := 1\<rparr>) \<and>
    clang_purecap_output output_pointer old x s =
      Inr ((), s\<lparr>mem := set_word (cap_addr x) (42 :: u32) (set_word (cap_addr x) (47 :: u32) (mem s)), faults := 1\<rparr>)"
  using assms int_variable_ok [OF assms(1)] perms_without [of x]
  by (simp add: clang_purecap_input_def input_foo_def clang_purecap_output_def output_foo_def
      int_variable_def reading_can writing_can writing_fault reading_fault trap_def word_at_same)

theorem qualified_pointers_pass_witness:
  "let x = stack_buffer\<lparr>cap_length := 4\<rparr>
   in clang_purecap_input (without (PERM_STORE OR PERM_STORE_CAPABILITY)) 0 x empty_machine =
      Inr ((), empty_machine\<lparr>mem := set_word (cap_addr x) (47 :: u32) (mem empty_machine), faults := 1\<rparr>)"
  using qualified_pointers_pass [of "stack_buffer\<lparr>cap_length := 4\<rparr>" empty_machine]
  by (simp add: cap_simps stack_buffer_def int_variable_def empty_machine_def)

section \<open>The cursor of a capability\<close>

text \<open>\<open>x[i] = i\<close> for the \<open>n\<close> elements of the array, and reading them back from the last.\<close>

definition cursor_set :: "nat \<Rightarrow> cap \<Rightarrow> unit prog" where
  "cursor_set n x =
     in_order (map (\<lambda>i. writing count_faults (put_data (plus_ptr x (of_nat (4 * i))) (of_nat i :: u32))) [0..<n])"

fun cursor_get :: "nat \<Rightarrow> u32 \<Rightarrow> cap \<Rightarrow> unit prog" where
  "cursor_get 0 old x = ret ()"
| "cursor_get (Suc i) old x =
     bind (reading count_faults (get_data x) old) (\<lambda>v.
     bind (assert_that (v = of_nat i)) (\<lambda>_.
     cursor_get i old (plus_ptr x (-4))))"

definition clang_hybrid_cursor :: "cap \<Rightarrow> u64 \<Rightarrow> u32 \<Rightarrow> unit prog" where
  "clang_hybrid_cursor ddc buffer old =
     bind (deriving count_faults (cheri_bounds_set (to_cap ddc buffer) (42 * 4)) null_cap) (\<lambda>b.
     bind (assert_that (buffer = cap_base b)) (\<lambda>_.
     bind (assert_that (0 = cap_offset b)) (\<lambda>_.
     bind (assert_that (42 * 4 = cap_length b)) (\<lambda>_.
     bind (cursor_set 42 b) (\<lambda>_.
     let b = plus_ptr b (41 * 4) in
     bind (assert_that (41 * 4 = cap_offset b)) (\<lambda>_.
     bind (assert_that (from_cap ddc b = buffer + 41 * 4)) (\<lambda>_.
     bind (cursor_get 42 old b) (\<lambda>_.
     bind (deriving count_faults (cheri_offset_increment b 42) null_cap) (\<lambda>v.
     bind (deriving count_faults (cheri_offset_set v 0) null_cap) (\<lambda>v.
     bind (assert_that (cap_offset v = 0)) (\<lambda>_.
     assert_state (\<lambda>s. faults s = 0))))))))))))"

definition clang_hybrid_cursor_trivial :: "cap \<Rightarrow> u64 \<Rightarrow> u32 \<Rightarrow> unit prog" where
  "clang_hybrid_cursor_trivial ddc buffer old s0 =
     (let b = to_cap ddc buffer; count = faults s0 in
     bind (writing count_faults (put_data (plus_ptr b (41 * 4)) (12 :: u32))) (\<lambda>_.
     bind (deriving count_faults (cheri_bounds_set b (42 * 4)) null_cap) (\<lambda>v.
     bind (deriving count_faults (cheri_offset_increment v (42 * 4)) null_cap) (\<lambda>v.
     bind (reading count_faults (get_data v) old) (\<lambda>_.
     bind (assert_state (\<lambda>s. faults s = count + 1)) (\<lambda>_.
     bind (deriving count_faults (cheri_offset_increment v ((-1) * 4)) null_cap) (\<lambda>v.
     bind (reading count_faults (get_data v) old) (\<lambda>x.
     bind (assert_that (x = 12)) (\<lambda>_.
     bind (deriving count_faults (cheri_offset_set v (-1)) null_cap) (\<lambda>v.
     bind (reading count_faults (get_data v) old) (\<lambda>_.
     bind (assert_state (\<lambda>s. faults s = count + 2)) (\<lambda>_.
     bind (deriving count_faults (cheri_offset_set v (41 * 4)) null_cap) (\<lambda>v.
     bind (reading count_faults (get_data v) old) (\<lambda>x.
     bind (assert_that (x = 12)) (\<lambda>_.
     assert_state (\<lambda>s. faults s = 2)))))))))))))))) s0"

text \<open>
  The default data capability gives access to all of memory from address 0 on, and the array of
  \<open>n\<close> elements of \<open>w\<close> bytes is an aligned part of it that is not at address 0.
\<close>

definition global_data :: "cap \<Rightarrow> u64 \<Rightarrow> nat \<Rightarrow> nat \<Rightarrow> bool" where
  "global_data ddc a w n \<longleftrightarrow> usable ddc \<and> cap_wf ddc \<and> cap_base ddc = 0 \<and> has_perm ddc PERM_LOAD \<and>
     has_perm ddc PERM_STORE \<and> a \<noteq> 0 \<and> unat a mod w = 0 \<and> unat a + w * n \<le> unat (cap_length ddc)"

abbreviation global_array :: "cap \<Rightarrow> u64 \<Rightarrow> nat \<Rightarrow> bool" where
  "global_array ddc a n \<equiv> global_data ddc a 4 n"

text \<open>The capability to the array that \<open>bounds_set\<close> makes.\<close>

definition array_cap :: "cap \<Rightarrow> u64 \<Rightarrow> nat \<Rightarrow> cap" where
  "array_cap ddc a n = ddc\<lparr>cap_base := a, cap_length := of_nat (4 * n), cap_offset := 0\<rparr>"

lemma array_cap_ok:
  assumes "global_array ddc a n"
  shows "cheri_bounds_set (to_cap ddc a) (of_nat (4 * n)) = Inr (array_cap ddc a n)"
    and "spans (array_cap ddc a n) (4 * n)" and "cap_base (array_cap ddc a n) = a"
    and "has_perm (array_cap ddc a n) p = has_perm ddc p"
    and "unat a + 4 * n < 2 ^ 64"
proof -
  show lt: "unat a + 4 * n < 2 ^ 64"
    using assms unsigned_less [of "cap_length ddc", where ?'a = nat] by (simp add: global_data_def)
  then have u: "unat (of_nat (4 * n) :: u64) = 4 * n"
    by (simp add: unsigned_of_nat take_bit_nat_eq_self del: of_nat_mult)
  show "cheri_bounds_set (to_cap ddc a) (of_nat (4 * n)) = Inr (array_cap ddc a n)"
    using assms u by (simp add: cheri_bounds_set_def to_cap_def array_cap_def global_data_def usable_def
        in_bounds_def cap_addr_def del: of_nat_mult)
  show "spans (array_cap ddc a n) (4 * n)"
    using assms u lt by (simp add: array_cap_def global_data_def usable_def spans_def cap_wf_def del: of_nat_mult)
qed (simp_all add: array_cap_def has_perm_def)


lemma cursor_set_run:
  assumes b: "spans b (4 * k)" "unat (cap_base b) mod 4 = 0" "has_perm b PERM_STORE" and "n \<le> k"
  shows "\<exists>m. cursor_set n b s = Inr ((), s\<lparr>mem := m\<rparr>) \<and>
    (\<forall>i<n. word_at m (cap_base b + of_nat (4 * i)) = (of_nat i :: u32))"
  using assms(4)
proof (induction n)
  case 0
  show ?case by (rule exI [of _ "mem s"]) (cases s, simp add: cursor_set_def)
next
  case (Suc n)
  let ?w = "\<lambda>i. writing count_faults (put_data (plus_ptr b (of_nat (4 * i))) (of_nat i :: u32))"
  let ?a = "\<lambda>i. cap_base b + of_nat (4 * i)"
  obtain m where m: "cursor_set n b s = Inr ((), s\<lparr>mem := m\<rparr>)" "\<forall>i<n. word_at m (?a i) = (of_nat i :: u32)"
    using Suc by auto
  have wf: "unat (cap_base b) + 4 * k < 2 ^ 64" using b(1) by (simp add: spans_def cap_wf_def)
  have a: "unat (?a i) = unat (cap_base b) + 4 * i" if "i \<le> n" for i
    using spans_element(2) [OF b(1,2) _ b(3), of i] that Suc.prems b(1) by (simp add: spans_addr del: of_nat_mult)
  have "can PERM_STORE 4 (plus_ptr b (of_nat (4 * n)))"
    using Suc.prems by (intro spans_element(1) [OF b(1,2) _ b(3)]) simp
  then have w: "?w n (s\<lparr>mem := m\<rparr>) = Inr ((), s\<lparr>mem := set_word (?a n) (of_nat n :: u32) m\<rparr>)"
    using b(1) by (simp add: writing_can spans_addr del: of_nat_mult)
  have "cursor_set (Suc n) b s = Inr ((), s\<lparr>mem := set_word (?a n) (of_nat n :: u32) m\<rparr>)"
    using m(1) w by (simp add: cursor_set_def in_order_append del: of_nat_mult)
  moreover have "word_at (set_word (?a n) (of_nat n :: u32) m) (?a i) = (of_nat i :: u32)" if "i < Suc n" for i
  proof (cases "i = n")
    case True
    then show ?thesis using a [of n] wf Suc.prems by (simp add: word_at_same del: of_nat_mult)
  next
    case False
    then have "i < n" using that by simp
    then have "word_at (set_word (?a n) (of_nat n :: u32) m) (?a i) = (word_at m (?a i) :: u32)"
      using a [of n] a [of i] wf Suc.prems by (intro word_at_apart) (simp_all del: of_nat_mult)
    then show ?thesis using m(2) \<open>i < n\<close> by simp
  qed
  ultimately show ?case by blast
qed

lemma cursor_get_run:
  assumes b: "spans b (4 * k)" "unat (cap_base b) mod 4 = 0" "has_perm b PERM_LOAD" and "n \<le> k"
    and "\<forall>i<n. word_at (mem s) (cap_base b + of_nat (4 * i)) = (of_nat i :: u32)"
  shows "cursor_get n old (plus_ptr b (of_nat (4 * n) - 4)) s = Inr ((), s)"
  using assms(4,5)
proof (induction n)
  case (Suc n)
  have p: "of_nat (4 * Suc n) - 4 = (of_nat (4 * n) :: u64)" by simp
  have "can PERM_LOAD 4 (plus_ptr b (of_nat (4 * n)))"
    using Suc.prems by (intro spans_element(1) [OF b(1,2) _ b(3)]) simp
  then have "reading count_faults (get_data (plus_ptr b (of_nat (4 * n)))) old s = Inr (of_nat n, s)"
    using Suc.prems b(1) by (simp add: reading_can spans_addr del: of_nat_mult)
  moreover have "plus_ptr b (of_nat (4 * n) + - 4) = plus_ptr b (of_nat (4 * n) - 4)" by simp
  ultimately show ?case using Suc unfolding p by (simp del: of_nat_mult)
qed simp

text \<open>
  The test of cursors passes for every array of 42 integers: the elements it writes forwards
  through the capability come back when it reads backwards by moving the cursor, without a fault.
\<close>

theorem hybrid_cursor_passes:
  assumes "global_array ddc buffer 42" and "faults s = 0"
  shows "\<exists>m. clang_hybrid_cursor ddc buffer old s = Inr ((), s\<lparr>mem := m\<rparr>)"
proof -
  let ?b = "array_cap ddc buffer 42"
  note ok = array_cap_ok [OF assms(1)]
  have p: "has_perm ?b PERM_LOAD" "has_perm ?b PERM_STORE" "unat (cap_base ?b) mod 4 = 0" "spans ?b (4 * 42)"
    using assms(1) ok by (simp_all add: global_data_def)
  have b: "cheri_bounds_set (to_cap ddc buffer) 168 = Inr ?b" using ok(1) by simp
  have f: "cap_offset ?b = 0" "cap_length ?b = 168" "cap_base ?b = buffer" "cap_base ddc = 0" "usable ?b" "cap_tag ?b"
    using assms(1) by (simp_all add: array_cap_def global_data_def usable_def)
  obtain m where m: "cursor_set 42 ?b s = Inr ((), s\<lparr>mem := m\<rparr>)"
      "\<forall>i<42. word_at m (cap_base ?b + of_nat (4 * i)) = (of_nat i :: u32)"
    using cursor_set_run [OF p(4,3,2) order_refl] by blast
  have g: "cursor_get 42 old (plus_ptr ?b 164) (s\<lparr>mem := m\<rparr>) = Inr ((), s\<lparr>mem := m\<rparr>)"
    using cursor_get_run [OF p(4,3,1) order_refl, of "s\<lparr>mem := m\<rparr>" old] m(2) by simp
  show ?thesis
    using assms(2) b f m(1) g
    by (intro exI [of _ m]) (simp add: clang_hybrid_cursor_def Let_def from_cap_def cap_addr_def cheri_offset_increment_def
        cheri_offset_set_def usable_def)
qed

definition whole_memory :: cap where
  "whole_memory = \<lparr>cap_tag = True, cap_sealed = False, cap_perms = 0xff, cap_otype = 0, cap_base = 0,
     cap_length = 0xffffffffffffffff, cap_offset = 0\<rparr>"

lemma whole_memory_array: "global_array whole_memory 8192 42"
  by (simp add: cap_simps whole_memory_def global_data_def)

theorem hybrid_cursor_passes_witness:
  "\<exists>m. clang_hybrid_cursor whole_memory 8192 7 empty_machine = Inr ((), empty_machine\<lparr>mem := m\<rparr>)"
  using hybrid_cursor_passes [OF whole_memory_array] by (simp add: stack_buffer_simps)


text \<open>
  The test of the cursor passes for every array of 42 integers: a load behind the end and a
  load before the start fault once each, and back in range the element stored first is read.
\<close>

theorem hybrid_cursor_trivial_passes:
  assumes "global_array ddc buffer 42" and "faults s = 0"
  shows "clang_hybrid_cursor_trivial ddc buffer old s =
    Inr ((), s\<lparr>mem := set_word (buffer + 164) (12 :: u32) (mem s), faults := 2\<rparr>)"
proof -
  let ?b = "array_cap ddc buffer 42" and ?m = "set_word (buffer + 164) (12 :: u32) (mem s)"
  note ok = array_cap_ok [OF assms(1)]
  have p: "has_perm ?b PERM_LOAD" "unat (cap_base ?b) mod 4 = 0" "spans ?b (4 * 42)" "unat buffer + 168 < 2 ^ 64"
    using assms(1) ok by (simp_all add: global_data_def)
  have f: "cap_offset ?b = 0" "cap_base ?b = buffer" "usable ?b" "cap_tag ?b" "\<not> cap_sealed ?b"
    using assms(1) by (simp_all add: array_cap_def global_data_def usable_def)
  have e: "can PERM_LOAD 4 (?b\<lparr>cap_offset := 164\<rparr>)" "unat (buffer + 164) = unat buffer + 164"
    using spans_element [OF p(3,2) _ p(1), of 41] f by (simp_all add: plus_ptr_def cap_addr_def)
  have w: "can PERM_STORE 4 (plus_ptr (to_cap ddc buffer) 164)" "cap_addr (to_cap ddc buffer) = buffer"
    using assms(1) e(2) by (auto simp: global_data_def can_def usable_def to_cap_def in_bounds_def cap_addr_def
        has_perm_def mod_add_eq [symmetric])
  have past: "access_check (?b\<lparr>cap_offset := 168\<rparr>) PERM_LOAD Load_fault 4 = Some Length_fault"
    using p spans_in_bounds [OF p(3), of 168 4] f by (intro access_check_outside) (simp_all add: plus_ptr_def usable_def has_perm_def)
  have "\<not> in_bounds (?b\<lparr>cap_offset := -1\<rparr>) 4"
    using f(2) assms(1) unat_minus_one [of buffer] by (simp add: in_bounds_def cap_addr_def global_data_def unat_gt_0 [symmetric]) linarith
  then have before: "access_check (?b\<lparr>cap_offset := -1\<rparr>) PERM_LOAD Load_fault 4 = Some Length_fault"
    using p f by (intro access_check_outside) (simp_all add: usable_def has_perm_def)
  have r: "word_at ?m (buffer + 164) = (12 :: u32)" using e(2) p(4) by (simp add: word_at_same)
  have a: "cap_addr (?b\<lparr>cap_offset := 164\<rparr>) = buffer + 164" using f(2) by (simp add: cap_addr_def)
  show ?thesis
    using assms(2) ok(1) f w e(1) past before r a
    by (simp add: clang_hybrid_cursor_trivial_def Let_def cheri_offset_increment_def cheri_offset_set_def
        writing_can reading_can reading_fault trap_def)
qed

theorem hybrid_cursor_trivial_passes_witness:
  "clang_hybrid_cursor_trivial whole_memory 8192 7 empty_machine =
    Inr ((), empty_machine\<lparr>mem := set_word 8356 (12 :: u32) (mem empty_machine), faults := 2\<rparr>)"
  using hybrid_cursor_trivial_passes [OF whole_memory_array, of empty_machine] by (simp add: stack_buffer_simps)

end
