(* ===== verification/VarArgs.thy ===== *)
theory VarArgs
  imports FaultTests
begin

text \<open>
  The tests of functions with a variable number of arguments: \<open>clang_purecap_va_args.c\<close>,
  \<open>clang_purecap_va_copy.c\<close>, \<open>clang_purecap_va_die.c\<close> and \<open>clang_purecap_va_list_global.c\<close>. The
  caller leaves the arguments in memory and \<open>va_start\<close> gives a capability to them: both are
  arguments of the model, and what the tests rely on is stated of them.
\<close>

section \<open>Lists of arguments\<close>

text \<open>
  How the compiler lays out arguments: the bytes between two integers, and where an integer is
  in its slot. Pointers are aligned to their size.
\<close>

record va_layout =
  int_slot :: nat
  int_pos :: nat

definition va_layout_ok :: "va_layout \<Rightarrow> bool" where
  "va_layout_ok va \<longleftrightarrow> int_pos va mod 4 = 0 \<and> int_slot va mod 4 = 0 \<and> int_pos va + 4 \<le> int_slot va \<and> int_slot va \<le> 32"

text \<open>What registers hold that a load would have changed, had it not faulted.\<close>

record registers =
  r_int :: u32
  r_byte :: u8
  r_cap :: cap

text \<open>\<open>va_arg\<close> for \<open>int\<close> and for pointers: the argument and the list moved behind it.\<close>

definition va_int :: "va_layout \<Rightarrow> u32 \<Rightarrow> cap \<Rightarrow> (u32 \<times> cap) prog" where
  "va_int va old ap =
     bind (reading count_faults (get_data (plus_ptr ap (of_nat (int_pos va)))) old) (\<lambda>x.
     ret (x, plus_ptr ap (of_nat (int_slot va))))"

definition align_ptr :: "cap \<Rightarrow> cap" where
  "align_ptr c = plus_ptr c (push_bit 5 (drop_bit 5 (cap_addr c + 31)) - cap_addr c)"

definition va_pointer :: "cap \<Rightarrow> cap \<Rightarrow> (cap \<times> cap) prog" where
  "va_pointer old ap =
     bind (reading count_faults (load_cap (align_ptr ap)) old) (\<lambda>p.
     ret (p, plus_ptr (align_ptr ap) 32))"

section \<open>The tests\<close>

text \<open>\<open>clang_purecap_va_args.c\<close>: pairs of a number and a pointer to the character of that number.\<close>

fun print_pairs :: "va_layout \<Rightarrow> registers \<Rightarrow> cap \<Rightarrow> cap \<Rightarrow> nat list \<Rightarrow> cap \<Rightarrow> unit prog" where
  "print_pairs va r ptrs str [] ap = ret ()"
| "print_pairs va r ptrs str (i # is) ap =
     bind (va_int va (r_int r) ap) (\<lambda>(x, ap).
     bind (va_pointer (r_cap r) ap) (\<lambda>(p, ap).
     bind (assert_that (x = of_nat i)) (\<lambda>_.
     bind (assert_that (cap_tag p)) (\<lambda>_.
     bind (reading count_faults (load_cap (plus_ptr ptrs (of_nat (32 * i)))) (r_cap r)) (\<lambda>q.
     bind (assert_that (cap_eq p q)) (\<lambda>_.
     bind (reading count_faults (get_data p) (r_byte r)) (\<lambda>b.
     bind (reading count_faults (get_data (plus_ptr str (of_nat i))) (r_byte r)) (\<lambda>c.
     bind (assert_that (b = c)) (\<lambda>_.
     print_pairs va r ptrs str is ap)))))))))"

definition va_args_printstuff :: "va_layout \<Rightarrow> registers \<Rightarrow> cap \<Rightarrow> cap \<Rightarrow> nat \<Rightarrow> cap \<Rightarrow> unit prog" where
  "va_args_printstuff va r ptrs str argpairs ap =
     bind (assert_that (cap_length ap = of_nat argpairs * 32 * 2)) (\<lambda>_.
     bind (assert_that (lacks_perm ap PERM_STORE)) (\<lambda>_.
     bind (assert_that (lacks_perm ap PERM_STORE_CAPABILITY)) (\<lambda>_.
     print_pairs va r ptrs str [0..<argpairs] ap)))"

text \<open>The body of \<open>check_fp\<close> is only compiled with \<open>INCLUDE_XFAIL\<close>.\<close>

definition clang_purecap_va_args :: "va_layout \<Rightarrow> registers \<Rightarrow> cap \<Rightarrow> cap \<Rightarrow> cap \<Rightarrow> unit prog" where
  "clang_purecap_va_args va r ptrs str ap =
     bind (va_args_printstuff va r ptrs str 8 ap) (\<lambda>_. assert_state (\<lambda>s. faults s = 0))"

text \<open>\<open>clang_purecap_va_copy.c\<close>: two lists, read in turns.\<close>

fun print_twice :: "va_layout \<Rightarrow> u32 \<Rightarrow> u32 \<Rightarrow> nat \<Rightarrow> cap \<Rightarrow> cap \<Rightarrow> unit prog" where
  "print_twice va old old2 0 ap ap2 = ret ()"
| "print_twice va old old2 (Suc n) ap ap2 =
     bind (va_int va old ap) (\<lambda>(x, ap).
     bind (va_int va old2 ap2) (\<lambda>(y, ap2).
     bind (assert_that (x = y)) (\<lambda>_.
     print_twice va old old2 n ap ap2)))"

definition clang_purecap_va_copy :: "va_layout \<Rightarrow> u32 \<Rightarrow> u32 \<Rightarrow> cap \<Rightarrow> unit prog" where
  "clang_purecap_va_copy va old old2 ap =
     (let ap2 = ap in
      bind (assert_that (cap_length ap = cap_length ap2)) (\<lambda>_.
      print_twice va old old2 8 ap ap2))"

text \<open>\<open>clang_purecap_va_die.c\<close>: one argument more than there are.\<close>

fun print_until_fault :: "va_layout \<Rightarrow> u32 \<Rightarrow> nat list \<Rightarrow> cap \<Rightarrow> unit prog" where
  "print_until_fault va old [] ap = ret ()"
| "print_until_fault va old (i # is) ap =
     bind (va_int va old ap) (\<lambda>(x, ap) s.
     if faults s > 0 then assert_that (i = 9) s
     else bind (assert_that (x = of_nat i)) (\<lambda>_. print_until_fault va old is ap) s)"

definition clang_purecap_va_die :: "va_layout \<Rightarrow> u32 \<Rightarrow> cap \<Rightarrow> unit prog" where
  "clang_purecap_va_die va old ap =
     bind (assert_state (\<lambda>s. faults s = 0)) (\<lambda>_.
     bind (print_until_fault va old [1..<10] ap) (\<lambda>_.
     assert_state (\<lambda>s. faults s = 1)))"

text \<open>\<open>clang_purecap_va_list_global.c\<close>: the list is in a global structure, here passed along.\<close>

record print_info =
  vap :: cap
  num_args :: nat

definition byte_is :: "registers \<Rightarrow> cap \<Rightarrow> nat \<Rightarrow> (u8 \<Rightarrow> bool) \<Rightarrow> unit prog" where
  "byte_is r cp k P = bind (reading count_faults (get_data (plus_ptr cp (of_nat k))) (r_byte r)) (\<lambda>c. assert_that (P c))"

fun print_impl_loop :: "registers \<Rightarrow> nat list \<Rightarrow> print_info \<Rightarrow> print_info prog" where
  "print_impl_loop r [] info = ret info"
| "print_impl_loop r (i # is) info =
     bind (assert_that (cap_offset (vap info) = of_nat (32 * i))) (\<lambda>_.
     bind (va_pointer (r_cap r) (vap info)) (\<lambda>(cp, ap). let info = info\<lparr>vap := ap\<rparr> in
     bind (assert_that (cap_offset (vap info) = of_nat (32 * (i + 1)))) (\<lambda>_.
     bind (assert_that (\<not> cap_eq cp null_cap)) (\<lambda>_.
     bind (byte_is r cp 0 (\<lambda>c. c \<noteq> 0)) (\<lambda>_.
     if i = 2 then
       bind (assert_state (\<lambda>s. faults s = 1)) (\<lambda>_.
       bind (assert_that (cap_offset (vap info) = cap_length (vap info) + 32)) (\<lambda>_.
       ret info))
     else
       bind (byte_is r cp 0 (\<lambda>c. c = 0x61)) (\<lambda>_.
       bind (byte_is r cp 1 (\<lambda>c. c = 0x72)) (\<lambda>_.
       bind (byte_is r cp 2 (\<lambda>c. c = 0x67)) (\<lambda>_.
       bind (byte_is r cp 3 (\<lambda>c. c = 0x31 + of_nat i)) (\<lambda>_.
       print_impl_loop r is info)))))))))"

definition print_impl :: "registers \<Rightarrow> print_info \<Rightarrow> print_info prog" where
  "print_impl r info =
     bind (assert_that (num_args info = 3)) (\<lambda>_.
     bind (assert_that (cap_length (vap info) = 32 * 2)) (\<lambda>_.
     bind (assert_that (cap_offset (vap info) = 0)) (\<lambda>_.
     bind (print_impl_loop r [0..<num_args info] info) (\<lambda>info.
     bind (assert_state (\<lambda>s. faults s = 1)) (\<lambda>_.
     ret info)))))"

definition clang_purecap_va_list_global :: "registers \<Rightarrow> cap \<Rightarrow> print_info prog" where
  "clang_purecap_va_list_global r ap =
     bind (print_impl r \<lparr>vap = ap, num_args = 3\<rparr>) (\<lambda>info.
     bind (assert_that (cap_offset (vap info) = cap_length (vap info) + 32)) (\<lambda>_.
     ret (info\<lparr>vap := null_cap\<rparr>)))"


section \<open>Integers of a list\<close>

lemma va_int_inside:
  assumes "va_layout_ok va" and ap: "spans ap n" "unat (cap_base ap) mod 4 = 0" "has_perm ap PERM_LOAD"
    and k: "k mod 4 = 0" "k + int_slot va \<le> n"
  shows "va_int va old (plus_ptr ap (of_nat k)) s =
    Inr ((word_at (mem s) (cap_base ap + of_nat (k + int_pos va)), plus_ptr ap (of_nat (k + int_slot va))), s)"
proof -
  define i where "i = (k + int_pos va) div 4"
  have i: "4 * i = k + int_pos va" using assms(1) k(1) unfolding i_def va_layout_ok_def by presburger
  have "4 * i + 4 \<le> n" using assms(1) k i by (simp add: va_layout_ok_def)
  then have "can PERM_LOAD 4 (plus_ptr ap (of_nat (k + int_pos va)))"
    using spans_element(1) [OF ap(1,2) _ ap(3), of i] unfolding i by simp
  then show ?thesis
    using ap(1) by (simp add: va_int_def reading_can spans_addr add.assoc)
qed

lemma va_int_outside:
  assumes "spans ap n" "has_perm ap PERM_LOAD" "n \<le> k" "k + int_pos va < 2 ^ 64"
  shows "va_int va old (plus_ptr ap (of_nat k)) s =
    Inr ((old, plus_ptr ap (of_nat (k + int_slot va))), s\<lparr>faults := faults s + 1\<rparr>)"
proof -
  have "unat (of_nat (k + int_pos va) :: u64) = k + int_pos va"
    using assms(4) by (simp add: unsigned_of_nat take_bit_nat_eq_self del: of_nat_add)
  then have "\<not> in_bounds (plus_ptr ap (of_nat (k + int_pos va))) 4"
    using assms by (intro spans_outside [OF assms(1)]) simp_all
  then have "access_check (plus_ptr ap (of_nat (k + int_pos va))) PERM_LOAD Load_fault 4 = Some Length_fault"
    using assms by (intro access_check_outside) (simp_all add: spans_def)
  then show ?thesis by (simp add: va_int_def reading_fault trap_def)
qed

text \<open>\<open>n\<close> integers from \<open>m\<close> on, one behind the other.\<close>

definition int_arguments :: "va_layout \<Rightarrow> cap \<Rightarrow> nat list \<Rightarrow> memory \<Rightarrow> bool" where
  "int_arguments va ap xs m \<longleftrightarrow> va_layout_ok va \<and> spans ap (int_slot va * length xs) \<and>
     int_slot va * length xs + 32 \<le> 2 ^ 64 \<and> unat (cap_base ap) mod 4 = 0 \<and> has_perm ap PERM_LOAD \<and>
     (\<forall>i<length xs. word_at m (cap_base ap + of_nat (int_slot va * i + int_pos va)) = (of_nat (xs ! i) :: u32))"

lemma int_arguments_next:
  assumes "int_arguments va ap xs (mem s)" and "i < length xs"
  shows "va_int va old (plus_ptr ap (of_nat (int_slot va * i))) s =
    Inr ((of_nat (xs ! i), plus_ptr ap (of_nat (int_slot va * Suc i))), s)"
proof -
  have "int_slot va * Suc i \<le> int_slot va * length xs" using assms(2) by (intro mult_le_mono) simp_all
  then show ?thesis
    using assms va_int_inside [of va ap "int_slot va * length xs" "int_slot va * i" old s]
    by (auto simp: int_arguments_def va_layout_ok_def add.commute mod_mult_left_eq [symmetric] simp del: of_nat_mult)
qed

lemma int_arguments_end:
  assumes "int_arguments va ap xs m"
  shows "va_int va old (plus_ptr ap (of_nat (int_slot va * length xs))) s =
    Inr ((old, plus_ptr ap (of_nat (int_slot va * Suc (length xs)))), s\<lparr>faults := faults s + 1\<rparr>)"
proof -
  have "int_slot va * length xs + int_pos va < 2 ^ 64"
    using assms by (simp add: int_arguments_def va_layout_ok_def)
  then show ?thesis
    using assms va_int_outside [of ap "int_slot va * length xs" "int_slot va * length xs" va old s]
    by (simp add: int_arguments_def add.commute del: of_nat_mult)
qed


lemma print_until_fault_run:
  assumes "int_arguments va ap [1..<Suc n] (mem s)" and "faults s = 0" and "k \<le> n" "k \<le> 9"
  shows "print_until_fault va old [Suc k..<10] (plus_ptr ap (of_nat (int_slot va * k))) s =
    (if 9 \<le> n then Inr ((), s) else if n = 8 then Inr ((), s\<lparr>faults := 1\<rparr>) else Inl Assertion)"
  using assms(4,3)
proof (induction k rule: inc_induct)
  case base
  then show ?case by simp
next
  case (step k)
  have l: "[Suc k..<10] = Suc k # [Suc (Suc k)..<10]" using step.hyps by (simp add: upt_conv_Cons)
  show ?case
  proof (cases "k = n")
    case True
    then have "va_int va old (plus_ptr ap (of_nat (int_slot va * k))) s =
        Inr ((old, plus_ptr ap (of_nat (int_slot va * Suc k))), s\<lparr>faults := 1\<rparr>)"
      using int_arguments_end [OF assms(1), of old s] assms(2) by (simp del: of_nat_mult upt_Suc)
    then show ?thesis
      using True step.hyps unfolding l by (auto simp: assert_that_def simp del: of_nat_mult)
  next
    case False
    then have "k < n" using step.prems by simp
    then have "va_int va old (plus_ptr ap (of_nat (int_slot va * k))) s =
        Inr ((of_nat (Suc k), plus_ptr ap (of_nat (int_slot va * Suc k))), s)"
      using int_arguments_next [OF assms(1), of k old] by (simp add: nth_append del: of_nat_mult of_nat_Suc upt_Suc)
    then show ?thesis
      using step.IH \<open>k < n\<close> assms(2) unfolding l by (simp del: of_nat_mult of_nat_Suc)
  qed
qed

text \<open>
  C31. The test that reads too many arguments passes exactly when the list holds the eight integers
  of the call and ends behind them: the ninth load faults once, and a shorter or a longer list
  fails an assertion.
\<close>

theorem va_die_passes:
  assumes "int_arguments va ap [1..<Suc n] (mem s)" and "faults s = 0"
  shows "clang_purecap_va_die va old ap s = (if n = 8 then Inr ((), s\<lparr>faults := 1\<rparr>) else Inl Assertion)"
  using print_until_fault_run [OF assms, of 0 old] assms(2)
  by (cases "9 \<le> n"; cases "n = 8") (simp_all add: clang_purecap_va_die_def assert_that_def)

definition list_of_ints :: cap where
  "list_of_ints = stack_buffer\<lparr>cap_length := 64\<rparr>"

definition ints_in_memory :: machine where
  "ints_in_memory = \<lparr>mem = \<lparr>bytes = (\<lambda>a. if unat a mod 8 = 7 then of_nat (Suc ((unat a - 4096) div 8)) else 0),
     tags = (\<lambda>_. False)\<rparr>, faults = 0\<rparr>"

theorem va_die_passes_witness:
  "clang_purecap_va_die \<lparr>int_slot = 8, int_pos = 4\<rparr> 99 list_of_ints ints_in_memory =
    Inr ((), ints_in_memory\<lparr>faults := 1\<rparr>)"
proof -
  have "list_all (\<lambda>i. word_at (mem ints_in_memory) (4096 + of_nat (8 * i + 4)) = (of_nat ([1..<9] ! i) :: u32)) [0..<8]"
    by (simp add: word_at_def read_bytes_def ints_in_memory_def be_nat_def upt_rec)
  then have "\<forall>i<8. word_at (mem ints_in_memory) (4096 + of_nat (8 * i + 4)) = (of_nat ([1..<9] ! i) :: u32)"
    by (simp add: list_all_iff del: of_nat_add of_nat_mult)
  then have "int_arguments \<lparr>int_slot = 8, int_pos = 4\<rparr> list_of_ints [1..<Suc 8] (mem ints_in_memory)"
    by (simp add: cap_simps int_arguments_def va_layout_ok_def list_of_ints_def stack_buffer_def del: upt_Suc of_nat_add of_nat_mult)
  then show ?thesis using va_die_passes [of _ _ 8 ints_in_memory] by (simp add: ints_in_memory_def)
qed

lemma print_twice_run:
  assumes "int_arguments va ap xs (mem s)" and "k + n \<le> length xs"
  shows "print_twice va old old2 n (plus_ptr ap (of_nat (int_slot va * k))) (plus_ptr ap (of_nat (int_slot va * k))) s = Inr ((), s)"
  using assms(2)
proof (induction n arbitrary: k)
  case (Suc n)
  then have "print_twice va old old2 n (plus_ptr ap (of_nat (int_slot va * Suc k))) (plus_ptr ap (of_nat (int_slot va * Suc k))) s = Inr ((), s)"
    by (intro Suc.IH) simp
  then show ?case
    using int_arguments_next [OF assms(1)] Suc.prems by (simp del: of_nat_mult)
qed simp

lemma va_copy_passes:
  assumes "int_arguments va ap xs (mem s)" and "8 \<le> length xs"
  shows "clang_purecap_va_copy va old old2 ap s = Inr ((), s)"
  using print_twice_run [OF assms(1), of 0 8 old old2] assms(2) by (simp add: clang_purecap_va_copy_def)


section \<open>Pointers of a list\<close>

lemma align_up:
  assumes "unat a \<le> 32 * q" "32 * q < unat a + 32" "32 * q + 32 \<le> 2 ^ 64"
  shows "push_bit 5 (drop_bit 5 (a + 31)) = (of_nat (32 * q) :: u64)"
proof -
  have "unat (a + 31) = unat a + 31" using assms by (simp add: unat_word_ariths)
  then have "unat (drop_bit 5 (a + 31)) = q"
    using assms by (simp add: drop_bit_eq_div unat_div_distrib)
  then have "drop_bit 5 (a + 31) = of_nat q" by (rule word_eq_of_nat)
  then show ?thesis by (simp add: push_bit_eq_mult)
qed

lemma va_pointer_at:
  assumes ap: "spans ap n" "unat (cap_base ap) mod 32 = 0" and k: "k \<le> 32 * i" "32 * i < k + 32" "32 * i \<le> n"
  shows "va_pointer old (plus_ptr ap (of_nat k)) s =
    bind (reading count_faults (load_cap (plus_ptr ap (of_nat (32 * i)))) old) (\<lambda>p. ret (p, plus_ptr ap (of_nat (32 * (i + 1))))) s"
proof -
  define b where "b = unat (cap_base ap) div 32"
  have b: "unat (cap_base ap) = 32 * b" using ap(2) unfolding b_def by presburger
  have wf: "32 * b + n < 2 ^ 64" using ap(1) b by (simp add: spans_def cap_wf_def)
  have a: "unat (cap_addr (plus_ptr ap (of_nat k))) = 32 * b + k"
    using ap(1) b wf k unat_add_of_nat [of "cap_base ap" k] by (simp add: spans_addr)
  have "32 * (b + i) < 2 ^ 64" using wf k(3) by simp
  then have "32 * (b + i) + 32 \<le> 2 ^ 64" by simp presburger
  then have "push_bit 5 (drop_bit 5 (cap_addr (plus_ptr ap (of_nat k)) + 31)) = (of_nat (32 * (b + i)) :: u64)"
    using a k by (intro align_up) simp_all
  moreover have "cap_base ap = of_nat (32 * b)" using b by (rule word_eq_of_nat)
  ultimately have "align_ptr (plus_ptr ap (of_nat k)) = plus_ptr ap (of_nat (32 * i))"
    using ap(1) by (simp add: align_ptr_def spans_addr algebra_simps)
  then show ?thesis by (simp add: va_pointer_def algebra_simps)
qed

text \<open>The bytes from \<open>p\<close> on can be read and are those of the string.\<close>

definition reads_string :: "memory \<Rightarrow> cap \<Rightarrow> u8 list \<Rightarrow> bool" where
  "reads_string m p cs \<longleftrightarrow> list_all (\<lambda>k. get_data (plus_ptr p (of_nat k)) m = Inr (cs ! k)) [0..<length cs]"

lemma reads_string_at:
  "reads_string m p cs \<Longrightarrow> k < length cs \<Longrightarrow> get_data (plus_ptr p (of_nat k)) m = Inr (cs ! k)"
  by (simp add: reads_string_def list_all_iff)

lemma byte_is_run:
  assumes "reads_string (mem s) p cs" and "k < length cs"
  shows "byte_is r p k P s = assert_that (P (cs ! k)) s"
  using reads_string_at [OF assms] by (simp add: byte_is_def reading_def)

lemma get_byte_cases: "get_data p m = (Inl e :: cheri_fault + u8) \<Longrightarrow> e \<noteq> Address_error"
  by (auto simp: get_data_def access_check_def Let_def split: if_splits)

lemma readable_not_null: "get_data p m = Inr (c :: u8) \<Longrightarrow> \<not> cap_eq p null_cap"
  by (auto simp: get_data_def access_check_def Let_def cap_eq_def int_cap_def split: if_splits)

text \<open>The two arguments of the call: pointers to \<open>"arg1"\<close> and \<open>"arg2"\<close>.\<close>

definition two_arguments :: "cap \<Rightarrow> memory \<Rightarrow> bool" where
  "two_arguments ap m \<longleftrightarrow> spans ap 64 \<and> unat (cap_base ap) mod 32 = 0 \<and> has_perm ap PERM_LOAD_CAPABILITY \<and>
     (case (load_cap ap m, load_cap (plus_ptr ap 32) m) of
        (Inr p, Inr q) \<Rightarrow> reads_string m p [0x61, 0x72, 0x67, 0x31] \<and> reads_string m q [0x61, 0x72, 0x67, 0x32]
      | _ \<Rightarrow> False)"

text \<open>One round of the loop: of the arguments there are, and of the one behind them.\<close>

lemma print_impl_step:
  assumes "va_pointer (r_cap r) (vap info) s = Inr ((cp, ap), s)"
    and "cap_offset (vap info) = of_nat (32 * i)" "cap_offset ap = of_nat (32 * (i + 1))" "i \<noteq> 2"
    and "reads_string (mem s) cp [0x61, 0x72, 0x67, 0x31 + of_nat i]"
  shows "print_impl_loop r (i # is) info s = print_impl_loop r is (info\<lparr>vap := ap\<rparr>) s"
  using assms readable_not_null [of cp "mem s"] reads_string_at [OF assms(5), of 0] byte_is_run [OF assms(5), of _ r]
  by (simp add: Let_def assert_that_def del: of_nat_mult)

lemma print_impl_last:
  assumes "va_pointer (r_cap r) (vap info) s = Inr ((r_cap r, ap), s\<lparr>faults := 1\<rparr>)"
    and "cap_offset (vap info) = 64" "cap_offset ap = 96" "cap_length ap = 64"
  shows "print_impl_loop r [2] info s =
    (case get_data (r_cap r) (mem s) of
       Inr c \<Rightarrow> if c \<noteq> (0 :: u8) then Inr (info\<lparr>vap := ap\<rparr>, s\<lparr>faults := 1\<rparr>) else Inl Assertion
     | Inl e \<Rightarrow> Inl Assertion)"
proof (cases "get_data (r_cap r) (mem s) :: cheri_fault + u8")
  case (Inl e)
  then show ?thesis
    using get_byte_cases [OF Inl] assms
    by (cases "cap_eq (r_cap r) null_cap"; cases "r_byte r = 0")
      (simp_all add: Let_def byte_is_def reading_def trap_def assert_that_def)
next
  case (Inr c)
  then show ?thesis
    using readable_not_null [OF Inr] assms
    by (cases "c = 0") (simp_all add: Let_def byte_is_def reading_def assert_that_def)
qed

text \<open>
  C29. The test of a stored list passes exactly when the register that the third \<open>va_arg\<close> fails to
  load happens to hold a pointer to a readable byte that is not zero: the fault is in \<open>va_arg\<close>, and
  the assertions behind it look at what was left in the register.
\<close>

theorem va_list_global_passes:
  assumes "two_arguments ap (mem s)" and "faults s = 0"
  shows "clang_purecap_va_list_global r ap s =
    (case get_data (r_cap r) (mem s) of
       Inr c \<Rightarrow> if c \<noteq> (0 :: u8) then Inr (\<lparr>vap = null_cap, num_args = 3\<rparr>, s\<lparr>faults := 1\<rparr>) else Inl Assertion
     | Inl e \<Rightarrow> Inl Assertion)"
proof -
  have ap: "spans ap 64" "unat (cap_base ap) mod 32 = 0" "has_perm ap PERM_LOAD_CAPABILITY"
    using assms(1) by (simp_all add: two_arguments_def)
  obtain p q where p: "load_cap ap (mem s) = Inr p" "reads_string (mem s) p [0x61, 0x72, 0x67, 0x31]"
    and q: "load_cap (plus_ptr ap 32) (mem s) = Inr q" "reads_string (mem s) q [0x61, 0x72, 0x67, 0x32]"
    using assms(1) by (auto simp: two_arguments_def split: sum.splits)
  have v: "va_pointer (r_cap r) ap s = Inr ((p, plus_ptr ap 32), s)"
      "va_pointer (r_cap r) (plus_ptr ap 32) s = Inr ((q, plus_ptr ap 64), s)"
    using va_pointer_at [OF ap(1,2), of 0 0] va_pointer_at [OF ap(1,2), of 32 1] p(1) q(1) by (simp_all add: reading_def)
  have "access_check (plus_ptr ap 64) PERM_LOAD_CAPABILITY Load_capability_fault 32 = Some Length_fault"
    using ap spans_outside [OF ap(1), of 64 32] by (intro access_check_outside) (simp_all add: spans_def)
  then have w: "va_pointer (r_cap r) (plus_ptr ap 64) s = Inr ((r_cap r, plus_ptr ap 96), s\<lparr>faults := 1\<rparr>)"
    using va_pointer_at [OF ap(1,2), of 64 2] assms(2) by (simp add: reading_def load_cap_def trap_def)
  have o: "cap_offset ap = 0" "cap_length ap = 64"
    using ap(1) word_eq_of_nat [of "cap_length ap" 64] by (auto simp: spans_def)
  have "[0..<3] = [0, 1, 2]" by (simp add: upt_rec)
  then have "print_impl_loop r [0..<3] \<lparr>vap = ap, num_args = 3\<rparr> s =
      print_impl_loop r [2] \<lparr>vap = plus_ptr ap 64, num_args = 3\<rparr> s"
    using print_impl_step [of r "\<lparr>vap = ap, num_args = 3\<rparr>" s p "plus_ptr ap 32" 0 "[1, 2]"]
      print_impl_step [of r "\<lparr>vap = plus_ptr ap 32, num_args = 3\<rparr>" s q "plus_ptr ap 64" 1 "[2]"] v o p(2) q(2)
    by simp
  also have "\<dots> = (case get_data (r_cap r) (mem s) of
       Inr c \<Rightarrow> if c \<noteq> (0 :: u8) then Inr (\<lparr>vap = plus_ptr ap 96, num_args = 3\<rparr>, s\<lparr>faults := 1\<rparr>) else Inl Assertion
     | Inl e \<Rightarrow> Inl Assertion)"
    using print_impl_last [of r "\<lparr>vap = plus_ptr ap 64, num_args = 3\<rparr>" s "plus_ptr ap 96"] w o
    by (simp del: print_impl_loop.simps split: sum.split)
  finally show ?thesis
    using o by (auto simp: clang_purecap_va_list_global_def print_impl_def split: sum.splits)
qed


definition string_pointer :: "u64 \<Rightarrow> cap" where
  "string_pointer a = stack_buffer\<lparr>cap_base := a, cap_length := 5\<rparr>"

definition pointers_in_memory :: machine where
  "pointers_in_memory = \<lparr>mem =
     write_granule 4096 (cap_image (string_pointer 8192), True)
      (write_granule 4128 (cap_image (string_pointer 8200), True)
        (write_bytes 8192 [0x61, 0x72, 0x67, 0x31, 0, 0, 0, 0, 0x61, 0x72, 0x67, 0x32, 0]
          \<lparr>bytes = (\<lambda>_. 0), tags = (\<lambda>_. False)\<rparr>)), faults = 0\<rparr>"

lemma pointers_in_memory_loads:
  "load_cap list_of_ints (mem pointers_in_memory) = Inr (string_pointer 8192)"
  "load_cap (plus_ptr list_of_ints 32) (mem pointers_in_memory) = Inr (string_pointer 8200)"
proof -
  have i: "image_cap (cap_image (string_pointer a), True) = string_pointer a" for a
    using image_cap_image [of "string_pointer a"] by (simp add: string_pointer_def stack_buffer_def)
  show "load_cap list_of_ints (mem pointers_in_memory) = Inr (string_pointer 8192)"
    "load_cap (plus_ptr list_of_ints 32) (mem pointers_in_memory) = Inr (string_pointer 8200)"
    by (simp_all add: cap_simps load_cap_def access_check_def list_of_ints_def stack_buffer_def plus_ptr_def
        pointers_in_memory_def read_write_granule read_granule_other i)
qed

lemma pointers_in_memory_strings:
  "reads_string (mem pointers_in_memory) (string_pointer 8192) [0x61, 0x72, 0x67, 0x31]"
  "reads_string (mem pointers_in_memory) (string_pointer 8200) [0x61, 0x72, 0x67, 0x32]"
  "get_data (string_pointer 8200) (mem pointers_in_memory) = (Inr 0x61 :: cheri_fault + u8)"
  by (simp_all add: cap_simps reads_string_def upt_rec get_byte string_pointer_def stack_buffer_def
        plus_ptr_def pointers_in_memory_def write_granule_def Let_def bytes_write_bytes in_region_def)

theorem va_list_global_passes_witness:
  "clang_purecap_va_list_global \<lparr>r_int = 0, r_byte = 0, r_cap = string_pointer 8200\<rparr> list_of_ints pointers_in_memory =
    Inr (\<lparr>vap = null_cap, num_args = 3\<rparr>, pointers_in_memory\<lparr>faults := 1\<rparr>)"
proof -
  have "two_arguments list_of_ints (mem pointers_in_memory)"
    using pointers_in_memory_strings by (simp add: two_arguments_def pointers_in_memory_loads)
      (simp add: cap_simps list_of_ints_def stack_buffer_def)
  then show ?thesis
    using va_list_global_passes [of list_of_ints pointers_in_memory] pointers_in_memory_strings(3)
    by (simp add: pointers_in_memory_def)
qed


section \<open>Numbers and pointers mixed\<close>

text \<open>\<open>n\<close> pairs as the caller passes them, with the pointers of the array that it takes them from.\<close>

definition pairs_passed :: "va_layout \<Rightarrow> cap \<Rightarrow> cap \<Rightarrow> cap \<Rightarrow> nat \<Rightarrow> memory \<Rightarrow> bool" where
  "pairs_passed va ptrs str ap n m \<longleftrightarrow>
     va_layout_ok va \<and> spans ap (64 * n) \<and> unat (cap_base ap) mod 32 = 0 \<and>
     has_perm ap PERM_LOAD \<and> has_perm ap PERM_LOAD_CAPABILITY \<and>
     lacks_perm ap PERM_STORE \<and> lacks_perm ap PERM_STORE_CAPABILITY \<and> cap_tag str \<and>
     list_all (\<lambda>i. word_at m (cap_base ap + of_nat (64 * i + int_pos va)) = (of_nat i :: u32) \<and>
       load_cap (plus_ptr ap (of_nat (64 * i + 32))) m = Inr (plus_ptr str (of_nat i)) \<and>
       load_cap (plus_ptr ptrs (of_nat (32 * i))) m = Inr (plus_ptr str (of_nat i)) \<and>
       can PERM_LOAD 1 (plus_ptr str (of_nat i))) [0..<n]"

lemma print_pairs_run:
  assumes "pairs_passed va ptrs str ap n (mem s)" and "k \<le> n"
  shows "print_pairs va r ptrs str [k..<n] (plus_ptr ap (of_nat (64 * k))) s = Inr ((), s)"
  using assms(2)
proof (induction k rule: inc_induct)
  case (step k)
  have p: "va_layout_ok va" "spans ap (64 * n)" "unat (cap_base ap) mod 32 = 0" "has_perm ap PERM_LOAD" "cap_tag str"
    "word_at (mem s) (cap_base ap + of_nat (64 * k + int_pos va)) = (of_nat k :: u32)"
    "load_cap (plus_ptr ap (of_nat (64 * k + 32))) (mem s) = Inr (plus_ptr str (of_nat k))"
    "load_cap (plus_ptr ptrs (of_nat (32 * k))) (mem s) = Inr (plus_ptr str (of_nat k))"
    "can PERM_LOAD 1 (plus_ptr str (of_nat k))"
    using assms(1) step.hyps by (simp_all add: pairs_passed_def list_all_iff)
  have slot: "0 < int_slot va" "int_slot va \<le> 32" using p(1) by (simp_all add: va_layout_ok_def)
  have "unat (cap_base ap) mod 4 = 0" using p(3) by presburger
  then have i: "va_int va (r_int r) (plus_ptr ap (of_nat (64 * k))) s =
      Inr ((of_nat k, plus_ptr ap (of_nat (64 * k + int_slot va))), s)"
    using va_int_inside [OF p(1,2) _ p(4), of "64 * k" "r_int r" s] slot step.hyps p(6)
    by (simp add: mod_mult_left_eq [symmetric] del: of_nat_mult of_nat_add)
  have q: "32 * (2 * k + 1) = 64 * k + 32" "32 * (2 * k + 1 + 1) = 64 * Suc k" by simp_all
  have "va_pointer (r_cap r) (plus_ptr ap (of_nat (64 * k + int_slot va))) s =
      Inr ((plus_ptr str (of_nat k), plus_ptr ap (of_nat (64 * Suc k))), s)"
    using va_pointer_at [OF p(2,3), of "64 * k + int_slot va" "2 * k + 1" "r_cap r" s] slot step.hyps p(7)
    unfolding q by (simp add: reading_def del: of_nat_mult of_nat_add)
  moreover have "[k..<n] = k # [Suc k..<n]" using step.hyps by (simp add: upt_conv_Cons)
  moreover have "reading count_faults (get_data (plus_ptr str (of_nat k))) (r_byte r) s = Inr (bytes (mem s) (cap_addr str + of_nat k), s)"
    using get_byte [OF p(9)] by (simp add: reading_def)
  ultimately show ?case
    using i p(5,8) step.IH by (simp add: reading_def cap_eq_def del: of_nat_mult of_nat_add)
qed simp

lemma va_args_printstuff_run:
  assumes "pairs_passed va ptrs str ap n (mem s)"
  shows "va_args_printstuff va r ptrs str n ap s = Inr ((), s)"
proof -
  have "cap_length ap = of_nat (64 * n)"
    using assms word_eq_of_nat [of "cap_length ap"] by (simp add: pairs_passed_def spans_def)
  then show ?thesis
    using assms print_pairs_run [OF assms, of 0 r] by (simp add: va_args_printstuff_def pairs_passed_def)
qed

text \<open>
  A function that takes any number of pairs of a number and a pointer finds them all, in
  order: the numbers count up, the pointers are valid and equal to those of the array, no load
  faults and nothing is changed. The test calls it with eight.
\<close>

theorem va_args_passes:
  assumes "pairs_passed va ptrs str ap n (mem s)" and "faults s = 0"
  shows "va_args_printstuff va r ptrs str n ap s = Inr ((), s) \<and>
    (if n = 8 then clang_purecap_va_args va r ptrs str ap s = Inr ((), s) else True)"
  using va_args_printstuff_run [OF assms(1), of r] assms(2) by (auto simp: clang_purecap_va_args_def)

definition pair_in_memory :: machine where
  "pair_in_memory = \<lparr>mem =
     write_granule 4128 (cap_image (string_pointer 8192), True)
      (write_granule 4160 (cap_image (string_pointer 8192), True) \<lparr>bytes = (\<lambda>_. 0), tags = (\<lambda>_. False)\<rparr>), faults = 0\<rparr>"

theorem va_args_passes_witness:
  "va_args_printstuff \<lparr>int_slot = 8, int_pos = 4\<rparr> \<lparr>r_int = 0, r_byte = 0, r_cap = null_cap\<rparr>
     (stack_buffer\<lparr>cap_base := 4160, cap_length := 32\<rparr>) (string_pointer 8192) 1
     (stack_buffer\<lparr>cap_perms := 0x14, cap_length := 64\<rparr>) pair_in_memory = Inr ((), pair_in_memory)"
proof -
  have i: "image_cap (cap_image (string_pointer a), True) = string_pointer a" for a
    using image_cap_image [of "string_pointer a"] by (simp add: string_pointer_def stack_buffer_def)
  have "word_at (mem pair_in_memory) 4100 = (0 :: u32)"
    by (simp add: word_at_def read_bytes_def pair_in_memory_def write_granule_def Let_def bytes_write_bytes
        in_region_def be_nat_def upt_rec)
  moreover have "load_cap (plus_ptr (stack_buffer\<lparr>cap_perms := 0x14, cap_length := 64\<rparr>) 32) (mem pair_in_memory) = Inr (string_pointer 8192)"
    "load_cap (stack_buffer\<lparr>cap_base := 4160, cap_length := 32\<rparr>) (mem pair_in_memory) = Inr (string_pointer 8192)"
    by (simp_all add: cap_simps load_cap_def access_check_def stack_buffer_def plus_ptr_def pair_in_memory_def
        read_write_granule read_granule_other i)
  ultimately have "pairs_passed \<lparr>int_slot = 8, int_pos = 4\<rparr> (stack_buffer\<lparr>cap_base := 4160, cap_length := 32\<rparr>)
      (string_pointer 8192) (stack_buffer\<lparr>cap_perms := 0x14, cap_length := 64\<rparr>) 1 (mem pair_in_memory)"
    by (simp add: pairs_passed_def va_layout_ok_def)
      (simp add: cap_simps stack_buffer_def string_pointer_def lacks_perm_def)
  then show ?thesis
    using va_args_passes [of _ _ _ _ 1 pair_in_memory] by (simp add: pair_in_memory_def)
qed

end
