(* ===== verification/HybridTests.thy ===== *)
theory HybridTests
  imports FaultTests
begin

text \<open>
  The tests of \<open>cheri-c-tests/clang-hybrid\<close> that mix capabilities with plain pointers:
  \<open>load_test.h\<close> and \<open>store_test.h\<close> with the programs that include them, and
  \<open>clang_hybrid_opaque.c\<close>, \<open>clang_hybrid_struct.c\<close>, \<open>clang_hybrid_intcap.c\<close>, \<open>clang_hybrid_cast.c\<close>
  and \<open>clang_hybrid_sub.c\<close>. A plain pointer is an address; it is dereferenced through the default
  data capability.
\<close>

definition through :: "cap \<Rightarrow> u64 \<Rightarrow> cap" where
  "through ddc a = ddc\<lparr>cap_offset := a\<rparr>"

section \<open>The tests\<close>

text \<open>
  \<open>load_test.h\<close> and \<open>store_test.h\<close> for a TYPE of any width; signed and unsigned types have the same
  words. \<open>element\<close> is the distance in bytes from the start of the array to its \<open>i\<close>th element.
\<close>

definition element :: "'a::len word \<Rightarrow> nat \<Rightarrow> u64" where
  "element (_ :: 'a word) i = of_nat (LENGTH('a) div 8 * i)"

definition same_element :: "cap \<Rightarrow> cap \<Rightarrow> u64 \<Rightarrow> 'a::len word \<Rightarrow> nat \<Rightarrow> unit prog" where
  "same_element datacp ddc data old i =
     bind (reading count_faults (get_data (plus_ptr datacp (element old i))) old) (\<lambda>a.
     bind (reading count_faults (get_data (through ddc (data + element old i))) old) (\<lambda>b.
     assert_that (a = b)))"

definition load_test :: "cap \<Rightarrow> u64 \<Rightarrow> 'a::len word \<Rightarrow> unit prog" where
  "load_test ddc data old =
     (let datacp = to_cap ddc data in in_order (map (same_element datacp ddc data old) [0..<8]))"

definition store_step :: "cap \<Rightarrow> u64 \<Rightarrow> 'a::len word \<Rightarrow> nat \<Rightarrow> unit prog" where
  "store_step ddc data old i =
     (let datacp = to_cap ddc data in
      bind (same_element datacp ddc data old i) (\<lambda>_.
      bind (writing count_faults (put_data (through ddc (data + element old i)) (of_nat (i * 42) :: 'a word))) (\<lambda>_.
      bind (same_element datacp ddc data old i) (\<lambda>_.
      bind (reading count_faults (get_data (plus_ptr datacp (element old i))) old) (\<lambda>a.
      bind (assert_that (a = of_nat (i * 42))) (\<lambda>_.
      bind (writing count_faults (put_data (plus_ptr datacp (element old i)) (of_nat (102442 * i) :: 'a word))) (\<lambda>_.
      bind (same_element datacp ddc data old i) (\<lambda>_.
      bind (reading count_faults (get_data (through ddc (data + element old i))) old) (\<lambda>b.
      assert_that (b = of_nat (i * 102442)))))))))))"

definition store_test :: "cap \<Rightarrow> u64 \<Rightarrow> 'a::len word \<Rightarrow> unit prog" where
  "store_test ddc data old = in_order (map (store_step ddc data old) [0..<8])"

text \<open>The places of the eight arrays, by the names of the types.\<close>

record arrays =
  i8_data :: u64
  u8_data :: u64
  i16_data :: u64
  u16_data :: u64
  i32_data :: u64
  u32_data :: u64
  i64_data :: u64
  u64_data :: u64

definition clang_hybrid_load_data :: "cap \<Rightarrow> arrays \<Rightarrow> u64 \<Rightarrow> unit prog" where
  "clang_hybrid_load_data ddc d old =
     in_order [load_test ddc (u8_data d) (ucast old :: 8 word), load_test ddc (i8_data d) (ucast old :: 8 word),
       load_test ddc (u16_data d) (ucast old :: 16 word), load_test ddc (i16_data d) (ucast old :: 16 word),
       load_test ddc (u32_data d) (ucast old :: 32 word), load_test ddc (i32_data d) (ucast old :: 32 word),
       load_test ddc (u64_data d) old, load_test ddc (i64_data d) old,
       assert_state (\<lambda>s. faults s = 0)]"

definition clang_hybrid_store_data :: "cap \<Rightarrow> arrays \<Rightarrow> u64 \<Rightarrow> unit prog" where
  "clang_hybrid_store_data ddc d old =
     in_order [store_test ddc (u8_data d) (ucast old :: 8 word), store_test ddc (i8_data d) (ucast old :: 8 word),
       store_test ddc (u16_data d) (ucast old :: 16 word), store_test ddc (i16_data d) (ucast old :: 16 word),
       store_test ddc (u32_data d) (ucast old :: 32 word), store_test ddc (i32_data d) (ucast old :: 32 word),
       store_test ddc (u64_data d) old, store_test ddc (i64_data d) old,
       assert_state (\<lambda>s. faults s = 0)]"

text \<open>
  \<open>clang_hybrid_opaque.c\<close>: \<open>sysarch\<close> is what the system call \<open>CHERI_GET_SEALCAP\<close> answers, its result
  and the capability it stores, \<open>example_object\<close> the address of the object.
\<close>

definition example_init :: "int \<times> cap \<Rightarrow> cap prog" where
  "example_init sysarch =
     (case sysarch of (result, sealing_cap) \<Rightarrow>
        bind (assert_that (result = 0)) (\<lambda>_.
        deriving count_faults (cheri_offset_set sealing_cap 4) null_cap))"

definition example_constructor :: "cap \<Rightarrow> u64 \<Rightarrow> cap \<Rightarrow> cap prog" where
  "example_constructor ddc example_object example_key =
     bind (deriving count_faults (cheri_perms_and (to_cap ddc example_object) 0xd) null_cap) (\<lambda>result.
     deriving count_faults (cheri_seal result example_key) null_cap)"

definition example_method :: "cap \<Rightarrow> u32 \<Rightarrow> cap \<Rightarrow> u32 prog" where
  "example_method example_key old obj =
     bind (deriving count_faults (cheri_unseal obj example_key) null_cap) (\<lambda>p.
     bind (reading count_faults (get_data p) old) (\<lambda>x.
     bind (writing count_faults (put_data p (x + 1))) (\<lambda>_.
     reading count_faults (get_data p) old)))"

definition clang_hybrid_opaque :: "cap \<Rightarrow> u64 \<Rightarrow> int \<times> cap \<Rightarrow> u32 \<Rightarrow> unit prog" where
  "clang_hybrid_opaque ddc example_object sysarch old =
     bind (example_init sysarch) (\<lambda>example_key.
     bind (example_constructor ddc example_object example_key) (\<lambda>e.
     bind (example_method example_key old e) (\<lambda>r.
     bind (assert_that (r = 1)) (\<lambda>_.
     assert_state (\<lambda>s. faults s = 0)))))"

text \<open>The small ones; \<open>digits\<close> and \<open>str\<close> are the values of those pointers.\<close>

definition clang_hybrid_struct :: "cap \<Rightarrow> u64 \<Rightarrow> u32 \<Rightarrow> unit prog" where
  "clang_hybrid_struct ddc example_object old =
     bind (reading count_faults (get_data (to_cap ddc example_object)) old) (\<lambda>x.
     bind (assert_that (x = 0)) (\<lambda>_.
     assert_state (\<lambda>s. faults s = 0)))"

definition clang_hybrid_intcap :: "cap \<Rightarrow> u64 \<Rightarrow> u8 \<Rightarrow> unit prog" where
  "clang_hybrid_intcap ddc digits old =
     (let x = int_cap 1; x = plus_ptr x 1 in
      bind (assert_that (cap_eq x (int_cap 2))) (\<lambda>_.
      let x = to_cap ddc digits; x = plus_ptr x 1 in
      bind (reading count_faults (get_data x) old) (\<lambda>c.
      bind (assert_that (c = 0x31)) (\<lambda>_.
      assert_state (\<lambda>s. faults s = 0)))))"

definition clang_hybrid_cast :: "cap \<Rightarrow> u64 \<Rightarrow> unit prog" where
  "clang_hybrid_cast ddc data =
     bind (assert_that (from_cap ddc (to_cap ddc data) = data)) (\<lambda>_. assert_state (\<lambda>s. faults s = 0))"

definition clang_hybrid_sub :: "cap \<Rightarrow> u64 \<Rightarrow> unit prog" where
  "clang_hybrid_sub ddc str =
     (let a = to_cap ddc str; b = plus_ptr a 5; x = (ucast (cap_addr b - cap_addr a) :: u32) in
      bind (assert_that (x = 5)) (\<lambda>_. assert_state (\<lambda>s. faults s = 0)))"


section \<open>Loads and stores of data\<close>

lemma plus_to_cap: "a \<noteq> 0 \<Longrightarrow> plus_ptr (to_cap ddc a) k = through ddc (a + k)"
  by (simp add: to_cap_def through_def plus_ptr_def)

lemma through_can:
  assumes "global_data ddc a w n" and "i < n" and "p = PERM_LOAD \<or> p = PERM_STORE"
  shows "can p w (through ddc (a + of_nat (w * i)))" "cap_addr (through ddc (a + of_nat (w * i))) = a + of_nat (w * i)"
    "unat (a + of_nat (w * i)) = unat a + w * i" "unat a + w * i + w < 2 ^ 64"
proof -
  have "w * Suc i \<le> w * n" using assms(2) by (intro mult_le_mono) simp_all
  then have le: "unat a + w * i + w \<le> unat (cap_length ddc)" using assms(1) by (simp add: global_data_def)
  also have "\<dots> < 2 ^ 64" using unsigned_less [of "cap_length ddc", where ?'a = nat] by simp
  finally show lt: "unat a + w * i + w < 2 ^ 64" .
  then show u: "unat (a + of_nat (w * i)) = unat a + w * i" by (intro unat_add_of_nat) simp
  show "cap_addr (through ddc (a + of_nat (w * i))) = a + of_nat (w * i)"
    using assms(1) by (simp add: through_def cap_addr_def global_data_def)
  have "unat a mod w = 0" using assms(1) by (simp add: global_data_def)
  then have "(unat a + w * i) mod w = 0" by (metis mod_mult_self2)
  then show "can p w (through ddc (a + of_nat (w * i)))"
    using assms(1,3) le u
    by (auto simp: can_def global_data_def through_def usable_def has_perm_def in_bounds_def cap_addr_def simp del: of_nat_mult)
qed

lemma same_element_run:
  fixes old :: "'a::len word"
  assumes "global_data ddc a (LENGTH('a) div 8) n" and "i < n"
  shows "same_element (to_cap ddc a) ddc a old i s = Inr ((), s)"
  using assms(1) through_can(1) [OF assms, of PERM_LOAD]
  by (simp add: same_element_def element_def plus_to_cap global_data_def reading_can del: of_nat_mult)

lemma load_test_run:
  fixes old :: "'a::len word"
  assumes "global_data ddc a (LENGTH('a) div 8) 8"
  shows "load_test ddc a old s = Inr ((), s)"
  using same_element_run [OF assms] by (auto simp: load_test_def Let_def intro!: in_order_unchanged)

text \<open>One element after the other gets its last value; those in front of it keep theirs.\<close>

lemma store_step_run:
  fixes old :: "'a::len word"
  assumes g: "global_data ddc a (LENGTH('a) div 8) n" and "8 dvd LENGTH('a)" and i: "i < n"
  shows "\<exists>m. store_step ddc a old i s = Inr ((), s\<lparr>mem := m\<rparr>) \<and>
    (\<forall>j\<le>i. word_at m (a + element old j) =
      (if j = i then of_nat (102442 * i) else word_at (mem s) (a + element old j) :: 'a word))"
proof -
  let ?a = "\<lambda>j. a + element old j"
  define m1 where "m1 = set_word (?a i) (of_nat (i * 42) :: 'a word) (mem s)"
  define m2 where "m2 = set_word (?a i) (of_nat (102442 * i) :: 'a word) m1"
  note t = through_can [OF g, folded element_def [of old]]
  have same: "same_element (to_cap ddc a) ddc a old i s' = Inr ((), s')" for s'
    by (rule same_element_run [OF g i])
  have nz: "a \<noteq> 0" using g by (simp add: global_data_def)
  have w: "word_at m1 (?a i) = (of_nat (i * 42) :: 'a word)" "word_at m2 (?a i) = (of_nat (102442 * i) :: 'a word)"
    using t(3,4) [OF i, of PERM_LOAD] assms(2) by (auto simp: m1_def m2_def intro!: word_at_same)
  have "store_step ddc a old i s = Inr ((), s\<lparr>mem := m2\<rparr>)"
    using same w t(1) [OF i] t(2) [OF i, of PERM_LOAD] nz
    by (simp add: store_step_def Let_def plus_to_cap reading_can writing_can m1_def m2_def mult.commute del: of_nat_mult)
  moreover have "word_at m2 (?a j) = (word_at (mem s) (?a j) :: 'a word)" if "j < i" for j
  proof -
    have "LENGTH('a) div 8 * Suc j \<le> LENGTH('a) div 8 * i" using that by (intro mult_le_mono) simp_all
    then show ?thesis
      using t(3,4) [OF i, of PERM_LOAD] t(3,4) [of j PERM_LOAD] that i
      by (simp add: m1_def m2_def word_at_apart)
  qed
  ultimately show ?thesis using w(2) by (auto intro!: exI [of _ m2])
qed

lemma store_test_prefix:
  fixes old :: "'a::len word"
  assumes "global_data ddc a (LENGTH('a) div 8) n" and "8 dvd LENGTH('a)" and "k \<le> n"
  shows "\<exists>m. in_order (map (store_step ddc a old) [0..<k]) s = Inr ((), s\<lparr>mem := m\<rparr>) \<and>
    (\<forall>j<k. word_at m (a + element old j) = (of_nat (102442 * j) :: 'a word))"
  using assms(3)
proof (induction k)
  case 0
  show ?case by (rule exI [of _ "mem s"]) (cases s, simp)
next
  case (Suc k)
  then obtain m where m: "in_order (map (store_step ddc a old) [0..<k]) s = Inr ((), s\<lparr>mem := m\<rparr>)"
      "\<forall>j<k. word_at m (a + element old j) = (of_nat (102442 * j) :: 'a word)"
    by auto
  obtain m' where m': "store_step ddc a old k (s\<lparr>mem := m\<rparr>) = Inr ((), s\<lparr>mem := m'\<rparr>)"
      "\<forall>j\<le>k. word_at m' (a + element old j) = (if j = k then of_nat (102442 * k) else word_at m (a + element old j) :: 'a word)"
    using store_step_run [OF assms(1,2), of k old "s\<lparr>mem := m\<rparr>"] Suc.prems by auto
  have "in_order (map (store_step ddc a old) [0..<Suc k]) s = Inr ((), s\<lparr>mem := m'\<rparr>)"
    using m(1) m'(1) by (simp add: in_order_append)
  then show ?case using m(2) m'(2) by (auto simp: less_Suc_eq_le intro!: exI [of _ m'] simp del: of_nat_mult)
qed

lemmas store_test_run = store_test_prefix [where n = 8 and k = 8, folded store_test_def, simplified]


text \<open>Eight arrays of eight elements, of the sizes of their types. They may overlap.\<close>

definition arrays_ok :: "cap \<Rightarrow> arrays \<Rightarrow> bool" where
  "arrays_ok ddc d \<longleftrightarrow>
     global_data ddc (i8_data d) 1 8 \<and> global_data ddc (u8_data d) 1 8 \<and>
     global_data ddc (i16_data d) 2 8 \<and> global_data ddc (u16_data d) 2 8 \<and>
     global_data ddc (i32_data d) 4 8 \<and> global_data ddc (u32_data d) 4 8 \<and>
     global_data ddc (i64_data d) 8 8 \<and> global_data ddc (u64_data d) 8 8"

definition keeps_faults :: "unit prog \<Rightarrow> bool" where
  "keeps_faults p \<longleftrightarrow> (\<forall>s. \<exists>m. p s = Inr ((), s\<lparr>mem := m\<rparr>))"

lemma keeps_faults_in_order: "list_all keeps_faults ps \<Longrightarrow> keeps_faults (in_order ps)"
proof (induction ps)
  case Nil
  have "in_order [] s = Inr ((), s\<lparr>mem := mem s\<rparr>)" for s by (cases s) simp
  then show ?case unfolding keeps_faults_def by blast
next
  case (Cons p ps)
  show ?case unfolding keeps_faults_def
  proof
    fix s
    obtain m where m: "p s = Inr ((), s\<lparr>mem := m\<rparr>)" using Cons.prems by (auto simp: keeps_faults_def)
    have "keeps_faults (in_order ps)" using Cons by simp
    then obtain m' where "in_order ps (s\<lparr>mem := m\<rparr>) = Inr ((), s\<lparr>mem := m\<rparr>\<lparr>mem := m'\<rparr>)"
      unfolding keeps_faults_def by blast
    then show "\<exists>m. in_order (p # ps) s = Inr ((), s\<lparr>mem := m\<rparr>)" using m by auto
  qed
qed

lemma store_test_keeps:
  fixes old :: "'a::len word"
  assumes "global_data ddc a (LENGTH('a) div 8) 8" and "8 dvd LENGTH('a)"
  shows "keeps_faults (store_test ddc a old)"
  unfolding keeps_faults_def using store_test_run [OF assms] by blast

text \<open>
  C30. The tests of loads and of stores pass for all eight types wherever their arrays are: through
  the capability and through the plain pointer the same elements are seen, also after a store
  through either, numbers are cut to the width of the type, and nothing faults. The array stored
  to last holds the last values.
\<close>

theorem hybrid_data_tests_pass:
  assumes "arrays_ok ddc d" and "faults s = 0"
  shows "clang_hybrid_load_data ddc d old s = Inr ((), s) \<and>
    (\<exists>m. clang_hybrid_store_data ddc d old s = Inr ((), s\<lparr>mem := m\<rparr>) \<and>
       list_all (\<lambda>j. word_at m (i64_data d + of_nat (8 * j)) = (of_nat (102442 * j) :: u64)) [0..<8])"
proof
  show "clang_hybrid_load_data ddc d old s = Inr ((), s)"
    unfolding clang_hybrid_load_data_def
    using assms by (intro in_order_unchanged) (auto simp: arrays_ok_def load_test_run assert_that_def)
  let ?ts = "[store_test ddc (u8_data d) (ucast old :: 8 word), store_test ddc (i8_data d) (ucast old :: 8 word),
       store_test ddc (u16_data d) (ucast old :: 16 word), store_test ddc (i16_data d) (ucast old :: 16 word),
       store_test ddc (u32_data d) (ucast old :: 32 word), store_test ddc (i32_data d) (ucast old :: 32 word),
       store_test ddc (u64_data d) old]"
  have "keeps_faults (in_order ?ts)"
    using assms(1) by (intro keeps_faults_in_order) (simp add: arrays_ok_def store_test_keeps)
  then obtain m where m: "in_order ?ts s = Inr ((), s\<lparr>mem := m\<rparr>)" by (auto simp: keeps_faults_def)
  obtain m' where m': "store_test ddc (i64_data d) old (s\<lparr>mem := m\<rparr>) = Inr ((), s\<lparr>mem := m'\<rparr>)"
      "\<forall>j<8. word_at m' (i64_data d + element old j) = (of_nat (102442 * j) :: u64)"
    using store_test_run [of ddc "i64_data d" old "s\<lparr>mem := m\<rparr>"] assms(1) by (auto simp: arrays_ok_def)
  have "clang_hybrid_store_data ddc d old s =
      bind (in_order ?ts) (\<lambda>_. in_order [store_test ddc (i64_data d) old, assert_state (\<lambda>s. faults s = 0)]) s"
    by (simp only: clang_hybrid_store_data_def in_order_append [symmetric] append.simps)
  also have "\<dots> = Inr ((), s\<lparr>mem := m'\<rparr>)" using m m'(1) assms(2) by (simp del: in_order.simps) (simp add: assms(2))
  finally show "\<exists>m. clang_hybrid_store_data ddc d old s = Inr ((), s\<lparr>mem := m\<rparr>) \<and>
       list_all (\<lambda>j. word_at m (i64_data d + of_nat (8 * j)) = (of_nat (102442 * j) :: u64)) [0..<8]"
    using m'(2) by (auto simp: list_all_iff element_def simp del: of_nat_mult)
qed

definition example_arrays :: arrays where
  "example_arrays = \<lparr>i8_data = 8192, u8_data = 8200, i16_data = 8208, u16_data = 8224, i32_data = 8240,
     u32_data = 8272, i64_data = 8304, u64_data = 8368\<rparr>"

theorem hybrid_data_tests_pass_witness:
  "clang_hybrid_load_data whole_memory example_arrays 5 empty_machine = Inr ((), empty_machine)"
proof -
  have "arrays_ok whole_memory example_arrays"
    by (simp add: cap_simps arrays_ok_def example_arrays_def whole_memory_def global_data_def)
  then show ?thesis using hybrid_data_tests_pass [of whole_memory example_arrays empty_machine 5] by (simp add: stack_buffer_simps)
qed


section \<open>Sealed pointers\<close>

text \<open>A capability that may seal with the type 4 once its offset is 4.\<close>

definition sealing_ok :: "cap \<Rightarrow> bool" where
  "sealing_ok k \<longleftrightarrow> usable k \<and> has_perm k PERM_SEAL \<and> in_bounds (k\<lparr>cap_offset := 4\<rparr>) 1 \<and> unat (cap_base k + 4) < 2 ^ 24"

definition opaque_handle :: "cap \<Rightarrow> u64 \<Rightarrow> cap \<Rightarrow> cap" where
  "opaque_handle ddc a k = ddc\<lparr>cap_offset := a, cap_perms := cap_perms ddc AND 0xd, cap_sealed := True,
     cap_otype := ucast (cap_base k + 4)\<rparr>"

lemma kept_perms: "has_perm c p \<Longrightarrow> p AND 0xd = p \<Longrightarrow> (cap_perms c AND 0xd) AND p = p"
  by (simp add: has_perm_def) (metis and.assoc and.commute)

lemma example_constructor_run:
  assumes "global_data ddc a 4 1" and "sealing_ok k"
  shows "example_constructor ddc a (k\<lparr>cap_offset := 4\<rparr>) s = Inr (opaque_handle ddc a k, s)"
  using assms
  by (simp add: example_constructor_def global_data_def sealing_ok_def usable_def to_cap_def cheri_perms_and_def
      cheri_seal_def has_perm_def cap_addr_def opaque_handle_def)

lemma small_otype: "unat a < 2 ^ 24 \<Longrightarrow> ucast (ucast a :: 24 word) = (a :: u64)"
  by (rule word_unat_eq_iff [THEN iffD2])
    (simp add: unsigned_ucast_eq unsigned_take_bit_eq take_bit_nat_eq_self)

lemma bind_stopped: "bind (bind (assert_that False) f) g s = Inl Assertion"
  by (simp add: bind_def assert_that_def)

lemma opaque_handle_unsealed:
  assumes g: "global_data ddc a 4 1" and k: "sealing_ok k"
  shows "\<exists>p. cheri_unseal (opaque_handle ddc a k) (k\<lparr>cap_offset := 4\<rparr>) = Inr p \<and>
    can PERM_LOAD 4 p \<and> can PERM_STORE 4 p \<and> cap_addr p = a"
proof -
  let ?p = "ddc\<lparr>cap_offset := a, cap_perms := cap_perms ddc AND 0xd, cap_otype := 0\<rparr>"
  have u: "cheri_unseal (opaque_handle ddc a k) (k\<lparr>cap_offset := 4\<rparr>) = Inr ?p"
    using g k by (simp add: cheri_unseal_def opaque_handle_def sealing_ok_def global_data_def usable_def has_perm_def
        cap_addr_def small_otype)
  have l: "PERM_LOAD AND 0xd = PERM_LOAD" "PERM_STORE AND 0xd = PERM_STORE" by (simp_all add: perm_defs)
  have "has_perm ?p PERM_LOAD" "has_perm ?p PERM_STORE"
    using g kept_perms [OF _ l(1), of ddc] kept_perms [OF _ l(2), of ddc] by (simp_all add: global_data_def has_perm_def)
  then show ?thesis
    using g u by (simp add: can_def global_data_def usable_def in_bounds_def cap_addr_def)
qed

lemma example_method_run:
  assumes g: "global_data ddc a 4 1" and k: "sealing_ok k"
  shows "example_method (k\<lparr>cap_offset := 4\<rparr>) old (opaque_handle ddc a k) s =
    Inr (word_at (mem s) a + 1, s\<lparr>mem := set_word a (word_at (mem s) a + 1 :: u32) (mem s)\<rparr>)"
proof -
  obtain p where p: "cheri_unseal (opaque_handle ddc a k) (k\<lparr>cap_offset := 4\<rparr>) = Inr p"
    "can PERM_LOAD 4 p" "can PERM_STORE 4 p" "cap_addr p = a"
    using opaque_handle_unsealed [OF assms] by blast
  have "unat a + 4 \<le> 2 ^ 64"
    using g unsigned_less [of "cap_length ddc", where ?'a = nat] by (simp add: global_data_def)
  then show ?thesis
    using p by (simp add: example_method_def reading_can writing_can word_at_same)
qed

text \<open>
  C28. The test of opaque pointers passes when \<open>sysarch\<close> succeeds and hands out a capability that may
  seal with the type 4 of its space, and leaves 1 in the object, which held 0; when \<open>sysarch\<close> fails it
  stops at its assertion. The handle it makes is sealed with that type and points to the object with the
  rights of \<open>ddc\<close> that the constructor keeps; every access through it is a seal fault, and only a
  capability that may seal and points to the type unseals it. Unsealed with the key of the test it
  reads and writes the object.
\<close>

theorem hybrid_opaque_passes:
  assumes "global_data ddc a 4 1" and "sealing_ok k" and "word_at (mem s) a = (0 :: u32)" and "faults s = 0"
  shows "clang_hybrid_opaque ddc a (result, k) old s =
      (if result = 0 then Inr ((), s\<lparr>mem := set_word a (1 :: u32) (mem s)\<rparr>) else Inl Assertion) \<and>
    (\<exists>key e p. example_init (0, k) s = Inr (key, s) \<and> example_constructor ddc a key s = Inr (e, s) \<and>
       cap_tag e \<and> cap_sealed e \<and> cap_addr e = a \<and> cap_perms e = cap_perms ddc AND 0xd \<and>
       unat (cap_otype e) = unat (cap_base k + 4) \<and>
       (\<forall>perm f n. access_check e perm f n = Some Seal_fault) \<and>
       (\<forall>q c. cheri_unseal e q = Inr c \<longrightarrow> usable q \<and> has_perm q PERM_SEAL \<and> cap_addr q = cap_base k + 4) \<and>
       cheri_unseal e key = Inr p \<and> can PERM_LOAD 4 p \<and> can PERM_STORE 4 p \<and> cap_addr p = a)"
proof
  have i: "cheri_offset_set k 4 = Inr (k\<lparr>cap_offset := 4\<rparr>)"
    using assms(2) by (simp add: cheri_offset_set_def sealing_ok_def usable_def)
  then show "clang_hybrid_opaque ddc a (result, k) old s =
      (if result = 0 then Inr ((), s\<lparr>mem := set_word a (1 :: u32) (mem s)\<rparr>) else Inl Assertion)"
    using example_constructor_run [OF assms(1,2)] example_method_run [OF assms(1,2), of old s] assms(3,4)
    by (cases "result = 0") (simp_all add: clang_hybrid_opaque_def example_init_def bind_stopped)
  have "\<forall>q c. cheri_unseal (opaque_handle ddc a k) q = Inr c \<longrightarrow> usable q \<and> has_perm q PERM_SEAL \<and> cap_addr q = cap_base k + 4"
    using assms(2) by (auto simp: cheri_unseal_def opaque_handle_def usable_def sealing_ok_def small_otype split: if_splits)
  moreover have "\<forall>perm f n. access_check (opaque_handle ddc a k) perm f n = Some Seal_fault"
    using assms(1) by (simp add: access_check_def opaque_handle_def global_data_def usable_def)
  moreover have "unat (cap_otype (opaque_handle ddc a k)) = unat (cap_base k + 4)"
    using assms(2) by (simp add: opaque_handle_def sealing_ok_def unsigned_ucast_eq take_bit_nat_eq_self)
  moreover have "cap_tag (opaque_handle ddc a k)" "cap_sealed (opaque_handle ddc a k)" "cap_addr (opaque_handle ddc a k) = a"
    "cap_perms (opaque_handle ddc a k) = cap_perms ddc AND 0xd"
    using assms(1) by (simp_all add: opaque_handle_def global_data_def usable_def cap_addr_def)
  moreover have "example_init (0, k) s = Inr (k\<lparr>cap_offset := 4\<rparr>, s)" by (simp add: example_init_def i)
  ultimately show "\<exists>key e p. example_init (0, k) s = Inr (key, s) \<and> example_constructor ddc a key s = Inr (e, s) \<and>
       cap_tag e \<and> cap_sealed e \<and> cap_addr e = a \<and> cap_perms e = cap_perms ddc AND 0xd \<and>
       unat (cap_otype e) = unat (cap_base k + 4) \<and>
       (\<forall>perm f n. access_check e perm f n = Some Seal_fault) \<and>
       (\<forall>q c. cheri_unseal e q = Inr c \<longrightarrow> usable q \<and> has_perm q PERM_SEAL \<and> cap_addr q = cap_base k + 4) \<and>
       cheri_unseal e key = Inr p \<and> can PERM_LOAD 4 p \<and> can PERM_STORE 4 p \<and> cap_addr p = a"
    using example_constructor_run [OF assms(1,2)] opaque_handle_unsealed [OF assms(1,2)] by blast
qed

theorem hybrid_opaque_passes_witness:
  "clang_hybrid_opaque whole_memory 8192 (0, whole_memory) 3 empty_machine =
    Inr ((), empty_machine\<lparr>mem := set_word 8192 (1 :: u32) (mem empty_machine)\<rparr>)"
proof -
  have "global_data whole_memory 8192 4 1" "sealing_ok whole_memory"
    by (simp_all add: cap_simps sealing_ok_def whole_memory_def global_data_def)
  moreover have "word_at (mem empty_machine) 8192 = (0 :: u32)"
    by (simp add: word_at_def read_bytes_def empty_machine_def be_nat_def upt_rec)
  ultimately show ?thesis
    using hybrid_opaque_passes [of whole_memory 8192 whole_memory empty_machine 0 3] by (simp add: stack_buffer_simps)
qed

section \<open>The small tests\<close>

lemma hybrid_struct_passes:
  assumes "global_data ddc a 4 1" and "word_at (mem s) a = (0 :: u32)" and "faults s = 0"
  shows "clang_hybrid_struct ddc a old s = Inr ((), s)"
proof -
  have "can PERM_LOAD 4 (to_cap ddc a)" "cap_addr (to_cap ddc a) = a"
    using through_can [OF assms(1), of 0 PERM_LOAD] plus_to_cap [of a ddc 0] assms(1) by (simp_all add: global_data_def)
  then show ?thesis using assms(2,3) by (simp add: clang_hybrid_struct_def reading_can)
qed

lemma hybrid_intcap_passes:
  assumes "global_data ddc a 1 2" and "bytes (mem s) (a + 1) = 0x31" and "faults s = 0"
  shows "clang_hybrid_intcap ddc a old s = Inr ((), s)"
proof -
  have "a \<noteq> 0" using assms(1) by (simp add: global_data_def)
  then have "can PERM_LOAD 1 (plus_ptr (to_cap ddc a) 1)" "cap_addr (plus_ptr (to_cap ddc a) 1) = a + 1"
    using through_can [OF assms(1), of 1 PERM_LOAD] by (simp_all add: plus_to_cap del: plus_ptr_simps)
  moreover have "cap_eq (plus_ptr (int_cap 1) 1) (int_cap 2)"
    by (simp add: cap_eq_def int_cap_def cap_addr_def plus_ptr_def)
  ultimately show ?thesis
    using assms(2,3) by (simp add: clang_hybrid_intcap_def Let_def reading_can word_at_def read_bytes_def be_nat_def)
qed

lemma hybrid_cast_and_sub_pass:
  assumes "global_data ddc a 1 6" and "faults s = 0"
  shows "clang_hybrid_cast ddc a s = Inr ((), s)" and "clang_hybrid_sub ddc a s = Inr ((), s)"
  using assms by (simp_all add: clang_hybrid_cast_def clang_hybrid_sub_def to_cap_def from_cap_def cap_addr_def
      global_data_def usable_def Let_def)

end
