(* ===== verification/GlobalsTests.thy ===== *)
theory GlobalsTests
  imports FaultTests
begin

text \<open>
  The tests that look at the pointers the start-up code leaves in globals:
  \<open>clang_purecap_init.c\<close> and \<open>clang_purecap_badcall.c\<close>, run on the memory that
  \<open>crt_init_globals\<close> returns. The places of the globals and the addresses the compiler forms of
  them are arguments, and so is the code behind an address.
\<close>

section \<open>Calls\<close>

text \<open>A call through a pointer fetches an instruction, which needs the permission to execute.\<close>

definition call :: "cap \<Rightarrow> (u64 \<Rightarrow> unit prog) \<Rightarrow> unit prog" where
  "call f code =
     (case access_check f PERM_EXECUTE Execute_fault 4 of
        Some e \<Rightarrow> trap count_faults e ()
      | None \<Rightarrow> code (cap_addr f))"

section \<open>The tests\<close>

record init_globals =
  bar_at :: cap
  x_f_at :: cap
  f_at :: cap
  called_at :: cap
  foo_address :: cap
  fn_address :: cap

definition test_fn_ptr :: "u32 \<Rightarrow> cap \<Rightarrow> unit prog" where
  "test_fn_ptr old called =
     bind (reading count_faults (get_data called) old) (\<lambda>n. writing count_faults (put_data called (n + 1)))"

definition clang_purecap_init ::
  "init_globals \<Rightarrow> cap \<Rightarrow> (u64 \<Rightarrow> unit prog) \<Rightarrow> cap \<Rightarrow> u8 \<Rightarrow> u32 \<Rightarrow> unit prog" where
  "clang_purecap_init g pcc code oldp oldb oldi =
     bind (reading count_faults (load_cap (bar_at g)) oldp) (\<lambda>bar.
     bind (in_order (map (\<lambda>k. bind (reading count_faults (get_data (plus_ptr bar (of_nat k))) oldb) (\<lambda>c.
             assert_that (c = [0x30, 0x31, 0x32, 0x33, 0x34, 0] ! k))) [0..<6])) (\<lambda>_.
     bind (assert_that (lacks_perm bar PERM_EXECUTE)) (\<lambda>_.
     bind (assert_that (cap_length bar = 6)) (\<lambda>_.
     bind (assert_that (cap_eq bar (foo_address g))) (\<lambda>_.
     bind (reading count_faults (load_cap (f_at g)) oldp) (\<lambda>f.
     bind (assert_that (cap_eq f (fn_address g))) (\<lambda>_.
     bind (reading count_faults (load_cap (x_f_at g)) oldp) (\<lambda>x_f.
     bind (assert_that (cap_eq x_f (fn_address g))) (\<lambda>_.
     bind (assert_that (has_perm f PERM_EXECUTE)) (\<lambda>_.
     bind (assert_that (cap_length pcc = cap_length f)) (\<lambda>_.
     bind (assert_that (cap_base pcc = cap_base f)) (\<lambda>_.
     bind (call x_f code) (\<lambda>_.
     bind (call f code) (\<lambda>_.
     bind (reading count_faults (get_data (called_at g)) oldi) (\<lambda>n.
     assert_that (n = 2))))))))))))))))"

definition clang_purecap_badcall :: "cap \<Rightarrow> (u64 \<Rightarrow> unit prog) \<Rightarrow> cap \<Rightarrow> unit prog" where
  "clang_purecap_badcall not_a_function_at code oldp =
     bind (call (int_cap 42) code) (\<lambda>_.
     bind (assert_state (\<lambda>s. faults s = 1)) (\<lambda>_.
     bind (reading count_faults (load_cap not_a_function_at) oldp) (\<lambda>f.
     bind (call f code) (\<lambda>_.
     assert_state (\<lambda>s. faults s = 2)))))"

section \<open>After start-up\<close>

text \<open>The bytes that are not in the place of a pointer keep their values.\<close>

definition apart_from_pointers :: "cap \<Rightarrow> capreloc list \<Rightarrow> u64 \<Rightarrow> nat \<Rightarrow> bool" where
  "apart_from_pointers ddc rs a n \<longleftrightarrow>
     list_all (\<lambda>k. list_all (\<lambda>r. granule (a + of_nat k) \<noteq> granule (location ddc r)) rs) [0..<n]"

lemma bytes_other_granule:
  assumes "unat a mod 32 = 0" "granule x \<noteq> granule a" "length (fst v) = 32"
  shows "bytes (write_granule a v m) x = bytes m x"
  using assms granule_region [OF assms(1), of x] aligned_no_wrap [OF assms(1)]
  by (simp add: write_granule_def Let_def bytes_write_bytes)

lemma init_relocs_bytes:
  assumes "usable ddc" "usable pcc" "has_perm ddc PERM_STORE_CAPABILITY"
    and "list_all (reloc_ok ddc) rs" and "list_all (\<lambda>r. granule x \<noteq> granule (location ddc r)) rs"
    and "init_relocs (data_cap ddc) (code_cap pcc) rs m = Inr m'"
  shows "bytes m' x = bytes m x"
  using assms(4-)
proof (induction rs arbitrary: m)
  case (Cons r rs)
  have "unat (location ddc r) mod 32 = 0" using Cons.prems by (simp add: reloc_ok_def location_def)
  then show ?case using Cons by (auto simp: init_reloc_store assms(1-3) bytes_other_granule)
qed simp

lemma crt_init_globals_keeps:
  assumes "usable ddc" "usable pcc" "has_perm ddc PERM_STORE_CAPABILITY" "list_all (reloc_ok ddc) rs"
    and "crt_init_globals ddc pcc rs m = Inr m'" and "apart_from_pointers ddc rs a n"
  shows "read_bytes m' a n = read_bytes m a n"
  using assms(5,6) init_relocs_bytes [OF assms(1-4)]
  by (intro nth_equalityI) (simp_all add: crt_init_globals_loop [OF assms(1,2)] read_bytes_nth apart_from_pointers_def list_all_iff)

lemma pointer_of_global:
  assumes "usable ddc" "usable pcc" "has_perm ddc PERM_STORE_CAPABILITY"
    and "list_all (reloc_ok ddc) rs" "distinct (map (location ddc) rs)"
    and "crt_init_globals ddc pcc rs m = Inr m'" and "r \<in> set rs"
    and "access_check c PERM_LOAD_CAPABILITY Load_capability_fault 32 = None" "cap_addr c = location ddc r"
  shows "load_cap c m' = Inr (global_pointer ddc pcc r)"
proof -
  have "pointer_at m' ddc r = global_pointer ddc pcc r"
    using init_relocs_pointers [OF assms(1-5), of m] assms(1,2,6,7)
    by (auto simp: crt_init_globals_loop list_all_iff)
  moreover have "unat (cap_addr c) mod 32 = 0"
    using assms(4,7,9) by (auto simp: list_all_iff reloc_ok_def location_def)
  ultimately show ?thesis using assms(8,9) by (simp add: load_cap_def pointer_at_def)
qed


text \<open>
  The program of the test, as it is linked: a pointer to the object \<open>foo\<close>, two to the function,
  and the counter, none of them overlapping.
\<close>

definition reads_pointer :: "cap \<Rightarrow> u64 \<Rightarrow> bool" where
  "reads_pointer c a \<longleftrightarrow> access_check c PERM_LOAD_CAPABILITY Load_capability_fault 32 = None \<and> cap_addr c = a"

definition foo_at :: "cap \<Rightarrow> capreloc \<Rightarrow> u64" where
  "foo_at ddc r = cap_base ddc + reloc_object r"

definition linked :: "cap \<Rightarrow> cap \<Rightarrow> capreloc list \<Rightarrow> bool" where
  "linked ddc pcc rs \<longleftrightarrow>
     usable ddc \<and> usable pcc \<and> cap_wf ddc \<and> has_perm ddc PERM_STORE_CAPABILITY \<and> has_perm ddc PERM_LOAD \<and>
     has_perm pcc PERM_EXECUTE \<and> list_all (reloc_ok ddc) rs \<and> distinct (map (location ddc) rs)"

definition init_program :: "cap \<Rightarrow> cap \<Rightarrow> capreloc list \<Rightarrow> capreloc \<Rightarrow> capreloc \<Rightarrow> capreloc \<Rightarrow> init_globals \<Rightarrow> memory \<Rightarrow> bool" where
  "init_program ddc pcc rs bar f x_f g m \<longleftrightarrow>
     linked ddc pcc rs \<and> set [bar, f, x_f] \<subseteq> set rs \<and>
     \<not> is_function bar \<and> reloc_size bar = 6 \<and> reloc_offset bar = 0 \<and>
     is_function f \<and> is_function x_f \<and> reloc_object x_f = reloc_object f \<and> reloc_offset f = 0 \<and> reloc_offset x_f = 0 \<and>
     reads_pointer (bar_at g) (location ddc bar) \<and> reads_pointer (f_at g) (location ddc f) \<and>
     reads_pointer (x_f_at g) (location ddc x_f) \<and>
     cap_tag (foo_address g) \<and> cap_addr (foo_address g) = foo_at ddc bar \<and>
     cap_tag (fn_address g) \<and> cap_addr (fn_address g) = cap_base pcc + reloc_object f \<and>
     in_bounds (pcc\<lparr>cap_offset := reloc_object f\<rparr>) 4 \<and>
     can PERM_LOAD 4 (called_at g) \<and> can PERM_STORE 4 (called_at g) \<and> unat (cap_addr (called_at g)) + 4 \<le> 2 ^ 64 \<and>
     read_bytes m (foo_at ddc bar) 6 = [0x30, 0x31, 0x32, 0x33, 0x34, 0] \<and>
     word_at m (cap_addr (called_at g)) = (0 :: u32) \<and>
     apart_from_pointers ddc rs (foo_at ddc bar) 6 \<and> apart_from_pointers ddc rs (cap_addr (called_at g)) 4"

lemma data_pointer_byte:
  assumes "usable ddc" "cap_wf ddc" "has_perm ddc PERM_LOAD" "reloc_ok ddc r"
    and "\<not> is_function r" "reloc_size r \<noteq> 0" "reloc_offset r = 0" "k < unat (reloc_size r)"
  shows "get_data (plus_ptr (global_pointer ddc pcc r) (of_nat k)) m = (Inr (bytes m (foo_at ddc r + of_nat k)) :: cheri_fault + u8)"
proof -
  let ?p = "plus_ptr (global_pointer ddc pcc r) (of_nat k)"
  have "PERM_LOAD AND PERM_EXECUTE = 0" by (simp add: perm_defs)
  then have p: "has_perm ?p PERM_LOAD"
    using data_cap_perm [OF assms(3)] assms(5,6) by (simp add: global_pointer_def has_perm_def data_cap_def)
  have b: "unat (foo_at ddc r) + unat (reloc_size r) < 2 ^ 64"
    using assms(2,4,5) by (simp add: reloc_ok_def in_bounds_def foo_at_def cap_addr_def cap_wf_def)
  then have "unat (foo_at ddc r + of_nat k) = unat (foo_at ddc r) + k" using assms(8) by (intro unat_add_of_nat) simp
  then have "can PERM_LOAD 1 ?p"
    using p assms b by (simp add: can_def in_bounds_def global_pointer_def usable_def foo_at_def cap_addr_def)
  then show ?thesis
    using assms by (simp add: get_byte global_pointer_def foo_at_def cap_addr_def)
qed

lemma function_pointer_call:
  assumes "usable pcc" "has_perm pcc PERM_EXECUTE" "is_function r" "reloc_offset r = 0"
    and "in_bounds (pcc\<lparr>cap_offset := reloc_object r\<rparr>) 4"
  shows "call (global_pointer ddc pcc r) code = code (cap_base pcc + reloc_object r)"
    and "has_perm (global_pointer ddc pcc r) PERM_EXECUTE"
proof -
  have "bit (cap_perms pcc) 1"
    using arg_cong [OF assms(2) [unfolded has_perm_def], of "\<lambda>w. bit w 1"] by (simp add: perm_defs bit_simps)
  then show e: "has_perm (global_pointer ddc pcc r) PERM_EXECUTE"
    using assms(3) by (simp add: has_perm_def global_pointer_def perm_defs)
      (rule bit_word_eqI, auto simp: bit_simps)
  have "access_check (global_pointer ddc pcc r) PERM_EXECUTE Execute_fault 4 = None"
    using e assms unfolding access_check_def
    by (simp add: global_pointer_def usable_def in_bounds_def cap_addr_def)
  then show "call (global_pointer ddc pcc r) code = code (cap_base pcc + reloc_object r)"
    using assms(3,4) by (simp add: call_def) (simp add: global_pointer_def cap_addr_def)
qed


text \<open>
  C27. The test of initialised globals passes on the memory \<open>crt_init_globals\<close> leaves: the pointer to
  the object reads its bytes, has its bounds and cannot be executed, the two function pointers can,
  have the bounds of the program counter and lead to the function, which is called twice.
\<close>

theorem purecap_init_passes:
  assumes "init_program ddc pcc rs bar f x_f g m" and "crt_init_globals ddc pcc rs m = Inr m'"
    and "code (cap_addr (fn_address g)) = test_fn_ptr old (called_at g)"
  shows "clang_purecap_init g pcc code oldp oldb oldi \<lparr>mem = m', faults = 0\<rparr> =
    Inr ((), \<lparr>mem = set_word (cap_addr (called_at g)) (2 :: u32) (set_word (cap_addr (called_at g)) (1 :: u32) m'), faults = 0\<rparr>)"
proof -
  let ?p = "global_pointer ddc pcc" and ?s = "\<lparr>mem = m', faults = 0\<rparr>"
  have l: "usable ddc" "usable pcc" "cap_wf ddc" "has_perm ddc PERM_STORE_CAPABILITY" "has_perm ddc PERM_LOAD"
      "has_perm pcc PERM_EXECUTE" "list_all (reloc_ok ddc) rs" "distinct (map (location ddc) rs)"
    and i: "bar \<in> set rs" "f \<in> set rs" "x_f \<in> set rs"
    using assms(1) by (simp_all add: init_program_def linked_def)
  have loads: "load_cap (bar_at g) m' = Inr (?p bar)" "load_cap (f_at g) m' = Inr (?p f)" "load_cap (x_f_at g) m' = Inr (?p x_f)"
    using assms(1) pointer_of_global [OF l(1,2,4,7,8) assms(2)] i by (auto simp: init_program_def reads_pointer_def)
  have ok: "reloc_ok ddc bar" using l(7) i(1) by (simp add: list_all_iff)
  have bar: "\<not> is_function bar" "reloc_size bar = 6" "reloc_offset bar = 0" using assms(1) by (simp_all add: init_program_def)
  have "read_bytes m' (foo_at ddc bar) 6 = [0x30, 0x31, 0x32, 0x33, 0x34, 0]"
    using crt_init_globals_keeps [OF l(1,2,4,7) assms(2)] assms(1) by (simp add: init_program_def)
  then have "bytes m' (foo_at ddc bar + of_nat k) = [0x30, 0x31, 0x32, 0x33, 0x34, 0] ! k" if "k < 6" for k
    using that read_bytes_nth [of k 6 m' "foo_at ddc bar"] by simp
  then have b: "in_order (map (\<lambda>k. bind (reading count_faults (get_data (plus_ptr (?p bar) (of_nat k))) oldb) (\<lambda>c.
      assert_that (c = [0x30, 0x31, 0x32, 0x33, 0x34, 0] ! k))) [0..<6]) ?s = Inr ((), ?s)"
    using data_pointer_byte [OF l(1,3,5) ok bar(1) _ bar(3)] bar(2)
    by (intro in_order_unchanged) (auto simp: reading_def)
  have "word_at m' (cap_addr (called_at g)) = (0 :: u32)"
    using crt_init_globals_keeps [OF l(1,2,4,7) assms(2), of "cap_addr (called_at g)" 4] assms(1)
    by (simp add: init_program_def word_at_def)
  then have n: "test_fn_ptr old (called_at g) ?s = Inr ((), \<lparr>mem = set_word (cap_addr (called_at g)) (1 :: u32) m', faults = 0\<rparr>)"
    "test_fn_ptr old (called_at g) \<lparr>mem = set_word (cap_addr (called_at g)) (1 :: u32) m', faults = 0\<rparr> =
      Inr ((), \<lparr>mem = set_word (cap_addr (called_at g)) (2 :: u32) (set_word (cap_addr (called_at g)) (1 :: u32) m'), faults = 0\<rparr>)"
    "reading count_faults (get_data (called_at g)) oldi
      \<lparr>mem = set_word (cap_addr (called_at g)) (2 :: u32) (set_word (cap_addr (called_at g)) (1 :: u32) m'), faults = 0\<rparr> =
     Inr (2, \<lparr>mem = set_word (cap_addr (called_at g)) (2 :: u32) (set_word (cap_addr (called_at g)) (1 :: u32) m'), faults = 0\<rparr>)"
    using assms(1) by (simp_all add: init_program_def test_fn_ptr_def reading_can writing_can word_at_same)
  have c: "call (?p f) code = test_fn_ptr old (called_at g)" "call (?p x_f) code = test_fn_ptr old (called_at g)"
    "has_perm (?p f) PERM_EXECUTE"
    using function_pointer_call [OF l(2,6)] assms(1,3) by (simp_all add: init_program_def)
  have q: "lacks_perm (?p bar) PERM_EXECUTE" "cap_length (?p bar) = 6" "cap_eq (?p bar) (foo_address g)"
    "cap_eq (?p f) (fn_address g)" "cap_eq (?p x_f) (fn_address g)" "cap_length (?p f) = cap_length pcc" "cap_base (?p f) = cap_base pcc"
    using assms(1)
    by (auto simp: init_program_def linked_def global_pointer_def lacks_perm_def and_not_disjoint cap_eq_def usable_def
        cap_addr_def foo_at_def)
  show ?thesis
    by (simp add: clang_purecap_init_def reading_def [of _ "load_cap _"] loads b c q n)
qed


definition example_globals :: init_globals where
  "example_globals =
     \<lparr>bar_at = example_ddc\<lparr>cap_offset := 0x40\<rparr>, x_f_at = example_ddc\<lparr>cap_offset := 0x80\<rparr>,
      f_at = example_ddc\<lparr>cap_offset := 0x60\<rparr>, called_at = example_ddc\<lparr>cap_offset := 0x200\<rparr>,
      foo_address = example_ddc\<lparr>cap_offset := 0x100\<rparr>, fn_address = example_ddc\<lparr>cap_offset := 0x800\<rparr>\<rparr>"

definition object_reloc :: capreloc where
  "object_reloc = \<lparr>capability_location = 0x40, reloc_object = 0x100, reloc_offset = 0, reloc_size = 6, reloc_permissions = 0\<rparr>"

definition function_reloc :: "u64 \<Rightarrow> capreloc" where
  "function_reloc a = \<lparr>capability_location = a, reloc_object = 0x800, reloc_offset = 0, reloc_size = 0,
     reloc_permissions = function_reloc_flag\<rparr>"

definition example_memory :: memory where
  "example_memory = write_bytes 0x10100 [0x30, 0x31, 0x32, 0x33, 0x34, 0] \<lparr>bytes = (\<lambda>_. 0), tags = (\<lambda>_. False)\<rparr>"

lemma example_init_program:
  "init_program example_ddc example_ddc [object_reloc, function_reloc 0x60, function_reloc 0x80]
     object_reloc (function_reloc 0x60) (function_reloc 0x80) example_globals example_memory"
proof -
  have r: "\<not> is_function object_reloc" "is_function (function_reloc a)" for a
    by (simp_all add: object_reloc_def function_reloc_def is_function_def function_reloc_flag_def)
  have m: "read_bytes example_memory 0x10100 6 = [0x30, 0x31, 0x32, 0x33, 0x34, 0]"
    "word_at example_memory 0x10200 = (0 :: u32)"
    by (simp_all add: read_bytes_def word_at_def example_memory_def bytes_write_bytes in_region_def be_nat_def upt_rec)
  have "linked example_ddc example_ddc [object_reloc, function_reloc 0x60, function_reloc 0x80]"
    using r by (simp add: linked_def)
      (simp add: cap_simps reloc_ok_def example_ddc_def object_reloc_def function_reloc_def location_def)
  then show ?thesis
    using r m by (simp add: init_program_def)
      (simp add: cap_simps example_globals_def example_ddc_def reads_pointer_def access_check_def
        location_def foo_at_def apart_from_pointers_def upt_rec granule_eq object_reloc_def function_reloc_def)
qed

theorem purecap_init_passes_witness:
  "\<exists>m. crt_init_globals example_ddc example_ddc [object_reloc, function_reloc 0x60, function_reloc 0x80] example_memory = Inr m \<and>
     clang_purecap_init example_globals example_ddc (\<lambda>_. test_fn_ptr 0 (called_at example_globals)) null_cap 0 0
       \<lparr>mem = m, faults = 0\<rparr> = Inr ((), \<lparr>mem = set_word 0x10200 (2 :: u32) (set_word 0x10200 (1 :: u32) m), faults = 0\<rparr>)"
proof -
  have l: "usable example_ddc" "has_perm example_ddc PERM_STORE_CAPABILITY"
    "list_all (reloc_ok example_ddc) [object_reloc, function_reloc 0x60, function_reloc 0x80]"
    "distinct (map (location example_ddc) [object_reloc, function_reloc 0x60, function_reloc 0x80])"
    using example_init_program by (simp_all add: init_program_def linked_def)
  obtain m where m: "crt_init_globals example_ddc example_ddc [object_reloc, function_reloc 0x60, function_reloc 0x80] example_memory = Inr m"
    using init_relocs_pointers [OF l(1,1,2,3,4)] crt_init_globals_loop [OF l(1,1)] by metis
  have "cap_addr (called_at example_globals) = 0x10200"
    by (simp add: example_globals_def example_ddc_def cap_addr_def)
  then show ?thesis
    using m purecap_init_passes [OF example_init_program m, of "\<lambda>_. test_fn_ptr 0 (called_at example_globals)" 0 null_cap 0 0]
    by simp
qed

section \<open>Calls of what is no function\<close>

lemma data_pointer_call:
  assumes "usable ddc" "reloc_ok ddc r" "\<not> is_function r"
  shows "call (global_pointer ddc pcc r) code s = Inr ((), s\<lparr>faults := faults s + 1\<rparr>)"
proof -
  have "\<not> has_perm (global_pointer ddc pcc r) PERM_EXECUTE"
    using assms(3) by (simp add: global_pointer_def has_perm_def and_not_disjoint) (simp add: perm_defs)
  then have "access_check (global_pointer ddc pcc r) PERM_EXECUTE Execute_fault 4 = Some Execute_fault"
    using assms by (intro access_check_forbidden) (simp_all add: usable_def global_pointer_def)
  then show ?thesis by (simp add: call_def trap_count)
qed

text \<open>
  The test of bad calls passes after \<open>crt_init_globals\<close>, whatever code there is: calling an
  integer and calling the address of a variable fault, once each, and nothing is executed.
\<close>

theorem purecap_badcall_passes:
  assumes "linked ddc pcc rs" and "crt_init_globals ddc pcc rs m = Inr m'" and "r \<in> set rs" and "\<not> is_function r"
    and "reads_pointer p (location ddc r)"
  shows "clang_purecap_badcall p code oldp \<lparr>mem = m', faults = 0\<rparr> = Inr ((), \<lparr>mem = m', faults = 2\<rparr>)"
proof -
  have l: "usable ddc" "usable pcc" "has_perm ddc PERM_STORE_CAPABILITY" "list_all (reloc_ok ddc) rs" "distinct (map (location ddc) rs)"
    using assms(1) by (simp_all add: linked_def)
  have "load_cap p m' = Inr (global_pointer ddc pcc r)"
    using pointer_of_global [OF l assms(2,3)] assms(5) by (simp add: reads_pointer_def)
  moreover have "call (int_cap 42) code s = Inr ((), s\<lparr>faults := faults s + 1\<rparr>)" for s
    by (simp add: call_def access_check_def int_cap_def trap_count)
  moreover have "reloc_ok ddc r" using l(4) assms(3) by (simp add: list_all_iff)
  ultimately show ?thesis
    using data_pointer_call [OF l(1) _ assms(4)] by (simp add: clang_purecap_badcall_def reading_def)
qed


theorem purecap_badcall_passes_witness:
  "\<exists>m. clang_purecap_badcall (example_ddc\<lparr>cap_offset := 0x40\<rparr>) (\<lambda>_. ret ()) null_cap \<lparr>mem = m, faults = 0\<rparr> =
     Inr ((), \<lparr>mem = m, faults = 2\<rparr>)"
proof -
  let ?rs = "[object_reloc, function_reloc 0x60, function_reloc 0x80]"
  have l: "linked example_ddc example_ddc ?rs" using example_init_program by (simp add: init_program_def)
  then obtain m where m: "crt_init_globals example_ddc example_ddc ?rs example_memory = Inr m"
    using init_relocs_pointers [of example_ddc example_ddc ?rs example_memory] crt_init_globals_loop [of example_ddc example_ddc ?rs example_memory]
    by (auto simp: linked_def)
  have "object_reloc \<in> set ?rs" "\<not> is_function object_reloc"
    "reads_pointer (example_ddc\<lparr>cap_offset := 0x40\<rparr>) (location example_ddc object_reloc)"
    using example_init_program by (simp_all add: init_program_def example_globals_def)
  then show ?thesis using purecap_badcall_passes [OF l m, of object_reloc] by blast
qed

end
