(* ===== verification/PurecapTests.thy ===== *)
theory PurecapTests
  imports FaultTests
begin

text \<open>
  The tests of what a pointer is in the pure-capability ABI: \<open>clang_purecap_smallint.c\<close>,
  \<open>clang_purecap_union.c\<close>, \<open>clang_purecap_capcmp.c\<close>, \<open>clang_purecap_null.c\<close> and
  \<open>clang_purecap_stack_cap.c\<close>, for 256-bit capabilities. The objects are arguments.
\<close>

section \<open>Numbers in the low bits of pointers\<close>

text \<open>
  Operators on \<open>__uintcap_t\<close> compute with a number of the capability and keep the rest of the left
  operand. Compilers take the offset or the address for it, here as the first argument says.
\<close>

definition number :: "bool \<Rightarrow> cap \<Rightarrow> u64" where
  "number by_address c = (if by_address then cap_addr c else cap_offset c)"

definition with_number :: "bool \<Rightarrow> cap \<Rightarrow> u64 \<Rightarrow> cap" where
  "with_number by_address c v = c\<lparr>cap_offset := (if by_address then v - cap_base c else v)\<rparr>"

definition get_int :: "bool \<Rightarrow> cap \<Rightarrow> u32" where
  "get_int ba p = ucast (number ba (with_number ba p (number ba p AND 7)))"

definition set_int :: "bool \<Rightarrow> cap \<Rightarrow> u32 \<Rightarrow> cap" where
  "set_int ba p val =
     (let val = val AND 7; p = with_number ba p (number ba p AND NOT 7)
      in with_number ba p (number ba p XOR ucast val))"

definition get_pointer :: "bool \<Rightarrow> cap \<Rightarrow> cap" where
  "get_pointer ba p = with_number ba p (number ba p AND NOT 7)"

definition clang_purecap_smallint :: "bool \<Rightarrow> cap \<Rightarrow> u8 \<Rightarrow> unit prog" where
  "clang_purecap_smallint ba str old =
     (let p = str in
      bind (assert_that (cap_addr p AND 7 = 0)) (\<lambda>_.
      let p = set_int ba p 4 in
      bind (assert_that (get_int ba p = 4)) (\<lambda>_.
      let ptr = get_pointer ba p in
      bind (assert_that (cap_eq ptr str)) (\<lambda>_.
      bind (reading count_faults (get_data ptr) old) (\<lambda>c.
      assert_that (c = 0x31))))))"

section \<open>A capability in a union\<close>

definition clang_purecap_union :: "cap \<Rightarrow> cap \<Rightarrow> cap \<Rightarrow> unit prog" where
  "clang_purecap_union p ptr old =
     bind (writing count_faults (store_cap p ptr)) (\<lambda>_.
     bind (reading count_faults (load_cap p) old) (\<lambda>q.
     bind (assert_that (cap_length q = 8)) (\<lambda>_.
     bind (reading count_faults (load_cap p) old) (\<lambda>q.
     bind (assert_that (cap_tag q)) (\<lambda>_.
     bind (writing count_faults (put_data (plus_ptr p 24) (400 :: u64))) (\<lambda>_.
     bind (reading count_faults (load_cap p) old) (\<lambda>q.
     assert_that (\<not> cap_tag q))))))))"

section \<open>Comparison, null and the stack\<close>

definition clang_purecap_capcmp :: "cap \<Rightarrow> unit prog" where
  "clang_purecap_capcmp str =
     (let end = plus_ptr str 10 in
      bind (assert_that (cap_offset end = cap_length end)) (\<lambda>_.
      in_order (map (\<lambda>i. let ptr = plus_ptr str (of_nat i) in
        bind (assert_that (cap_base ptr = cap_base str)) (\<lambda>_.
        bind (assert_that (cap_length ptr = cap_length str)) (\<lambda>_.
        bind (assert_that (cap_less str ptr)) (\<lambda>_.
        assert_that (cap_less ptr end))))) [1..<10])))"

definition is_null :: "cap \<Rightarrow> unit prog" where
  "is_null p =
     bind (assert_that (\<not> cap_tag p)) (\<lambda>_.
     bind (assert_that (cap_base p = 0)) (\<lambda>_.
     bind (assert_that (cap_offset p = 0)) (\<lambda>_.
     assert_that (cap_length p = -1))))"

definition clang_purecap_null :: "cap \<Rightarrow> u64 \<Rightarrow> unit prog" where
  "clang_purecap_null zero old =
     bind (is_null null_cap) (\<lambda>_.
     bind (reading count_faults (get_data zero) old) (\<lambda>z.
     bind (is_null (int_cap z)) (\<lambda>_.
     bind (reading count_faults (get_data zero) old) (\<lambda>z.
     bind (is_null (int_cap z)) (\<lambda>_.
     bind (reading count_faults (get_data zero) old) (\<lambda>z.
     bind (writing count_faults (put_data zero (z + 42))) (\<lambda>_.
     bind (reading count_faults (get_data zero) old) (\<lambda>z.
     bind (writing count_faults (put_data zero (z - 42))) (\<lambda>_.
     bind (reading count_faults (get_data zero) old) (\<lambda>z.
     is_null (int_cap z)))))))))))"

definition check_overlap :: "cap \<Rightarrow> cap \<Rightarrow> unit prog" where
  "check_overlap a b =
     (let basea = cap_base a; baseb = cap_base b; topa = basea + cap_length a; topb = baseb + cap_length b
      in assert_that (basea \<ge> topb \<or> baseb \<ge> topa))"

definition stack_sizes :: "nat list" where
  "stack_sizes = [131072, 262144, 1048576]"

definition check_sizes :: "cap list \<Rightarrow> unit prog" where
  "check_sizes ptrs =
     in_order (map (\<lambda>i. assert_that (stack_sizes ! i \<le> unat (cap_length (ptrs ! i)))) [0..<length stack_sizes])"

definition clang_purecap_stack_cap :: "cap \<Rightarrow> cap \<Rightarrow> cap \<Rightarrow> unit prog" where
  "clang_purecap_stack_cap foo bar baz =
     bind (check_overlap foo bar) (\<lambda>_.
     bind (check_overlap bar baz) (\<lambda>_.
     bind (check_overlap foo baz) (\<lambda>_.
     check_sizes [foo, bar, baz])))"


section \<open>Small integers come back, and so do their pointers\<close>

lemma number_with_number [simp]: "number ba (with_number ba c v) = v"
  and with_number_number [simp]: "with_number ba c (number ba c) = c"
  and with_number_twice [simp]: "with_number ba (with_number ba c v) w = with_number ba c w"
  by (simp_all add: number_def with_number_def cap_addr_def)

lemma low_three_bits:
  fixes v :: u64 and n :: u32
  assumes "v AND 7 = 0"
  shows "(v XOR ucast (n AND 7)) AND NOT 7 = v" "(v XOR ucast (n AND 7)) AND 7 = ucast (n AND 7)" "v AND NOT 7 = v"
proof -
  have m: "(7 :: u64) = mask 3" "(7 :: u32) = mask 3" by (simp_all add: mask_eq_exp_minus_1)
  have b: "\<not> bit v i" if "i < 3" for i
    using arg_cong [OF assms [unfolded m], of "\<lambda>w. bit w i"] that by (simp add: bit_simps)
  show "(v XOR ucast (n AND 7)) AND NOT 7 = v" "(v XOR ucast (n AND 7)) AND 7 = ucast (n AND 7)" "v AND NOT 7 = v"
    unfolding m using b by (auto intro!: bit_word_eqI simp: bit_simps)
qed

text \<open>The same with the complement as the simplifier writes it.\<close>

lemmas low_three_bits_simps = low_three_bits low_three_bits [simplified]

lemma ucast_low: "ucast (ucast (n AND 7 :: u32) :: u64) = n AND 7"
  by (rule bit_word_eqI) (auto simp: bit_simps)

lemma set_int_number: "number ba p AND 7 = 0 \<Longrightarrow> set_int ba p n = with_number ba p (number ba p XOR ucast (n AND 7))"
  by (simp add: set_int_def low_three_bits_simps)

lemma set_int_back:
  assumes "number ba p AND 7 = 0"
  shows "get_int ba (set_int ba p n) = n AND 7" and "get_pointer ba (set_int ba p n) = p"
  by (simp_all add: get_int_def get_pointer_def set_int_number [OF assms] low_three_bits_simps [OF assms] ucast_low)

text \<open>
  C34. A small integer put into the low bits of an aligned pointer comes back, cut to three bits,
  and so does the pointer, whole; a second one replaces the first. It holds for compilers that
  compute with addresses and for those that compute with offsets.
\<close>

theorem smallint_roundtrip:
  assumes "number ba p AND 7 = 0"
  shows "get_int ba (set_int ba p n) = n AND 7 \<and> get_pointer ba (set_int ba p n) = p \<and>
    set_int ba (set_int ba p n) k = set_int ba p k"
proof -
  have "set_int ba (set_int ba p n) k = with_number ba p (number ba p XOR ucast (k AND 7))"
    unfolding set_int_number [OF assms, of n]
    by (simp add: set_int_def Let_def low_three_bits_simps [OF assms])
  then show ?thesis using set_int_back [OF assms] set_int_number [OF assms] by simp
qed

theorem smallint_roundtrip_witness:
  "get_int True (set_int True stack_buffer 13) = 5"
  using smallint_roundtrip [of True stack_buffer 13] by (simp add: stack_buffer_def number_def cap_addr_def)

lemma purecap_smallint_passes:
  assumes "spans str 10" and "unat (cap_base str) mod 8 = 0" and "has_perm str PERM_LOAD" and "bytes (mem s) (cap_base str) = 0x31"
  shows "clang_purecap_smallint ba str old s = Inr ((), s)"
proof -
  have a: "cap_addr str = cap_base str" "cap_offset str = 0" using assms(1) by (simp_all add: spans_addr spans_def)
  have "cap_base str AND 7 = take_bit 3 (cap_base str)" by (simp add: take_bit_eq_mask mask_eq_exp_minus_1)
  also have "\<dots> = 0" using assms(2) by (simp add: word_unat_eq_iff unsigned_take_bit_eq) (simp add: take_bit_eq_mod)
  finally have m: "cap_base str AND 7 = 0" .
  then have "number ba str AND 7 = 0" using a by (simp add: number_def)
  then have "get_int ba (set_int ba str 4) = 4" "get_pointer ba (set_int ba str 4) = str"
    using set_int_back [of ba str 4] by simp_all
  moreover have "can PERM_LOAD 1 str" using assms by (intro can_start) auto
  ultimately show ?thesis
    using m a assms(4) by (simp add: clang_purecap_smallint_def Let_def cap_eq_def reading_def get_byte)
qed

section \<open>A data store over a capability\<close>

lemma all_perms: "cap_perms c AND 0x3c = 0x3c \<Longrightarrow> p AND 0x3c = p \<Longrightarrow> has_perm c p"
  using and.assoc [of "cap_perms c" "0x3c" p] by (simp add: has_perm_def and.commute [of p])

lemma tag_cleared:
  assumes "unat a mod 32 = 0" and "unat b + n \<le> 2 ^ 64" "granule b = granule a" and "0 < n" "length vs = n"
  shows "\<not> tags (write_bytes b vs m) (granule a)"
proof -
  have "in_region b b n" using assms(4) by (simp add: in_region_def)
  then show ?thesis using assms(2,3,5) by (auto simp: tags_write_bytes)
qed

text \<open>
  The test of the union passes for every capability it may store: the capability is read back
  whole, and after a store of data over a part of it what is read is no longer valid.
\<close>

theorem purecap_union_passes:
  assumes "spans p 32" and "unat (cap_base p) mod 32 = 0" and "cap_perms p AND 0x3c = 0x3c"
    and "cap_tag ptr" and "cap_length ptr = 8"
  shows "\<exists>m. clang_purecap_union p ptr old s = Inr ((), s\<lparr>mem := m\<rparr>)"
proof -
  let ?m = "write_granule (cap_base p) (cap_image ptr, True) (mem s)"
  let ?m' = "write_bytes (cap_base p + 24) (be_bytes 8 (400 :: u64)) ?m"
  have perms: "has_perm p PERM_LOAD_CAPABILITY" "has_perm p PERM_STORE_CAPABILITY" "has_perm p PERM_STORE"
    using all_perms [OF assms(3)] by (simp_all add: perm_defs)
  have a: "cap_addr p = cap_base p" using assms(1) by (simp add: spans_addr)
  have ok: "access_check p PERM_LOAD_CAPABILITY e 32 = None" "access_check p PERM_STORE_CAPABILITY e 32 = None" for e
    using perms assms(1) spans_start [OF assms(1), of 32] by (simp_all add: access_check_None spans_def)
  have l: "load_cap p m = Inr (image_cap (read_granule m (cap_base p)))" for m
    using ok(1) a assms(2) by (simp add: load_cap_def)
  have st: "store_cap p ptr (mem s) = Inr ?m" using ok(2) a assms(2,4) by (simp add: store_cap_def)
  have v: "load_cap p ?m = Inr ptr"
    using l assms(2,4) image_cap_image [of ptr] by (simp add: read_write_granule)
  have "unat (cap_base p) mod 8 = 0" using assms(2) by presburger
  then have c: "can PERM_STORE 8 (plus_ptr p 24)" "unat (cap_base p + 24) = unat (cap_base p) + 24"
    using spans_element [OF assms(1) _ _ perms(3), of 8 3] a by simp_all
  have "(n + 24) div 32 = n div 32" if "n mod 32 = 0" for n :: nat using that by (auto simp: mod_eq_0_iff_dvd elim!: dvdE)
  then have "granule (cap_base p + 24) = granule (cap_base p)" using c(2) assms(2) by (simp add: granule_eq)
  then have "\<not> tags ?m' (granule (cap_base p))"
    using c assms(1,2) by (intro tag_cleared [where n = 8]) (simp_all add: spans_def cap_wf_def)
  then have "load_cap p ?m' = Inr q \<Longrightarrow> \<not> cap_tag q" for q
    using l by (auto simp: image_cap_def read_granule_def Let_def)
  then show ?thesis
    using st v assms(4,5) c a l
    by (intro exI [of _ ?m']) (simp add: clang_purecap_union_def reading_def writing_def put_data_can)
qed

theorem purecap_union_passes_witness:
  "\<exists>m. clang_purecap_union (stack_buffer\<lparr>cap_length := 32\<rparr>) stack_buffer null_cap empty_machine = Inr ((), empty_machine\<lparr>mem := m\<rparr>)"
  using purecap_union_passes [of "stack_buffer\<lparr>cap_length := 32\<rparr>" stack_buffer null_cap empty_machine]
  by (simp add: cap_simps stack_buffer_def)

section \<open>Comparison, null and the stack\<close>

lemma purecap_capcmp_passes:
  assumes "spans str 10"
  shows "clang_purecap_capcmp str s = Inr ((), s)"
proof -
  have l: "cap_length str = 10" using assms word_eq_of_nat [of "cap_length str" 10] by (simp add: spans_def)
  have b: "unat (cap_base str) + 10 < 2 ^ 64" using assms by (simp add: spans_def cap_wf_def)
  have a: "unat (cap_base str + of_nat i) = unat (cap_base str) + i" if "i \<le> 10" for i
    using that b by (intro unat_add_of_nat) simp
  have c: "cap_less str (plus_ptr str (of_nat i))" "cap_less (plus_ptr str (of_nat i)) (plus_ptr str 10)" if "1 \<le> i" "i < 10" for i
    using that a [of i] a [of 10] assms by (simp_all add: cap_less_def spans_addr word_less_nat_alt)
  have "in_order (map (\<lambda>i. let ptr = plus_ptr str (of_nat i) in
        bind (assert_that (cap_base ptr = cap_base str)) (\<lambda>_.
        bind (assert_that (cap_length ptr = cap_length str)) (\<lambda>_.
        bind (assert_that (cap_less str ptr)) (\<lambda>_.
        assert_that (cap_less ptr (plus_ptr str 10)))))) [1..<10]) s = Inr ((), s)"
    using c by (intro in_order_unchanged) auto
  then show ?thesis
    using l assms by (simp add: clang_purecap_capcmp_def Let_def spans_def)
qed

lemma purecap_null_passes:
  assumes "spans zero 8" and "unat (cap_base zero) mod 8 = 0" and "has_perm zero PERM_LOAD" "has_perm zero PERM_STORE"
    and "word_at (mem s) (cap_base zero) = (0 :: u64)"
  shows "clang_purecap_null zero old s =
    Inr ((), s\<lparr>mem := set_word (cap_base zero) (0 :: u64) (set_word (cap_base zero) (42 :: u64) (mem s))\<rparr>)"
proof -
  have "can PERM_LOAD 8 zero" "can PERM_STORE 8 zero" "cap_addr zero = cap_base zero" "unat (cap_base zero) + 8 \<le> 2 ^ 64"
    using assms can_start [OF assms(1)] by (simp_all add: spans_addr) (simp add: spans_def cap_wf_def)
  then show ?thesis
    using assms(5) by (simp add: clang_purecap_null_def is_null_def int_cap_def reading_can writing_can word_at_same)
qed

text \<open>The test of overlaps accepts exactly the arrays that share no byte.\<close>

lemma check_overlap_apart:
  assumes "cap_wf a" "cap_wf b" "0 < unat (cap_length a)" "0 < unat (cap_length b)"
  shows "check_overlap a b s = Inr ((), s) \<longleftrightarrow>
    (\<forall>x. \<not> (in_region x (cap_base a) (unat (cap_length a)) \<and> in_region x (cap_base b) (unat (cap_length b))))"
proof -
  have top: "unat (cap_base c + cap_length c) = unat (cap_base c) + unat (cap_length c)" if "cap_wf c" for c
    using that by (simp add: cap_wf_def unat_word_ariths)
  have "check_overlap a b s = Inr ((), s) \<longleftrightarrow>
      unat (cap_base b) + unat (cap_length b) \<le> unat (cap_base a) \<or> unat (cap_base a) + unat (cap_length a) \<le> unat (cap_base b)"
    using assms(1,2) by (auto simp: check_overlap_def Let_def assert_that_def word_le_nat_alt top)
  also have "\<dots> \<longleftrightarrow> (\<forall>x. \<not> (in_region x (cap_base a) (unat (cap_length a)) \<and> in_region x (cap_base b) (unat (cap_length b))))"
  proof
    assume n: "\<forall>x. \<not> (in_region x (cap_base a) (unat (cap_length a)) \<and> in_region x (cap_base b) (unat (cap_length b)))"
    show "unat (cap_base b) + unat (cap_length b) \<le> unat (cap_base a) \<or> unat (cap_base a) + unat (cap_length a) \<le> unat (cap_base b)"
      using n [THEN spec, of "cap_base a"] n [THEN spec, of "cap_base b"] assms(3,4) by (auto simp: in_region_def)
  qed (auto simp: in_region_def)
  finally show ?thesis .
qed

lemma purecap_stack_cap_passes:
  assumes "check_overlap foo bar s = Inr ((), s)" "check_overlap bar baz s = Inr ((), s)" "check_overlap foo baz s = Inr ((), s)"
    and "131072 \<le> unat (cap_length foo)" "262144 \<le> unat (cap_length bar)" "1048576 \<le> unat (cap_length baz)"
  shows "clang_purecap_stack_cap foo bar baz s = Inr ((), s)"
  using assms by (simp add: clang_purecap_stack_cap_def check_sizes_def stack_sizes_def upt_rec nth_Cons')


section \<open>Integers in capabilities\<close>

text \<open>
  \<open>clang_purecap_intcap.c\<close>: \<open>tmp\<close>, \<open>one\<close> and \<open>two\<close> are the places of the global variables; what a
  faulting load would leave in a register is the last three arguments.
\<close>

definition clang_purecap_intcap :: "cap \<Rightarrow> cap \<Rightarrow> cap \<Rightarrow> cap \<Rightarrow> u8 \<Rightarrow> u64 \<Rightarrow> cap \<Rightarrow> unit prog" where
  "clang_purecap_intcap str tmp one two old8 old64 oldp =
     (let load = (\<lambda>p. reading count_faults (load_cap p) oldp); store = (\<lambda>p v. writing count_faults (store_cap p v));
          char_is = (\<lambda>p c. bind (reading count_faults (get_data p) old8) (\<lambda>x. assert_that (x = c)));
          word_is = (\<lambda>p n. bind (reading count_faults (get_data p) old64) (\<lambda>x. assert_that (x = n)));
          number_is = (\<lambda>v n. bind (assert_that (cap_eq v (int_cap n))) (\<lambda>_. assert_that (cap_addr v = n)));
          foo = int_cap 42
      in bind (assert_that (\<not> cap_tag foo)) (\<lambda>_.
         bind (assert_that (cap_offset foo = 42)) (\<lambda>_.
         bind (assert_that (cap_base foo = 0)) (\<lambda>_.
         let foo = str in
         bind (assert_that (cap_tag foo)) (\<lambda>_.
         bind (assert_that (cap_tag foo)) (\<lambda>_.
         let foo = plus_ptr foo 5 in
         bind (char_is foo 0x35) (\<lambda>_.
         bind (assert_that (cap_offset foo = 5)) (\<lambda>_.
         bind (assert_that (cap_base foo = cap_base str)) (\<lambda>_.
         bind (assert_that (cap_length foo = cap_length str)) (\<lambda>_.
         let foo = plus_ptr foo 50 in
         bind (store tmp foo) (\<lambda>_.
         bind (load tmp) (\<lambda>foo.
         let foo = plus_ptr foo (-50) in
         bind (char_is foo 0x35) (\<lambda>_.
         bind (assert_that (cap_offset foo = 5)) (\<lambda>_.
         bind (assert_that (cap_less (int_cap (-1)) foo)) (\<lambda>_.
         bind (load one) (\<lambda>v.
         bind (number_is v 1) (\<lambda>_.
         bind (word_is one 0) (\<lambda>_.
         bind (word_is (plus_ptr one 8) 1) (\<lambda>_.
         bind (word_is (plus_ptr one 16) 0) (\<lambda>_.
         bind (word_is (plus_ptr one 24) 0) (\<lambda>_.
         bind (load two) (\<lambda>tmp2.
         bind (number_is tmp2 2) (\<lambda>_.
         bind (store two (int_cap 3)) (\<lambda>_.
         bind (load two) (\<lambda>v.
         bind (number_is v 3) (\<lambda>_.
         bind (store two tmp2) (\<lambda>_.
         bind (load two) (\<lambda>v.
         number_is v 2))))))))))))))))))))))))))))"

text \<open>A place for a capability in memory, that it may be loaded from and stored to.\<close>

definition cap_place :: "cap \<Rightarrow> bool" where
  "cap_place p \<longleftrightarrow> spans p 32 \<and> unat (cap_base p) mod 32 = 0 \<and> cap_perms p AND 0x3c = 0x3c"

definition put_cap :: "cap \<Rightarrow> cap \<Rightarrow> memory \<Rightarrow> memory" where
  "put_cap p v m = write_granule (cap_base p) (cap_image v, cap_tag v) m"

lemma cap_place_access:
  assumes "cap_place p"
  shows "load_cap p m = Inr (image_cap (read_granule m (cap_base p)))" "store_cap p v m = Inr (put_cap p v m)"
    and "unat (cap_base p) mod 32 = 0"
proof -
  have p: "spans p 32" "has_perm p PERM_LOAD_CAPABILITY" "has_perm p PERM_STORE_CAPABILITY"
    using assms all_perms [of p] by (simp_all add: cap_place_def perm_defs)
  then have "access_check p PERM_LOAD_CAPABILITY e 32 = None" "access_check p PERM_STORE_CAPABILITY e 32 = None" for e
    using spans_start [OF p(1), of 32] by (simp_all add: access_check_None spans_def)
  then show "load_cap p m = Inr (image_cap (read_granule m (cap_base p)))" "store_cap p v m = Inr (put_cap p v m)"
    using assms p(1) by (simp_all add: cap_place_def load_cap_def store_cap_def put_cap_def spans_addr)
qed (use assms in \<open>simp add: cap_place_def\<close>)

lemma put_cap_same: "cap_place p \<Longrightarrow> load_cap p (put_cap p v m) = Inr v"
  by (simp add: cap_place_access put_cap_def read_write_granule)

lemma put_cap_other:
  "cap_place p \<Longrightarrow> cap_place q \<Longrightarrow> cap_base p \<noteq> cap_base q \<Longrightarrow> load_cap p (put_cap q v m) = load_cap p m"
  by (simp add: cap_place_access put_cap_def read_granule_other)


lemma put_cap_granule:
  "cap_place p \<Longrightarrow> unat a mod 32 = 0 \<Longrightarrow> a \<noteq> cap_base p \<Longrightarrow> read_granule (put_cap p v m) a = read_granule m a"
  by (simp add: cap_place_access put_cap_def read_granule_other)

lemma put_cap_byte:
  assumes "cap_place p" and "granule x \<noteq> granule (cap_base p)"
  shows "bytes (put_cap p v m) x = bytes m x"
  using cap_place_access(3) [OF assms(1)] granule_region [of "cap_base p" x] aligned_no_wrap [of "cap_base p"] assms(2)
  by (simp add: put_cap_def write_granule_def Let_def bytes_write_bytes)

text \<open>The four words of a capability in memory.\<close>

lemma granule_word:
  assumes "fst (read_granule m a) = img" and "k < 4"
  shows "word_at m (a + of_nat (8 * k)) = be_word (take 8 (drop (8 * k) img))"
proof -
  have "read_bytes m (a + of_nat (8 * k)) 8 = take 8 (drop (8 * k) (read_bytes m a 32))"
    using assms(2) by (intro nth_equalityI) (simp_all add: read_bytes_nth add.assoc)
  then show ?thesis using assms(1) by (simp add: word_at_def read_granule_def be_word_def)
qed

lemma int_cap_words:
  assumes "cap_place p" and "fst (read_granule m (cap_base p)) = cap_image (int_cap n)"
  shows "get_data p m = Inr (0 :: u64)" "get_data (plus_ptr p 8) m = Inr n"
    "get_data (plus_ptr p 16) m = Inr (0 :: u64)" "get_data (plus_ptr p 24) m = Inr (0 :: u64)"
proof -
  have p: "spans p 32" "unat (cap_base p) mod 8 = 0" "has_perm p PERM_LOAD"
    using assms(1) all_perms [of p] mod_mod_cancel [of 8 32 "unat (cap_base p)"] by (auto simp: cap_place_def perm_defs)
  have "get_data (plus_ptr p (of_nat (8 * k))) m = Inr (word_at m (cap_base p + of_nat (8 * k)) :: u64)" if "k < 4" for k
    using spans_element(1) [OF p(1,2) _ p(3), of k] that p(1)
    by (simp add: get_data_can word_at_def spans_addr del: of_nat_mult)
  then have w: "get_data (plus_ptr p (of_nat (8 * k))) m = Inr (be_word (take 8 (drop (8 * k) (cap_image (int_cap n)))))" if "k < 4" for k
    using granule_word [OF assms(2) that] that by simp
  have f: "cap_meta (int_cap n) = 0" "cap_addr (int_cap n) = n" "cap_base (int_cap n) = 0" "cap_length (int_cap n) = -1"
    by (simp_all add: cap_meta_def int_cap_def cap_addr_def)
  show "get_data p m = Inr (0 :: u64)" "get_data (plus_ptr p 8) m = Inr n"
    "get_data (plus_ptr p 16) m = Inr (0 :: u64)" "get_data (plus_ptr p 24) m = Inr (0 :: u64)"
    using w [of 0] w [of 1] w [of 2] w [of 3] f by (simp_all add: cap_image_def)
qed

lemma purecap_intcap_passes:
  assumes "spans str 11" "has_perm str PERM_LOAD" "bytes (mem s) (cap_base str + 5) = 0x35"
    and p: "cap_place tmp" "cap_place one" "cap_place two"
    and "cap_base tmp \<noteq> cap_base one" "cap_base tmp \<noteq> cap_base two" "granule (cap_base str + 5) \<noteq> granule (cap_base tmp)"
    and one: "read_granule (mem s) (cap_base one) = (cap_image (int_cap 1), False)"
    and two: "load_cap two (mem s) = Inr (int_cap 2)"
  shows "clang_purecap_intcap str tmp one two old8 old64 oldp s =
    Inr ((), s\<lparr>mem := put_cap two (int_cap 2) (put_cap two (int_cap 3) (put_cap tmp (plus_ptr str 55) (mem s)))\<rparr>)"
proof -
  let ?m = "put_cap tmp (plus_ptr str 55) (mem s)"
  have str: "cap_tag str" "cap_offset str = 0" "cap_addr str = cap_base str" using assms(1) by (simp_all add: spans_def usable_def spans_addr)
  have "can PERM_LOAD 1 (plus_ptr str 5)" using spans_element(1) [OF assms(1) _ _ assms(2), of 1 5] by simp
  then have c: "get_data (plus_ptr str 5) m = (Inr (bytes m (cap_base str + 5)) :: cheri_fault + u8)" for m
    using str by (simp add: get_byte)
  have "bytes ?m (cap_base str + 5) = 0x35" using assms(3,9) by (simp add: put_cap_byte [OF p(1)])
  moreover have g: "fst (read_granule ?m (cap_base one)) = cap_image (int_cap 1)"
    using one assms(7) cap_place_access(3) [OF p(2)] by (simp add: put_cap_granule [OF p(1)])
  moreover have "load_cap one ?m = Inr (int_cap 1)"
  proof -
    have "image_cap (cap_image (int_cap 1), False) = int_cap 1"
      using image_cap_image [of "int_cap 1"] by (simp add: int_cap_def)
    then have "load_cap one (mem s) = Inr (int_cap 1)" using one cap_place_access(1) [OF p(2)] by simp
    then show ?thesis using put_cap_other [OF p(2,1)] assms(7) by simp
  qed
  moreover have "load_cap two ?m = Inr (int_cap 2)" using two assms(8) p by (simp add: put_cap_other)
  moreover have "cap_less (int_cap (-1)) (plus_ptr str 5)" using str by (simp add: cap_less_def int_cap_def)
  moreover have "\<not> cap_tag (int_cap n)" "cap_offset (int_cap n) = n" "cap_base (int_cap n) = 0" "cap_addr (int_cap n) = n" for n
    by (simp_all add: int_cap_def cap_addr_def)
  ultimately show ?thesis
    using str c int_cap_words [OF p(2) g] assms(3)
    by (simp add: clang_purecap_intcap_def Let_def reading_def writing_def cap_place_access(2) [OF p(1)]
        cap_place_access(2) [OF p(3)] put_cap_same [OF p(1)] put_cap_same [OF p(3)] cap_eq_def)
qed

end
