(* ===== verification/AtomicTest.thy ===== *)
theory AtomicTest
  imports PurecapTests
begin

text \<open>
  \<open>clang_purecap_atomic.c\<close>: atomic variables of four sizes and an atomic pointer, each used by its
  name and through a pointer to it. In a program with one thread an atomic operation is the
  load and the store it consists of.
\<close>

section \<open>The test\<close>

definition increment :: "cap \<Rightarrow> 'a::len word \<Rightarrow> unit prog" where
  "increment p old = bind (reading count_faults (get_data p) old) (\<lambda>v. writing count_faults (put_data p (v + 1)))"

definition holds_number :: "cap \<Rightarrow> 'a::len word \<Rightarrow> 'a word \<Rightarrow> unit prog" where
  "holds_number p old n = bind (reading count_faults (get_data p) old) (\<lambda>v. assert_that (v = n))"

definition compare_exchange :: "cap \<Rightarrow> cap \<Rightarrow> cap \<Rightarrow> cap \<Rightarrow> bool prog" where
  "compare_exchange p expected desired old =
     bind (reading count_faults (load_cap p) old) (\<lambda>v.
     if cap_eq v expected then bind (writing count_faults (store_cap p desired)) (\<lambda>_. ret True) else ret False)"

definition exchange :: "cap \<Rightarrow> cap \<Rightarrow> cap \<Rightarrow> cap prog" where
  "exchange p desired old =
     bind (reading count_faults (load_cap p) old) (\<lambda>v.
     bind (writing count_faults (store_cap p desired)) (\<lambda>_. ret v))"

text \<open>The variables by their names and the pointers to them.\<close>

record atomics =
  at_c :: cap  at_h :: cap  at_w :: cap  at_d :: cap  at_p :: cap
  ptr_c :: cap  ptr_h :: cap  ptr_w :: cap  ptr_d :: cap  ptr_p :: cap

definition clang_purecap_atomic :: "atomics \<Rightarrow> cap \<Rightarrow> u64 \<Rightarrow> cap \<Rightarrow> unit prog" where
  "clang_purecap_atomic a newval old oldp =
     bind (assert_that (cap_length (ptr_c a) = 1)) (\<lambda>_.
     bind (assert_that (cap_length (ptr_h a) = 2)) (\<lambda>_.
     bind (assert_that (cap_length (ptr_w a) = 4)) (\<lambda>_.
     bind (assert_that (cap_length (ptr_d a) = 8)) (\<lambda>_.
     bind (in_order [increment (at_c a) (ucast old :: 8 word), increment (at_h a) (ucast old :: 16 word),
       increment (at_w a) (ucast old :: 32 word), increment (at_d a) old,
       increment (ptr_c a) (ucast old :: 8 word), increment (ptr_h a) (ucast old :: 16 word),
       increment (ptr_w a) (ucast old :: 32 word), increment (ptr_d a) old]) (\<lambda>_.
     bind (in_order [holds_number (at_c a) (ucast old :: 8 word) 2, holds_number (at_h a) (ucast old :: 16 word) 2,
       holds_number (at_w a) (ucast old :: 32 word) 2, holds_number (at_d a) old 2]) (\<lambda>_.
     bind (assert_that (cap_length (ptr_p a) = 32)) (\<lambda>_.
     bind (reading count_faults (load_cap (at_p a)) oldp) (\<lambda>v.
     bind (assert_that (cap_eq v null_cap)) (\<lambda>_.
     bind (writing count_faults (store_cap (at_p a) (int_cap 1))) (\<lambda>_.
     bind (reading count_faults (load_cap (at_p a)) oldp) (\<lambda>v.
     bind (assert_that (cap_eq v (int_cap 1))) (\<lambda>_.
     bind (compare_exchange (at_p a) (int_cap 1) newval oldp) (\<lambda>b.
     bind (assert_that b) (\<lambda>_.
     bind (reading count_faults (load_cap (at_p a)) oldp) (\<lambda>v.
     bind (assert_that (cap_eq v newval)) (\<lambda>_.
     bind (exchange (at_p a) (int_cap 2) oldp) (\<lambda>x.
     bind (assert_that (cap_eq x newval)) (\<lambda>_.
     bind (reading count_faults (load_cap (at_p a)) oldp) (\<lambda>v.
     bind (assert_that (cap_eq v (int_cap 2))) (\<lambda>_.
     bind (writing count_faults (store_cap (at_p a) (int_cap 3))) (\<lambda>_.
     bind (reading count_faults (load_cap (at_p a)) oldp) (\<lambda>v.
     assert_that (cap_eq v (int_cap 3))))))))))))))))))))))))"

section \<open>It passes\<close>

text \<open>A variable of \<open>n\<close> bytes with a pointer that spans it, and variables apart from each other.\<close>

definition names :: "cap \<Rightarrow> cap \<Rightarrow> nat \<Rightarrow> bool" where
  "names v p n \<longleftrightarrow> spans p n \<and> can PERM_LOAD n p \<and> can PERM_STORE n p \<and> can PERM_LOAD n v \<and> can PERM_STORE n v \<and>
     cap_addr v = cap_base p"

definition apart :: "cap \<Rightarrow> nat \<Rightarrow> cap \<Rightarrow> nat \<Rightarrow> bool" where
  "apart p n q k \<longleftrightarrow> unat (cap_base p) + n \<le> unat (cap_base q) \<or> unat (cap_base q) + k \<le> unat (cap_base p)"

definition atomics_ok :: "atomics \<Rightarrow> bool" where
  "atomics_ok a \<longleftrightarrow>
     names (at_c a) (ptr_c a) 1 \<and> names (at_h a) (ptr_h a) 2 \<and> names (at_w a) (ptr_w a) 4 \<and> names (at_d a) (ptr_d a) 8 \<and>
     cap_place (at_p a) \<and> spans (ptr_p a) 32 \<and>
     apart (ptr_c a) 1 (ptr_h a) 2 \<and> apart (ptr_c a) 1 (ptr_w a) 4 \<and> apart (ptr_c a) 1 (ptr_d a) 8 \<and>
     apart (ptr_h a) 2 (ptr_w a) 4 \<and> apart (ptr_h a) 2 (ptr_d a) 8 \<and> apart (ptr_w a) 4 (ptr_d a) 8 \<and>
     apart (at_p a) 32 (ptr_c a) 1 \<and> apart (at_p a) 32 (ptr_h a) 2 \<and> apart (at_p a) 32 (ptr_w a) 4 \<and>
     apart (at_p a) 32 (ptr_d a) 8"

lemma set_word_granule:
  assumes "unat a mod 32 = 0" and "unat b + LENGTH('a::len) div 8 \<le> 2 ^ 64"
    and "unat a + 32 \<le> unat b \<or> unat b + LENGTH('a) div 8 \<le> unat a"
  shows "read_granule (set_word b (v :: 'a word) m) a = read_granule m a"
proof -
  let ?vs = "be_bytes (LENGTH('a) div 8) v"
  have "read_bytes (write_bytes b ?vs m) a 32 = read_bytes m a 32"
    using assms aligned_no_wrap [OF assms(1)] by (intro read_bytes_apart) auto
  moreover have "granule x \<noteq> granule a" if "in_region x b (LENGTH('a) div 8)" for x
    using that granule_region [OF assms(1), of x] assms(3) by (auto simp: in_region_def)
  then have "tags (write_bytes b ?vs m) (granule a) = tags m (granule a)"
    using assms(2) by (auto simp: tags_write_bytes)
  ultimately show ?thesis by (simp add: read_granule_def set_word_def)
qed

text \<open>
  What holds of the memory while the variables are incremented: each has its number, and the
  pointer is still null.
\<close>

definition counted :: "atomics \<Rightarrow> u8 \<Rightarrow> u16 \<Rightarrow> u32 \<Rightarrow> u64 \<Rightarrow> memory \<Rightarrow> bool" where
  "counted a c h w d m \<longleftrightarrow>
     word_at m (cap_base (ptr_c a)) = c \<and> word_at m (cap_base (ptr_h a)) = h \<and>
     word_at m (cap_base (ptr_w a)) = w \<and> word_at m (cap_base (ptr_d a)) = d \<and>
     load_cap (at_p a) m = Inr null_cap"

lemma names_increment:
  assumes "names v p (LENGTH('a::len) div 8)" and "word_at (mem s) (cap_base p) = (n :: 'a word)"
  shows "increment v (old :: 'a word) s = Inr ((), s\<lparr>mem := set_word (cap_base p) (n + 1) (mem s)\<rparr>)"
    and "increment p (old :: 'a word) s = Inr ((), s\<lparr>mem := set_word (cap_base p) (n + 1) (mem s)\<rparr>)"
  using assms spans_addr [of p "LENGTH('a) div 8"] by (simp_all add: increment_def names_def reading_can writing_can)

lemma names_end: "names v p n \<Longrightarrow> unat (cap_base p) + n \<le> 2 ^ 64"
  by (simp add: names_def spans_def cap_wf_def)

lemma apart_sym: "apart p n q k \<Longrightarrow> apart q k p n"
  by (auto simp: apart_def)

lemma own_word:
  assumes "names v p (LENGTH('a::len) div 8)" and "8 dvd LENGTH('a)"
  shows "word_at (set_word (cap_base p) (x :: 'a word) m) (cap_base p) = x"
  using names_end [OF assms(1)] assms(2) by (intro word_at_same)

lemma other_word:
  assumes "names v p (LENGTH('a::len) div 8)" "names u q (LENGTH('b::len) div 8)" "apart p (LENGTH('a) div 8) q (LENGTH('b) div 8)"
  shows "word_at (set_word (cap_base p) (x :: 'a word) m) (cap_base q) = (word_at m (cap_base q) :: 'b word)"
  using names_end [OF assms(1)] names_end [OF assms(2)] assms(3) by (intro word_at_apart) (auto simp: apart_def)

lemma pointer_kept:
  assumes "names v p (LENGTH('a::len) div 8)" "cap_place q" "apart q 32 p (LENGTH('a) div 8)"
  shows "load_cap q (set_word (cap_base p) (x :: 'a word) m) = load_cap q m"
  using names_end [OF assms(1)] cap_place_access(1,3) [OF assms(2)] assms(3)
  by (auto simp: set_word_granule apart_def)

lemma counted_set:
  assumes ok: "atomics_ok a" and m: "counted a c h w d m"
  shows "counted a (c + 1) h w d (set_word (cap_base (ptr_c a)) (c + 1) m)"
    and "counted a c (h + 1) w d (set_word (cap_base (ptr_h a)) (h + 1) m)"
    and "counted a c h (w + 1) d (set_word (cap_base (ptr_w a)) (w + 1) m)"
    and "counted a c h w (d + 1) (set_word (cap_base (ptr_d a)) (d + 1) m)"
proof -
  have n: "names (at_c a) (ptr_c a) (LENGTH(8) div 8)" "names (at_h a) (ptr_h a) (LENGTH(16) div 8)"
    "names (at_w a) (ptr_w a) (LENGTH(32) div 8)" "names (at_d a) (ptr_d a) (LENGTH(64) div 8)"
    and p: "cap_place (at_p a)"
    and r: "apart (ptr_c a) (LENGTH(8) div 8) (ptr_h a) (LENGTH(16) div 8)" "apart (ptr_c a) (LENGTH(8) div 8) (ptr_w a) (LENGTH(32) div 8)"
      "apart (ptr_c a) (LENGTH(8) div 8) (ptr_d a) (LENGTH(64) div 8)" "apart (ptr_h a) (LENGTH(16) div 8) (ptr_w a) (LENGTH(32) div 8)"
      "apart (ptr_h a) (LENGTH(16) div 8) (ptr_d a) (LENGTH(64) div 8)" "apart (ptr_w a) (LENGTH(32) div 8) (ptr_d a) (LENGTH(64) div 8)"
    and q: "apart (at_p a) 32 (ptr_c a) (LENGTH(8) div 8)" "apart (at_p a) 32 (ptr_h a) (LENGTH(16) div 8)"
      "apart (at_p a) 32 (ptr_w a) (LENGTH(32) div 8)" "apart (at_p a) 32 (ptr_d a) (LENGTH(64) div 8)"
    using ok by (simp_all add: atomics_ok_def)
  note kept = other_word [OF n(1,2) r(1)] other_word [OF n(1,3) r(2)] other_word [OF n(1,4) r(3)]
    other_word [OF n(2,3) r(4)] other_word [OF n(2,4) r(5)] other_word [OF n(3,4) r(6)]
    other_word [OF n(2,1) apart_sym [OF r(1)]] other_word [OF n(3,1) apart_sym [OF r(2)]] other_word [OF n(4,1) apart_sym [OF r(3)]]
    other_word [OF n(3,2) apart_sym [OF r(4)]] other_word [OF n(4,2) apart_sym [OF r(5)]] other_word [OF n(4,3) apart_sym [OF r(6)]]
  note same = own_word [OF n(1)] own_word [OF n(2)] own_word [OF n(3)] own_word [OF n(4)]
  note ptr = pointer_kept [OF n(1) p q(1)] pointer_kept [OF n(2) p q(2)] pointer_kept [OF n(3) p q(3)] pointer_kept [OF n(4) p q(4)]
  show "counted a (c + 1) h w d (set_word (cap_base (ptr_c a)) (c + 1) m)"
    "counted a c (h + 1) w d (set_word (cap_base (ptr_h a)) (h + 1) m)"
    "counted a c h (w + 1) d (set_word (cap_base (ptr_w a)) (w + 1) m)"
    "counted a c h w (d + 1) (set_word (cap_base (ptr_d a)) (d + 1) m)"
    using m by (simp_all add: counted_def kept same ptr)
qed

lemma four_increments:
  assumes ok: "atomics_ok a" and m: "counted a c h w d (mem s)"
    and v: "vc = at_c a \<or> vc = ptr_c a" "vh = at_h a \<or> vh = ptr_h a" "vw = at_w a \<or> vw = ptr_w a" "vd = at_d a \<or> vd = ptr_d a"
  shows "\<exists>m'. in_order [increment vc (o8 :: u8), increment vh (o16 :: u16), increment vw (o32 :: u32), increment vd (o64 :: u64)] s =
      Inr ((), s\<lparr>mem := m'\<rparr>) \<and> counted a (c + 1) (h + 1) (w + 1) (d + 1) m'"
proof -
  have n: "names (at_c a) (ptr_c a) (LENGTH(8) div 8)" "names (at_h a) (ptr_h a) (LENGTH(16) div 8)"
    "names (at_w a) (ptr_w a) (LENGTH(32) div 8)" "names (at_d a) (ptr_d a) (LENGTH(64) div 8)"
    using ok by (simp_all add: atomics_ok_def)
  have step: "increment vc o8 s = Inr ((), s\<lparr>mem := set_word (cap_base (ptr_c a)) (c + 1) (mem s)\<rparr>)"
    "increment vh o16 s = Inr ((), s\<lparr>mem := set_word (cap_base (ptr_h a)) (h + 1) (mem s)\<rparr>)"
    "increment vw o32 s = Inr ((), s\<lparr>mem := set_word (cap_base (ptr_w a)) (w + 1) (mem s)\<rparr>)"
    "increment vd o64 s = Inr ((), s\<lparr>mem := set_word (cap_base (ptr_d a)) (d + 1) (mem s)\<rparr>)"
    if "counted a c h w d (mem s)" for c h w d s
    using that v names_increment [OF n(1)] names_increment [OF n(2)] names_increment [OF n(3)] names_increment [OF n(4)]
    by (auto simp: counted_def)
  define m1 where "m1 = set_word (cap_base (ptr_c a)) (c + 1) (mem s)"
  define m2 where "m2 = set_word (cap_base (ptr_h a)) (h + 1) m1"
  define m3 where "m3 = set_word (cap_base (ptr_w a)) (w + 1) m2"
  define m4 where "m4 = set_word (cap_base (ptr_d a)) (d + 1) m3"
  have c1: "counted a (c + 1) h w d m1" unfolding m1_def by (rule counted_set [OF ok m])
  have c2: "counted a (c + 1) (h + 1) w d m2" unfolding m2_def by (rule counted_set [OF ok c1])
  have c3: "counted a (c + 1) (h + 1) (w + 1) d m3" unfolding m3_def by (rule counted_set [OF ok c2])
  have c4: "counted a (c + 1) (h + 1) (w + 1) (d + 1) m4" unfolding m4_def by (rule counted_set [OF ok c3])
  have "in_order [increment vc o8, increment vh o16, increment vw o32, increment vd o64] s = Inr ((), s\<lparr>mem := m4\<rparr>)"
    using m c1 c2 c3
    by (simp add: step m1_def [symmetric] m2_def [symmetric] m3_def [symmetric] m4_def [symmetric])
  then show ?thesis using c4 by blast
qed

lemma increments_run:
  assumes ok: "atomics_ok a" and m: "counted a 0 0 0 0 (mem s)"
  shows "\<exists>m'. in_order [increment (at_c a) (o8 :: u8), increment (at_h a) (o16 :: u16), increment (at_w a) (o32 :: u32),
      increment (at_d a) (o64 :: u64), increment (ptr_c a) o8, increment (ptr_h a) o16, increment (ptr_w a) o32, increment (ptr_d a) o64] s =
      Inr ((), s\<lparr>mem := m'\<rparr>) \<and> counted a 2 2 2 2 m'"
proof -
  let ?named = "[increment (at_c a) o8, increment (at_h a) o16, increment (at_w a) o32, increment (at_d a) o64]"
  let ?through = "[increment (ptr_c a) o8, increment (ptr_h a) o16, increment (ptr_w a) o32, increment (ptr_d a) o64]"
  obtain m1 where m1: "in_order ?named s = Inr ((), s\<lparr>mem := m1\<rparr>)" "counted a 1 1 1 1 m1"
    using four_increments [OF ok m, of "at_c a" "at_h a" "at_w a" "at_d a" o8 o16 o32 o64] by auto
  obtain m2 where m2: "in_order ?through (s\<lparr>mem := m1\<rparr>) = Inr ((), s\<lparr>mem := m2\<rparr>)" "counted a 2 2 2 2 m2"
    using four_increments [of a 1 1 1 1 "s\<lparr>mem := m1\<rparr>" "ptr_c a" "ptr_h a" "ptr_w a" "ptr_d a" o8 o16 o32 o64] ok m1(2) by auto
  have "in_order (?named @ ?through) s = Inr ((), s\<lparr>mem := m2\<rparr>)"
    unfolding in_order_append using m1(1) m2(1) by (simp del: in_order.simps)
  then show ?thesis using m2(2) by auto
qed

text \<open>
  The test passes: from zero, the increments by name and through the pointers all count, and the
  atomic pointer takes the values that are stored, exchanged, and compared and exchanged.
\<close>

theorem purecap_atomic_passes:
  assumes ok: "atomics_ok a" and m: "counted a 0 0 0 0 (mem s)"
  shows "\<exists>m'. clang_purecap_atomic a newval old oldp s = Inr ((), s\<lparr>mem := put_cap (at_p a) (int_cap 3) m'\<rparr>)"
proof -
  obtain m1 where m1: "in_order [increment (at_c a) (ucast old :: u8), increment (at_h a) (ucast old :: u16), increment (at_w a) (ucast old :: u32),
      increment (at_d a) old, increment (ptr_c a) (ucast old :: u8), increment (ptr_h a) (ucast old :: u16),
      increment (ptr_w a) (ucast old :: u32), increment (ptr_d a) old] s = Inr ((), s\<lparr>mem := m1\<rparr>)" "counted a 2 2 2 2 m1"
    using increments_run [OF ok m] by blast
  have p: "cap_place (at_p a)" and n: "names (at_c a) (ptr_c a) (LENGTH(8) div 8)" "names (at_h a) (ptr_h a) (LENGTH(16) div 8)"
    "names (at_w a) (ptr_w a) (LENGTH(32) div 8)" "names (at_d a) (ptr_d a) (LENGTH(64) div 8)"
    using ok by (simp_all add: atomics_ok_def)
  have l: "cap_length (ptr_c a) = 1" "cap_length (ptr_h a) = 2" "cap_length (ptr_w a) = 4" "cap_length (ptr_d a) = 8" "cap_length (ptr_p a) = 32"
    using ok word_eq_of_nat [of "cap_length (ptr_c a)" 1] word_eq_of_nat [of "cap_length (ptr_h a)" 2] word_eq_of_nat [of "cap_length (ptr_w a)" 4]
      word_eq_of_nat [of "cap_length (ptr_d a)" 8] word_eq_of_nat [of "cap_length (ptr_p a)" 32]
    by (simp_all add: atomics_ok_def names_def spans_def)
  have h: "in_order [holds_number (at_c a) (ucast old :: 8 word) 2, holds_number (at_h a) (ucast old :: 16 word) 2,
       holds_number (at_w a) (ucast old :: 32 word) 2, holds_number (at_d a) old 2] (s\<lparr>mem := m1\<rparr>) = Inr ((), s\<lparr>mem := m1\<rparr>)"
    using n m1(2) by (intro in_order_unchanged) (auto simp: holds_number_def names_def counted_def reading_can)
  have "load_cap (at_p a) m1 = Inr null_cap" using m1(2) by (simp add: counted_def)
  then have "clang_purecap_atomic a newval old oldp s =
      Inr ((), s\<lparr>mem := put_cap (at_p a) (int_cap 3) (put_cap (at_p a) (int_cap 2) (put_cap (at_p a) newval (put_cap (at_p a) (int_cap 1) m1)))\<rparr>)"
    using m1(1) h l by (simp add: clang_purecap_atomic_def compare_exchange_def exchange_def reading_def writing_def cap_place_access(2) [OF p]
        put_cap_same [OF p] cap_eq_def del: in_order.simps)
  then show ?thesis by blast
qed

end
