(* ===== verification/RuntimeMachine.thy ===== *)
theory RuntimeMachine
  imports TestRuntimeProps TestMachine
begin

text \<open>
  Why a fault in \<open>TestMachine\<close> is a step over the instruction: it is what \<open>capsighandler\<close> of
  \<open>test_runtime.c\<close> does for an instruction that is not in the delay slot of a branch. For one that
  is, \<open>TestRuntimeProps\<close> says where the program goes on.
\<close>

lemma handler_steps_over:
  assumes "cause_register_ok context" and "\<not> bit (mc_cause context) 31"
  shows "capsighandler 32 sigprot (Some h) m sigprot context n =
    Inr (context\<lparr>mc_pc := mc_pc context + 4\<rparr>, h (cause_register context) (drop_bit 8 (cf_capcause context)) n)"
  using assms(2)
  by (simp add: capsighandler_def isInDelaySlot_32 getCapRegAtIndex_cause [OF assms(1)] Let_def)

text \<open>
  With the handler the runtime starts with, the faults are counted alike, the memory is the same and
  the context is only moved behind the instruction, whose register keeps its value.
\<close>

theorem trap_is_handler:
  assumes "cause_register_ok context" and "\<not> bit (mc_cause context) 31" and "e \<noteq> Address_error"
  shows "\<exists>s'. trap count_faults e old s = Inr (old, s') \<and> mem s' = mem s \<and>
    capsighandler 32 sigprot (Some count_fault) (mem s) sigprot context (faults s) =
      Inr (context\<lparr>mc_pc := mc_pc context + 4\<rparr>, faults s')"
  using assms(3) handler_steps_over [OF assms(1,2)] by (auto simp: trap_count count_fault_def)

theorem trap_is_handler_witness:
  "\<exists>s'. trap count_faults Length_fault (7 :: nat) \<lparr>mem = example_memory [], faults = 3\<rparr> = Inr (7, s') \<and>
    capsighandler 32 34 (Some count_fault) (example_memory []) 34 (example_context 0) 3 =
      Inr ((example_context 0)\<lparr>mc_pc := 260\<rparr>, faults s')"
proof -
  have "\<not> bit (mc_cause (example_context 0)) 31" "mc_pc (example_context 0) = 256" by (simp_all add: example_context_def)
  then show ?thesis
    using trap_is_handler [OF example_context_ok(2), of 0 Length_fault "7 :: nat" "\<lparr>mem = example_memory [], faults = 3\<rparr>" 34] by auto
qed

end
