(* ===== verification/CopyTestGap.thy ===== *)
theory CopyTestGap
  imports CopyTestProps
begin

text \<open>
  What \<open>libc_memcpy.c\<close> does not see. Its \<open>invalidate\<close> overwrites only the first byte of the
  structure, so behind an aligned copy of the whole structure the bytes that a copy with an
  unaligned start has to move are there already.
\<close>

section \<open>A routine that leaves out the copies with an unaligned start\<close>

definition leaves_out_unaligned :: "cap copier \<Rightarrow> cap copier" where
  "leaves_out_unaligned copy d s n m =
     (if n = 93 \<and> unat (cap_addr d) mod 32 \<noteq> 0 then Some (Inr (d, m)) else copy d s n m)"

lemma passes_conj: "passes P ss Q \<Longrightarrow> passes P' ss Q' \<Longrightarrow> passes (\<lambda>m. P m \<and> P' m) ss (\<lambda>m. Q m \<and> Q' m)"
  by (fastforce simp: passes_def)

lemma holds_from: "holds a v lo hi m \<Longrightarrow> lo \<le> lo' \<Longrightarrow> holds a v lo' hi m"
  by (simp add: holds_def)

lemma invalidate_keeps:
  assumes t: "test_struct A t" and "hi \<le> 32"
  shows "passes (holds (addr A t) v 1 hi) (invalidate A t) (holds (addr A t) v 1 hi)"
  unfolding invalidate_def
proof (intro passes_effects)
  fix s m
  assume s: "s \<in> set (map (\<lambda>_. put_byte (as_cap A t) 0 0xa5) [0..<96])" and h: "holds (addr A t) v 1 hi m"
  have ob: "object_at (as_cap A t) (addr A t) 96" and al: "addr A t mod 32 = 0"
    using t by (simp_all add: test_struct_def)
  note nw = object_at_end [OF ob]
  then have lt: "addr A t < 2 ^ 64" by simp
  let ?m = "write_byte (of_nat (addr A t)) 0xa5 m"
  have "s m = Inr ?m" using s put_byte_at [OF ob, of 0 "0xa5" m] by auto
  moreover have "byte_at ?m (addr A t + i) = byte_at m (addr A t + i)" if "0 < i" "i < 96" for i
    using that nw byte_at_write_byte [OF lt, of "addr A t + i"] by simp
  moreover have "tag_at ?m ((addr A t + 32) div 32) = tag_at m ((addr A t + 32) div 32)"
    using nw tag_at_write_byte [OF lt, of "(addr A t + 32) div 32"] div_add_self2 [of 32 "addr A t"] by simp
  ultimately have "s m = Inr ?m" "holds (addr A t) v 1 hi ?m"
    using h assms(2) by (auto simp: holds_def pointer_in_def add.assoc)
  then show "\<exists>m'. s m = Inr m' \<and> holds (addr A t) v 1 hi m'" by blast
qed

text \<open>The calls it carries out.\<close>

lemma part_left_out:
  assumes "test_struct purecap t2"
  shows "copy_part purecap (leaves_out_unaligned copy) t2 t1 3 3 93 = Inr"
    and "copy_part purecap (leaves_out_unaligned copy) t2 t1 0 s n = copy_part purecap copy t2 t1 0 s n"
    and "n \<noteq> 93 \<Longrightarrow> copy_part purecap (leaves_out_unaligned copy) t2 t1 d s n = copy_part purecap copy t2 t1 d s n"
proof -
  have al: "unat (cap_addr t2) mod 32 = 0" "unat (cap_addr t2) + 96 < 2 ^ 64"
    using struct_facts [OF assms] by (simp_all add: addr_def purecap_def)
  then have "unat (cap_addr t2 + 3) = unat (cap_addr t2) + 3"
    using unat_add_of_nat [of "cap_addr t2" 3] by simp
  then have "unat (cap_addr t2 + 3) mod 32 \<noteq> 0" using al(1) by presburger
  then show "copy_part purecap (leaves_out_unaligned copy) t2 t1 3 3 93 = Inr"
    by (auto simp: fun_eq_iff copy_part_def call_copy_def leaves_out_unaligned_def purecap_def cap_eq_def)
  show "copy_part purecap (leaves_out_unaligned copy) t2 t1 0 s n = copy_part purecap copy t2 t1 0 s n"
    using al(1) by (simp add: fun_eq_iff copy_part_def call_copy_def leaves_out_unaligned_def purecap_def)
  show "n \<noteq> 93 \<Longrightarrow> copy_part purecap (leaves_out_unaligned copy) t2 t1 d s n = copy_part purecap copy t2 t1 d s n"
    by (simp add: fun_eq_iff copy_part_def call_copy_def leaves_out_unaligned_def)
qed

section \<open>The test passes with it\<close>

lemma libc_memcpy_gap_run:
  assumes cp: "tested_copy purecap copy"
    and t1: "test_struct purecap t1" and t2: "test_struct purecap t2"
    and ap: "apart (addr purecap t1) (addr purecap t2)"
  shows "\<exists>m'. libc_memcpy (leaves_out_unaligned copy) t1 t2 m = Inr m'"
proof -
  let ?A = purecap and ?lazy = "leaves_out_unaligned copy"
  let ?P = "holds (addr ?A t1) t2 0 32" and ?T = "\<lambda>lo. holds (addr ?A t2) t2 lo 32"
  have v: "t2 = as_cap ?A t2" and t1c: "as_cap ?A t1 = t1" by (simp_all add: purecap_def)
  have same: "same_pointer ?A t2 t2" "cap_tag t2"
    using purecap_abi.same_refl [of t2] purecap_abi.struct_usable [OF t2] by (simp_all add: v [symmetric] usable_def)
  note a = struct_facts [OF t1] and part = part_left_out [OF t2, where copy = copy]
  have inv: "passes ?P (invalidate ?A t2) ?P" by (rule invalidate_passes [OF t2 a(1) ap a(2) order_refl])
  have keep: "passes (\<lambda>m. ?P m \<and> ?T 0 m) (invalidate ?A t2) (\<lambda>m. ?P m \<and> ?T 1 m)"
    by (rule passes_weaken [OF passes_conj [OF inv invalidate_keeps [OF t2 order_refl]]]) (auto intro: holds_from)
  have start: "passes (\<lambda>_. True) (invalidate ?A t2 @ fill_test ?A t1 @ [put_pointer t1 32 t2]) ?P"
    using prologue_passes [OF t1 t2, of t2] unfolding t1c .
  have "copy_through_y ?A ?lazy t2 t1 = copy_through_y ?A copy t2 t1"
    by (simp add: fun_eq_iff copy_through_y_def leaves_out_unaligned_def split: sum.split)
  then have thru: "passes ?P ([copy_through_y ?A ?lazy t2 t1] @ check ?A t2 0 32) (\<lambda>m. ?P m \<and> ?T 0 m)"
    using through_y_holds [OF purecap_abi.pointer_abi_axioms cp t1 t2 ap] unfolding v [symmetric] by simp
  note aligned = tested_copy.aligned_part_passes [OF cp t1 t2 ap _ _ _ same]
  have whole: "passes ?P ([copy_part ?A ?lazy t2 t1 0 0 96] @ check ?A t2 0 32) (\<lambda>m. ?P m \<and> ?T 0 m)"
    using aligned [of 0 96] part(2) by simp
  have none: "passes (\<lambda>m. ?P m \<and> ?T 1 m) ([copy_part ?A ?lazy t2 t1 3 3 93] @ check ?A t2 3 32) ?P"
  proof (rule passes_append)
    show "passes (\<lambda>m. ?P m \<and> ?T 1 m) [copy_part ?A ?lazy t2 t1 3 3 93] (\<lambda>m. ?P m \<and> ?T 1 m)"
      by (simp add: part(1) passes_def)
    have "passes (\<lambda>m. ?P m \<and> ?T 1 m) (check ?A t2 3 32) (\<lambda>m. ?P m \<and> ?T 1 m)"
      by (rule check_passes [OF t2 same order_refl]) (rule holds_from, erule conjunct2, simp)
    then show "passes (\<lambda>m. ?P m \<and> ?T 1 m) (check ?A t2 3 32) ?P" by (rule passes_weaken) simp_all
  qed
  have others: "passes ?P ([copy_part ?A ?lazy t2 t1 0 0 93] @ check ?A t2 0 29) ?P"
    "passes ?P ([copy_part ?A ?lazy t2 t1 3 3 90] @ check ?A t2 3 29) ?P"
    using aligned [of 0 93, THEN passes_weaken, of ?P ?P] aligned [of 3 90, THEN passes_weaken, of ?P ?P] part(2,3)
    by simp_all
  have "shifted_copy ?A ?lazy t2 t1 = shifted_copy ?A copy t2 t1" by (simp add: shifted_copy_def part(3))
  then have shift: "passes ?P (shifted_copy ?A ?lazy t2 t1) ?P"
    using tested_copy.shifted_copy_passes [OF cp t1 t2 ap] by simp
  have round: "passes (\<lambda>m. ?P m \<and> ?T 1 m) (unaligned_copies ?A ?lazy t2 t1 @ shifted_copy ?A ?lazy t2 t1) ?P"
    unfolding unaligned_copies_def
    using passes_append [OF none passes_chain [OF others(1) passes_chain [OF others(2) passes_chain [OF inv shift]]]]
    by (simp only: append_assoc)
  show ?thesis
    unfolding libc_memcpy_def whole_copy_def
    using passes_append [OF start passes_chain [OF inv passes_append [OF thru passes_append [OF keep
      passes_append [OF round passes_chain [OF inv passes_append [OF whole passes_append [OF keep
      passes_append [OF round passes_chain [OF inv others(2)]]]]]]]]]]
    by (intro passes_run) (simp only: append_assoc)
qed


text \<open>
  C22. \<open>libc_memcpy\<close> overlooks a wrong \<open>memcpy\<close>: it passes with a routine that does nothing for the
  copies of the whole structure behind an unaligned start, whatever the memory, when the other
  calls are those of a \<open>memcpy\<close>. The statements under \<open>Test that it still works with an unaligned
  start\<close> test nothing, because \<open>invalidate\<close> leaves what the aligned copy in front of them wrote.
\<close>

theorem libc_memcpy_overlooks:
  assumes "\<And>d s n m a b. object_at d a (unat n) \<Longrightarrow> object_at s b (unat n) \<Longrightarrow>
      a + unat n \<le> b \<or> b + unat n \<le> a \<Longrightarrow>
      \<exists>m'. memcpy d s n m = Some (Inr (d, m')) \<and> moved (of_nat a) (of_nat b) n m m'"
    and "object_at t1 a 96" and "object_at t2 b 96" and "two_structs a b"
  shows "\<exists>m'. libc_memcpy (leaves_out_unaligned memcpy) t1 t2 m = Inr m'"
  by (intro libc_memcpy_gap_run libc_memcpy_routine libc_memcpy_structs [OF assms(2-4)]) (rule assms(1))

theorem libc_memcpy_overlooks_witness:
  "\<exists>m'. libc_memcpy (leaves_out_unaligned cmemcpy_c) (object_cap 4096 96) (object_cap 8192 96)
     \<lparr>bytes = \<lambda>x. ucast x, tags = \<lambda>_. False\<rparr> = Inr m'"
proof (rule libc_memcpy_overlooks)
  fix d s m a b and n :: u64
  assume "object_at d a (unat n)" "object_at s b (unat n)" "a + unat n \<le> b \<or> b + unat n \<le> a"
  then show "\<exists>m'. cmemcpy_c d s n m = Some (Inr (d, m')) \<and> moved (of_nat a) (of_nat b) n m m'"
    using memcpy_c.copies [of d a n s b m] by (simp add: purecap_def)
next
  show "object_at (object_cap 4096 96) 4096 96" "object_at (object_cap 8192 96) 8192 96"
    by (simp_all add: object_at_def object_cap_covers)
  show "two_structs 4096 8192" by (simp add: two_structs_def apart_def)
qed

end
