(* ===== verification/FloatTests.thy ===== *)
theory FloatTests
  imports HybridTests
begin

text \<open>
  \<open>clang_hybrid_load_double.c\<close> and \<open>clang_hybrid_load_float.c\<close>: four floating point numbers are read
  through a capability and added. The floating point unit is an argument, its addition of
  words; what IEEE 754 says of it for integers is a predicate. The literals of the programs are
  integers, and comparing with one that is neither zero nor a NaN is comparing the words.
\<close>

section \<open>Integers as floating point numbers\<close>

fun top_bit :: "nat \<Rightarrow> nat" where
  "top_bit n = (if n < 2 then 0 else Suc (top_bit (n div 2)))"

declare top_bit.simps [simp del]

text \<open>The format with \<open>m\<close> bits behind the leading one; its integers up to \<open>2 ^ (m + 1)\<close> are exact.\<close>

definition fp_nat :: "nat \<Rightarrow> nat \<Rightarrow> nat \<Rightarrow> nat" where
  "fp_nat m bias n =
     (if n = 0 then 0 else let e = top_bit n in (bias + e) * 2 ^ m + (n * 2 ^ (m - e) - 2 ^ m))"

definition double_lit :: "nat \<Rightarrow> u64" where "double_lit n = of_nat (fp_nat 52 1023 n)"

definition float_lit :: "nat \<Rightarrow> u32" where "float_lit n = of_nat (fp_nat 23 127 n)"

text \<open>Adding two integers is exact when the sum is a number of the format.\<close>

definition adds_integers :: "nat \<Rightarrow> (nat \<Rightarrow> 'a::len word) \<Rightarrow> ('a word \<Rightarrow> 'a word \<Rightarrow> 'a word) \<Rightarrow> bool" where
  "adds_integers m lit add \<longleftrightarrow> (\<forall>i j. i + j < 2 ^ Suc m \<longrightarrow> add (lit i) (lit j) = lit (i + j))"

section \<open>The tests\<close>

definition fp_array :: "(nat \<Rightarrow> 'a::len word) \<Rightarrow> 'a word list" where
  "fp_array lit = [lit 1, lit 2, lit 3, lit 4]"

fun fp_sum :: "('a word \<Rightarrow> 'a word \<Rightarrow> 'a word) \<Rightarrow> 'a::len word \<Rightarrow> nat \<Rightarrow> cap \<Rightarrow> 'a word \<Rightarrow> 'a word prog" where
  "fp_sum add old 0 dp t = ret t"
| "fp_sum add old (Suc i) dp t =
     bind (reading count_faults (get_data dp) old) (\<lambda>x. fp_sum add old i (plus_ptr dp (element old 1)) (add t x))"

definition fp_test_body ::
  "(nat \<Rightarrow> 'a::len word) \<Rightarrow> ('a word \<Rightarrow> 'a word \<Rightarrow> 'a word) \<Rightarrow> cap \<Rightarrow> u64 \<Rightarrow> 'a word \<Rightarrow> unit prog" where
  "fp_test_body lit add ddc array old =
     bind (fp_sum add old 4 (to_cap ddc array) (lit 0)) (\<lambda>t. assert_that (t = lit 10))"

text \<open>\<open>config1\<close> is the value of the configuration register; its lowest bit tells of a floating point unit.\<close>

definition clang_hybrid_load_double :: "u64 \<Rightarrow> (u64 \<Rightarrow> u64 \<Rightarrow> u64) \<Rightarrow> cap \<Rightarrow> u64 \<Rightarrow> u64 \<Rightarrow> unit prog" where
  "clang_hybrid_load_double config1 add ddc array old =
     bind (if config1 AND 1 \<noteq> 0 then fp_test_body double_lit add ddc array old else assert_that True) (\<lambda>_.
     assert_state (\<lambda>s. faults s = 0))"

definition clang_hybrid_load_float :: "u64 \<Rightarrow> (u32 \<Rightarrow> u32 \<Rightarrow> u32) \<Rightarrow> cap \<Rightarrow> u64 \<Rightarrow> u32 \<Rightarrow> unit prog" where
  "clang_hybrid_load_float config1 add ddc array old =
     bind (if config1 AND 1 \<noteq> 0 then fp_test_body float_lit add ddc array old else assert_that True) (\<lambda>_.
     assert_state (\<lambda>s. faults s = 0))"

section \<open>The words of different integers differ\<close>

lemma top_bit_bounds: "0 < n \<Longrightarrow> 2 ^ top_bit n \<le> n \<and> n < 2 ^ Suc (top_bit n)"
proof (induction n rule: top_bit.induct)
  case (1 n)
  show ?case
  proof (cases "n < 2")
    case True
    with 1(2) show ?thesis by (simp add: top_bit.simps [of n])
  next
    case False
    then have "2 ^ top_bit (n div 2) \<le> n div 2" "n div 2 < 2 ^ Suc (top_bit (n div 2))" using 1 by auto
    with False show ?thesis by (simp add: top_bit.simps [of n]) linarith
  qed
qed

text \<open>The integer back from its word.\<close>

definition nat_of_fp :: "nat \<Rightarrow> nat \<Rightarrow> nat \<Rightarrow> nat" where
  "nat_of_fp m bias w = (if w = 0 then 0 else (2 ^ m + w mod 2 ^ m) div 2 ^ (m + bias - w div 2 ^ m))"

lemma fp_nat_parts:
  assumes "0 < n" and "n < 2 ^ Suc m"
  shows "fp_nat m bias n div 2 ^ m = bias + top_bit n" "2 ^ m + fp_nat m bias n mod 2 ^ m = n * 2 ^ (m - top_bit n)"
    "top_bit n \<le> m"
proof -
  let ?e = "top_bit n"
  note b = top_bit_bounds [OF assms(1)]
  have "(2 :: nat) ^ ?e < 2 ^ Suc m" using b assms(2) by linarith
  then show e: "?e \<le> m" by (simp del: power_Suc)
  have "(2 :: nat) ^ m = 2 ^ ?e * 2 ^ (m - ?e)" using e by (simp flip: power_add)
  then have "2 ^ m \<le> n * 2 ^ (m - ?e)" "n * 2 ^ (m - ?e) < 2 * 2 ^ m" using b by simp_all
  then have lt: "n * 2 ^ (m - ?e) - 2 ^ m < 2 ^ m" and le: "2 ^ m \<le> n * 2 ^ (m - ?e)" by linarith+
  have f: "fp_nat m bias n = (bias + ?e) * 2 ^ m + (n * 2 ^ (m - ?e) - 2 ^ m)" using assms(1) by (simp add: fp_nat_def Let_def)
  show "fp_nat m bias n div 2 ^ m = bias + ?e" using lt unfolding f by simp
  have "fp_nat m bias n mod 2 ^ m = n * 2 ^ (m - ?e) - 2 ^ m" using lt unfolding f by simp
  then show "2 ^ m + fp_nat m bias n mod 2 ^ m = n * 2 ^ (m - ?e)" using le by simp
qed

lemma fp_nat_bound: "n < 2 ^ Suc m \<Longrightarrow> fp_nat m bias n < (bias + m + 1) * 2 ^ m"
proof (cases "n = 0")
  case False
  assume "n < 2 ^ Suc m"
  then have "fp_nat m bias n div 2 ^ m < bias + m + 1" using fp_nat_parts(1) [of n m bias] fp_nat_parts(3) [of n m] False by simp
  then show ?thesis by (simp add: div_less_iff_less_mult)
qed (simp add: fp_nat_def)

lemma nat_of_fp_nat:
  assumes "n < 2 ^ Suc m" and "0 < bias"
  shows "nat_of_fp m bias (fp_nat m bias n) = n"
proof (cases "n = 0")
  case False
  then have p: "fp_nat m bias n div 2 ^ m = bias + top_bit n" "top_bit n \<le> m"
      "2 ^ m + fp_nat m bias n mod 2 ^ m = n * 2 ^ (m - top_bit n)"
    using fp_nat_parts(1,2) [of n m bias] fp_nat_parts(3) [of n m] assms(1) by simp_all
  have "fp_nat m bias n \<noteq> 0" using p(1) assms(2) by (metis add_is_0 div_0 less_numeral_extra(3))
  then show ?thesis using p(2) by (simp add: nat_of_fp_def p(1,3))
qed (simp add: fp_nat_def nat_of_fp_def)

section \<open>The tests pass\<close>

definition fp_stored :: "memory \<Rightarrow> u64 \<Rightarrow> 'a::len word list \<Rightarrow> bool" where
  "fp_stored m a ws \<longleftrightarrow> (\<forall>i < length ws. word_at m (a + of_nat (LENGTH('a) div 8 * i)) = ws ! i)"

lemma fp_sum_step:
  fixes old :: "'a::len word"
  assumes g: "global_data ddc a (LENGTH('a) div 8) 4" and i: "i < 4"
  shows "fp_sum add old (Suc k) (through ddc (a + element old i)) t s =
    fp_sum add old k (through ddc (a + element old (Suc i))) (add t (word_at (mem s) (a + element old i))) s"
proof -
  have "plus_ptr (through ddc (a + element old i)) (element old 1) = through ddc (a + element old (Suc i))"
    by (simp add: through_def plus_ptr_def element_def algebra_simps)
  then show ?thesis
    using through_can(1,2) [OF g i, of PERM_LOAD, folded element_def [of old]] by (simp add: reading_can)
qed

lemma fp_test_body_passes:
  fixes old :: "'a::len word"
  assumes g: "global_data ddc a (LENGTH('a) div 8) 4"
    and st: "fp_stored (mem s) a (fp_array lit)" and add: "adds_integers m lit add" and m: "3 \<le> m"
  shows "fp_test_body lit add ddc a old s = Inr ((), s)"
proof -
  have w: "word_at (mem s) (a + element old i) = fp_array lit ! i" if "i < 4" for i
    using st that unfolding fp_stored_def element_def by (simp add: fp_array_def del: of_nat_mult)
  have lt: "n < 2 ^ Suc m" if "n \<le> 10" for n :: nat
  proof -
    have "(2 :: nat) ^ 4 \<le> 2 ^ Suc m" using m by (intro power_increasing) simp_all
    then show ?thesis using that by simp
  qed
  have t: "to_cap ddc a = through ddc (a + element old 0)"
    using plus_to_cap [of a ddc 0] g by (simp add: global_data_def element_def)
  have "fp_sum add old 4 (through ddc (a + element old 0)) (lit 0) s =
      Inr (add (add (add (add (lit 0) (lit 1)) (lit 2)) (lit 3)) (lit 4), s)"
    using w [of 0] w [of 1] w [of 2] w [of 3]
    by (simp add: eval_nat_numeral fp_array_def fp_sum_step [OF g] del: fp_sum.simps(2))
  also have "add (add (add (add (lit 0) (lit 1)) (lit 2)) (lit 3)) (lit 4) = lit 10"
    using add lt [of 1] lt [of 3] lt [of 6] lt [of 10] by (simp add: adds_integers_def)
  finally show ?thesis by (simp add: fp_test_body_def t)
qed


text \<open>
  Both tests pass, wherever the array is, on every floating point unit that adds integers exactly,
  and without looking at anything on a processor that has none.
\<close>

theorem hybrid_fp_tests_pass:
  assumes "faults s = 0" and "config1 AND 1 = 0 \<or> global_data ddc a 8 4 \<and> global_data ddc b 4 4 \<and>
    fp_stored (mem s) a (fp_array double_lit) \<and> fp_stored (mem s) b (fp_array float_lit) \<and>
    adds_integers 52 double_lit addd \<and> adds_integers 23 float_lit adds"
  shows "clang_hybrid_load_double config1 addd ddc a old s = Inr ((), s) \<and>
    clang_hybrid_load_float config1 adds ddc b old32 s = Inr ((), s)"
proof (cases "config1 AND 1 = 0")
  case False
  then have "fp_test_body double_lit addd ddc a old s = Inr ((), s)" "fp_test_body float_lit adds ddc b old32 s = Inr ((), s)"
    using assms(2) by (auto intro!: fp_test_body_passes)
  then show ?thesis using False assms(1) by (simp add: clang_hybrid_load_double_def clang_hybrid_load_float_def)
qed (simp add: clang_hybrid_load_double_def clang_hybrid_load_float_def assms(1))

text \<open>An adder that is right for the integers of a format.\<close>

definition integer_adder :: "nat \<Rightarrow> nat \<Rightarrow> 'a::len word \<Rightarrow> 'a word \<Rightarrow> 'a word" where
  "integer_adder m bias a b = of_nat (fp_nat m bias (nat_of_fp m bias (unat a) + nat_of_fp m bias (unat b)))"

lemma integer_adder_adds:
  assumes "(bias + m + 1) * 2 ^ m \<le> 2 ^ LENGTH('a::len)" and "0 < bias"
  shows "adds_integers m (\<lambda>n. of_nat (fp_nat m bias n) :: 'a word) (integer_adder m bias)"
proof -
  have "unat (of_nat (fp_nat m bias n) :: 'a word) = fp_nat m bias n" if "n < 2 ^ Suc m" for n
    using fp_nat_bound [OF that, of bias] assms(1) by (simp add: unsigned_of_nat take_bit_nat_eq_self)
  then show ?thesis by (simp add: adds_integers_def integer_adder_def nat_of_fp_nat [OF _ assms(2)] del: power_Suc)
qed

lemma fp_stored_four:
  fixes w0 :: "'a::len word"
  shows "fp_stored m a [w0, w1, w2, w3] \<longleftrightarrow> word_at m a = w0 \<and> word_at m (a + of_nat (LENGTH('a) div 8)) = w1 \<and>
    word_at m (a + of_nat (LENGTH('a) div 8 * 2)) = w2 \<and> word_at m (a + of_nat (LENGTH('a) div 8 * 3)) = w3"
proof -
  have "(\<forall>i < length [w0, w1, w2, w3]. P i) \<longleftrightarrow> P 0 \<and> P 1 \<and> P 2 \<and> P 3" for P
    by (auto simp: less_Suc_eq numeral_3_eq_3 numeral_2_eq_2)
  then show ?thesis by (simp add: fp_stored_def)
qed

text \<open>The words of the literals as the compiler writes them, and a memory that holds them.\<close>

lemma fp_array_words:
  "fp_array double_lit = [0x3ff0000000000000, 0x4000000000000000, 0x4008000000000000, 0x4010000000000000]"
  "fp_array float_lit = [0x3f800000, 0x40000000, 0x40400000, 0x40800000]"
  by (simp_all add: fp_array_def double_lit_def float_lit_def fp_nat_def top_bit.simps)

definition fp_memory :: machine where
  "fp_memory = empty_machine\<lparr>mem := \<lparr>bytes = (\<lambda>a.
     if a \<in> {8192, 8225} then if a = 8192 then 0x3f else 0x80
     else if a = 8224 then 0x3f else if a = 8193 then 0xf0
     else if a \<in> {8200, 8208, 8216, 8228, 8232, 8236} then 0x40
     else if a = 8209 then 8 else if a = 8217 then 0x10
     else if a = 8233 then 0x40 else if a = 8237 then 0x80 else 0), tags = (\<lambda>_. False)\<rparr>\<rparr>"

lemma up_to: "[0..<8] = [0, 1, 2, 3, 4, 5, 6, 7]" "[0..<4] = [0, 1, 2, 3]"
  by (simp_all add: upt_conv_Cons)

lemma fp_memory_stored:
  "fp_stored (mem fp_memory) 8192 (fp_array double_lit)" "fp_stored (mem fp_memory) 8224 (fp_array float_lit)"
  unfolding fp_array_words fp_stored_four
  by (simp_all add: fp_memory_def word_at_def read_bytes_def up_to be_nat_def)

theorem hybrid_fp_tests_pass_witness:
  "clang_hybrid_load_double 1 (integer_adder 52 1023) whole_memory 8192 7 fp_memory = Inr ((), fp_memory) \<and>
   clang_hybrid_load_float 1 (integer_adder 23 127) whole_memory 8224 7 fp_memory = Inr ((), fp_memory)"
proof -
  have "adds_integers 52 double_lit (integer_adder 52 1023)" "adds_integers 23 float_lit (integer_adder 23 127)"
    unfolding double_lit_def [abs_def] float_lit_def [abs_def] by (rule integer_adder_adds; simp)+
  moreover have "global_data whole_memory 8192 8 4" "global_data whole_memory 8224 4 4"
    by (simp_all add: cap_simps whole_memory_def global_data_def)
  ultimately show ?thesis
    using hybrid_fp_tests_pass [of fp_memory 1 whole_memory 8192 8224 "integer_adder 52 1023" "integer_adder 23 127"]
      fp_memory_stored by (simp add: fp_memory_def stack_buffer_simps)
qed

end
