(* ===== verification/LibcTests.thy ===== *)
theory LibcTests
  imports PurecapTests "HOL-Library.Multiset"
begin

text \<open>
  \<open>libc_malloc.c\<close> and \<open>libc_qsort.c\<close>. The routines of the C library they call are arguments; what
  the library documents of them is stated as a predicate.
\<close>

section \<open>Allocation\<close>

record allocator =
  malloc :: "u64 \<Rightarrow> cap prog"
  calloc :: "u64 \<Rightarrow> u64 \<Rightarrow> cap prog"
  free :: "cap \<Rightarrow> unit prog"

definition check_allocation :: "cap \<Rightarrow> u64 \<Rightarrow> unit prog" where
  "check_allocation a sz =
     bind (assert_that (cap_tag a)) (\<lambda>_.
     bind (assert_that (cap_length a - cap_offset a \<ge> sz)) (\<lambda>_.
     bind (assert_that (has_perm a PERM_STORE_CAPABILITY)) (\<lambda>_.
     bind (assert_that (has_perm a PERM_STORE)) (\<lambda>_.
     bind (assert_that (has_perm a PERM_LOAD_CAPABILITY)) (\<lambda>_.
     bind (assert_that (has_perm a PERM_LOAD)) (\<lambda>_.
     bind (assert_that (cap_offset a = 0)) (\<lambda>_.
     bind (assert_that (cap_length a \<ge> sz)) (\<lambda>_.
     if sz \<ge> 32 then assert_that (cap_base a AND 31 = 0) else ret ()))))))))"

definition check_size :: "allocator \<Rightarrow> u8 \<Rightarrow> nat \<Rightarrow> unit prog" where
  "check_size A old sz =
     bind (malloc A (of_nat sz)) (\<lambda>a.
     bind (check_allocation a (of_nat sz)) (\<lambda>_.
     bind (calloc A (of_nat sz) 1) (\<lambda>b.
     bind (check_allocation b (of_nat sz)) (\<lambda>_.
     bind (in_order (map (\<lambda>i. bind (reading count_faults (get_data (plus_ptr b (of_nat i))) old) (\<lambda>c.
             assert_that (c = 0))) [0..<sz - 1])) (\<lambda>_.
     bind (free A a) (\<lambda>_.
     free A b))))))"

definition libc_malloc :: "allocator \<Rightarrow> u8 \<Rightarrow> unit prog" where
  "libc_malloc A old =
     in_order (concat (map (\<lambda>i. [check_size A old (2 ^ i), check_size A old (2 ^ i + 1)]) [1..<21]))"

text \<open>
  What is documented of an allocation of up to \<open>2 ^ 20 + 1\<close> bytes, except that \<open>calloc\<close> need only
  clear \<open>k\<close> of its \<open>n\<close> bytes, for the \<open>k\<close> that \<open>cleared n\<close> says.
\<close>

definition allocated :: "cap \<Rightarrow> nat \<Rightarrow> bool" where
  "allocated c n \<longleftrightarrow> usable c \<and> cap_wf c \<and> cap_offset c = 0 \<and> n \<le> unat (cap_length c) \<and>
     cap_perms c AND 0x3c = 0x3c \<and> (32 \<le> n \<longrightarrow> unat (cap_base c) mod 32 = 0)"

definition allocator_ok :: "(nat \<Rightarrow> nat) \<Rightarrow> allocator \<Rightarrow> bool" where
  "allocator_ok cleared A \<longleftrightarrow>
     (\<forall>n \<le> 2 ^ 20 + 1. \<forall>s. \<exists>c s'. malloc A (of_nat n) s = Inr (c, s') \<and> allocated c n) \<and>
     (\<forall>n \<le> 2 ^ 20 + 1. \<forall>s. \<exists>c s'. calloc A (of_nat n) 1 s = Inr (c, s') \<and> allocated c n \<and>
        (\<forall>k < cleared n. bytes (mem s') (cap_addr c + of_nat k) = 0)) \<and>
     (\<forall>c s. \<exists>s'. free A c s = Inr ((), s'))"

lemma check_allocation_passes:
  assumes "allocated c n" and "n \<le> 2 ^ 20 + 1"
  shows "check_allocation c (of_nat n) s = Inr ((), s)"
proof -
  have n: "unat (of_nat n :: u64) = n" using assms(2) by (simp add: unsigned_of_nat take_bit_nat_eq_self)
  have "cap_base c AND 31 = 0" if "32 \<le> n"
  proof -
    have "cap_base c AND 31 = take_bit 5 (cap_base c)" by (simp add: take_bit_eq_mask mask_eq_exp_minus_1)
    also have "\<dots> = 0" using that assms(1)
      by (simp add: allocated_def word_unat_eq_iff unsigned_take_bit_eq) (simp add: take_bit_eq_mod)
    finally show ?thesis .
  qed
  moreover have "has_perm c PERM_LOAD" "has_perm c PERM_STORE" "has_perm c PERM_LOAD_CAPABILITY" "has_perm c PERM_STORE_CAPABILITY"
    using all_perms [of c] assms(1) by (simp_all add: allocated_def perm_defs)
  ultimately show ?thesis
    using assms(1) n by (simp add: check_allocation_def allocated_def usable_def word_le_nat_alt)
qed

lemma check_size_passes:
  assumes "allocator_ok (\<lambda>n. n - 1) A" and "n \<le> 2 ^ 20 + 1"
  shows "\<exists>s'. check_size A old n s = Inr ((), s')"
proof -
  obtain a s1 where a: "malloc A (of_nat n) s = Inr (a, s1)" "allocated a n"
    using assms unfolding allocator_ok_def by blast
  obtain b s2 where b: "calloc A (of_nat n) 1 s1 = Inr (b, s2)" "allocated b n"
      "\<forall>k < n - 1. bytes (mem s2) (cap_addr b + of_nat k) = 0"
    using assms unfolding allocator_ok_def by blast
  obtain s3 where s3: "free A a s2 = Inr ((), s3)" using assms(1) unfolding allocator_ok_def by blast
  obtain s4 where s4: "free A b s3 = Inr ((), s4)" using assms(1) unfolding allocator_ok_def by blast
  have "in_order (map (\<lambda>i. bind (reading count_faults (get_data (plus_ptr b (of_nat i))) old) (\<lambda>c.
      assert_that (c = 0))) [0..<n - 1]) s2 = Inr ((), s2)"
  proof (rule in_order_unchanged)
    fix p assume "p \<in> set (map (\<lambda>i. bind (reading count_faults (get_data (plus_ptr b (of_nat i))) old) (\<lambda>c.
      assert_that (c = 0))) [0..<n - 1])"
    then obtain i where i: "i < n - 1" and p: "p = bind (reading count_faults (get_data (plus_ptr b (of_nat i))) old) (\<lambda>c. assert_that (c = 0))"
      by auto
    have "has_perm b PERM_LOAD" using all_perms [of b] b(2) by (simp add: allocated_def perm_defs)
    moreover have "unat (cap_base b + of_nat i) = unat (cap_base b) + i"
      using b(2) i by (intro unat_add_of_nat) (simp add: allocated_def cap_wf_def, linarith)
    moreover have "Suc i \<le> unat (cap_length b)" using b(2) i by (simp add: allocated_def) linarith
    ultimately have "can PERM_LOAD 1 (plus_ptr b (of_nat i))"
      using b(2) i by (simp add: can_def in_bounds_def allocated_def cap_addr_def)
    then show "p s2 = Inr ((), s2)" using b(3) i unfolding p by (simp add: reading_def get_byte)
  qed
  then show ?thesis
    using a b(1) s3 s4 check_allocation_passes [OF a(2) assms(2)] check_allocation_passes [OF b(2) assms(2)]
    by (simp add: check_size_def)
qed

lemma in_order_ends:
  assumes "\<And>p s. p \<in> set ps \<Longrightarrow> \<exists>s'. p s = Inr ((), s')"
  shows "\<exists>s'. in_order ps s = Inr ((), s')"
  using assms
proof (induction ps arbitrary: s)
  case (Cons p ps)
  obtain s1 where "p s = Inr ((), s1)" using Cons.prems by (meson list.set_intros(1))
  moreover obtain s2 where "in_order ps s1 = Inr ((), s2)" using Cons by (meson list.set_intros(2))
  ultimately show ?case by auto
qed simp

text \<open>
  C33. The test of the allocator passes with every allocator that meets its contract, and also with
  one whose \<open>calloc\<close> leaves the last byte of a block uncleared: the test never looks at it.
\<close>

theorem libc_malloc_passes:
  assumes "allocator_ok (\<lambda>n. n - 1) A"
  shows "\<exists>s'. libc_malloc A old s = Inr ((), s')"
  unfolding libc_malloc_def
proof (rule in_order_ends)
  fix p s assume "p \<in> set (concat (map (\<lambda>i. [check_size A old (2 ^ i), check_size A old (2 ^ i + 1)]) [1..<21]))"
  then obtain i where i: "i < 21" and "p = check_size A old (2 ^ i) \<or> p = check_size A old (2 ^ i + 1)" by auto
  then obtain n where n: "n \<in> {2 ^ i, 2 ^ i + 1}" and p: "p = check_size A old n" by blast
  have "(2 :: nat) ^ i \<le> 2 ^ 20" using i by (intro power_increasing) simp_all
  then show "\<exists>s'. p s = Inr ((), s')" using n unfolding p by (intro check_size_passes [OF assms]) auto
qed

definition careless_calloc :: "u64 \<Rightarrow> u64 \<Rightarrow> cap prog" where
  "careless_calloc n k s =
     Inr (stack_buffer\<lparr>cap_length := n * k\<rparr>,
       s\<lparr>mem := \<lparr>bytes = (\<lambda>a. if a = 4095 + n * k then 1 else 0), tags = (\<lambda>_. False)\<rparr>\<rparr>)"

definition careless_allocator :: allocator where
  "careless_allocator = \<lparr>malloc = (\<lambda>n. ret (stack_buffer\<lparr>cap_length := n\<rparr>)), calloc = careless_calloc, free = (\<lambda>_. ret ())\<rparr>"

theorem libc_malloc_passes_witness: "\<exists>s'. libc_malloc careless_allocator 9 empty_machine = Inr ((), s')"
proof (rule libc_malloc_passes)
  have len: "unat (of_nat n :: u64) = n" if "n \<le> 2 ^ 20 + 1" for n
    using that by (simp add: unsigned_of_nat take_bit_nat_eq_self)
  have a: "allocated (stack_buffer\<lparr>cap_length := of_nat n\<rparr>) n" if "n \<le> 2 ^ 20 + 1" for n
    using len [OF that] that by (simp add: allocated_def stack_buffer_def usable_def cap_wf_def)
  have z: "4096 + of_nat k \<noteq> 4095 + (of_nat n :: u64)" if "n \<le> 2 ^ 20 + 1" "k < n - 1" for n k
  proof -
    have "unat (4096 + of_nat k :: u64) = 4096 + k" "unat (4095 + of_nat n :: u64) = 4095 + n"
      using that unat_add_of_nat [of 4096 k] unat_add_of_nat [of 4095 n] by simp_all
    then have "unat (4096 + of_nat k :: u64) \<noteq> unat (4095 + of_nat n :: u64)" using that(2) by linarith
    then show ?thesis by metis
  qed
  show "allocator_ok (\<lambda>n. n - 1) careless_allocator"
    using a z by (auto simp: allocator_ok_def careless_allocator_def careless_calloc_def)
      (simp add: stack_buffer_def cap_addr_def)
qed

section \<open>Sorting\<close>

text \<open>A pointer to a string: whether it is valid, and the characters in front of the zero byte.\<close>

record str_ptr =
  ptr_tag :: bool
  chars :: "nat list"

record dict_entry =
  dict_key :: int
  dict_value :: str_ptr

fun strcmp :: "nat list \<Rightarrow> nat list \<Rightarrow> int" where
  "strcmp [] [] = 0"
| "strcmp [] (y # ys) = -1"
| "strcmp (x # xs) [] = 1"
| "strcmp (x # xs) (y # ys) = (if x = y then strcmp xs ys else int x - int y)"

definition letter :: "nat \<Rightarrow> str_ptr" where
  "letter c = \<lparr>ptr_tag = True, chars = [c]\<rparr>"

definition array_init :: "str_ptr list" where
  "array_init = map letter [99, 100, 98, 97, 102, 101, 103]"

definition array1_init :: "dict_entry list" where
  "array1_init = [\<lparr>dict_key = 2, dict_value = letter 99\<rparr>, \<lparr>dict_key = 3, dict_value = letter 100\<rparr>,
     \<lparr>dict_key = 1, dict_value = letter 98\<rparr>, \<lparr>dict_key = 0, dict_value = letter 97\<rparr>,
     \<lparr>dict_key = 5, dict_value = letter 102\<rparr>, \<lparr>dict_key = 4, dict_value = letter 101\<rparr>,
     \<lparr>dict_key = 6, dict_value = letter 103\<rparr>]"

definition compare_ptr :: "str_ptr \<Rightarrow> str_ptr \<Rightarrow> int" where
  "compare_ptr a b = strcmp (chars a) (chars b)"

definition compare1 :: "dict_entry \<Rightarrow> dict_entry \<Rightarrow> int" where
  "compare1 k1 k2 = strcmp (chars (dict_value k1)) (chars (dict_value k2))"

text \<open>The test, with the two uses of \<open>qsort\<close> as arguments; None is a failed assertion.\<close>

definition libc_qsort ::
  "((str_ptr \<Rightarrow> str_ptr \<Rightarrow> int) \<Rightarrow> str_ptr list \<Rightarrow> str_ptr list) \<Rightarrow>
   ((dict_entry \<Rightarrow> dict_entry \<Rightarrow> int) \<Rightarrow> dict_entry list \<Rightarrow> dict_entry list) \<Rightarrow> unit option" where
  "libc_qsort qsort qsort1 =
     (if \<not> list_all (\<lambda>i. ptr_tag (array_init ! i) \<and> ptr_tag (dict_value (array1_init ! i))) [0..<7] then None
      else let array = qsort compare_ptr array_init; array1 = qsort1 compare1 array1_init in
      if list_all (\<lambda>i. ptr_tag (array ! i) \<and> ptr_tag (dict_value (array1 ! i)) \<and>
           chars (array ! i) ! 0 = 97 + i \<and> chars (dict_value (array1 ! i)) ! 0 = 97 + i) [0..<7]
      then Some () else None)"

text \<open>What is documented of \<open>qsort\<close>: it leaves the elements, in an order the comparison allows.\<close>

definition sorts :: "(('a \<Rightarrow> 'a \<Rightarrow> int) \<Rightarrow> 'a list \<Rightarrow> 'a list) \<Rightarrow> ('a \<Rightarrow> 'a \<Rightarrow> int) \<Rightarrow> 'a list \<Rightarrow> bool" where
  "sorts q cmp xs \<longleftrightarrow> mset (q cmp xs) = mset xs \<and> sorted_wrt (\<lambda>x y. cmp x y \<le> 0) (q cmp xs)"

lemma sorted_by_letter:
  assumes "mset ys = mset xs" and "sorted_wrt (\<lambda>x y. strcmp (chars (f x)) (chars (f y)) \<le> 0) ys"
    and "\<forall>x \<in> set xs. f x = letter (g x)" and "sort (map g xs) = [97..<97 + length xs]"
  shows "map f ys = map letter [97..<97 + length xs]"
proof -
  have s: "set ys = set xs" using assms(1) by (rule mset_eq_setD)
  have "sorted_wrt (\<lambda>x y. g x \<le> g y) ys"
  proof (rule sorted_wrt_mono_rel [OF _ assms(2)])
    fix x y assume "x \<in> set ys" "y \<in> set ys" "strcmp (chars (f x)) (chars (f y)) \<le> 0"
    then show "g x \<le> g y" using assms(3) unfolding s by (auto simp: letter_def split: if_splits)
  qed
  then have "sorted (map g ys)" by (simp add: sorted_map)
  moreover have "mset (map g ys) = mset (map g xs)" using assms(1) by (simp add: mset_map)
  ultimately have "map g ys = sort (map g xs)" by (metis properties_for_sort)
  then have "map letter (map g ys) = map letter [97..<97 + length xs]" using assms(4) by simp
  moreover have "map f ys = map letter (map g ys)" using assms(3) s by simp
  ultimately show ?thesis by simp
qed

lemma libc_qsort_passes:
  assumes "sorts qsort compare_ptr array_init" and "sorts qsort1 compare1 array1_init"
  shows "libc_qsort qsort qsort1 = Some ()"
proof -
  let ?a = "qsort compare_ptr array_init" and ?b = "qsort1 compare1 array1_init"
  have sorts: "sort [99, 100, 98, 97, 102, 101, 103] = [97..<97 + 7 :: nat]" by code_simp
  have a: "map id ?a = map letter [97..<97 + length array_init]"
    using assms(1) sorts
    by (intro sorted_by_letter [where g = "\<lambda>p. hd (chars p)"]) (auto simp: sorts_def compare_ptr_def array_init_def letter_def)
  have b: "map dict_value ?b = map letter [97..<97 + length array1_init]"
    using assms(2) sorts
    by (intro sorted_by_letter [where g = "\<lambda>p. hd (chars (dict_value p))"]) (auto simp: sorts_def compare1_def array1_init_def letter_def)
  have l: "length array_init = 7" "length array1_init = 7" by (simp_all add: array_init_def array1_init_def)
  have "?a ! i = letter (97 + i)" "dict_value (?b ! i) = letter (97 + i)" if "i < 7" for i
    using that arg_cong [OF a, of "\<lambda>xs. xs ! i"] arg_cong [OF b, of "\<lambda>xs. xs ! i"]
      arg_cong [OF a, of length] arg_cong [OF b, of length] l by (simp_all del: upt_rec_numeral)
  moreover have "list_all (\<lambda>i. ptr_tag (array_init ! i) \<and> ptr_tag (dict_value (array1_init ! i))) [0..<7]" by code_simp
  ultimately show ?thesis by (simp add: libc_qsort_def Let_def list_all_iff letter_def)
qed

end
