(* ===== verification/SmallTests.thy ===== *)
theory SmallTests
  imports FloatTests LibcTests
begin

text \<open>
  Small tests of calls and of the C library: \<open>clang_hybrid_pack.c\<close>, \<open>clang_purecap_byval_args.c\<close>,
  \<open>clang_purecap_capretaddr.c\<close>, \<open>libc_string.c\<close> and \<open>libc_setjmp.c\<close>. The string functions, \<open>memset\<close>
  and what the compiler does to pass a structure by value are arguments.
\<close>

section \<open>Unaligned members\<close>

text \<open>
  An access through a plain pointer to a member that is not aligned: the processor stops at it
  unless \<open>emulated\<close> says that the operating system does the access.
\<close>

definition get_member :: "bool \<Rightarrow> cap \<Rightarrow> memory \<Rightarrow> cheri_fault + 'a::len word" where
  "get_member emulated c m =
     (if emulated \<and> access_check c PERM_LOAD Load_fault (LENGTH('a) div 8) = None
      then Inr (word_at m (cap_addr c)) else get_data c m)"

definition put_member :: "bool \<Rightarrow> cap \<Rightarrow> 'a::len word \<Rightarrow> memory \<Rightarrow> cheri_fault + memory" where
  "put_member emulated c v m =
     (if emulated \<and> access_check c PERM_STORE Store_fault (LENGTH('a) div 8) = None
      then Inr (set_word (cap_addr c) v m) else put_data c v m)"

text \<open>The members of \<open>packed_s\<close> by their places in it.\<close>

definition packed_a :: u64 where "packed_a = 0"
definition packed_b :: u64 where "packed_b = 1"
definition packed_c :: u64 where "packed_c = 5"

definition check_struct :: "bool \<Rightarrow> cap \<Rightarrow> u64 \<Rightarrow> u32 \<Rightarrow> unit prog" where
  "check_struct emulated ddc x old =
     bind (reading count_faults (get_member emulated (through ddc (x + packed_a))) (ucast old :: u8)) (\<lambda>a.
     bind (assert_that (a = 0)) (\<lambda>_.
     bind (reading count_faults (get_member emulated (through ddc (x + packed_b))) old) (\<lambda>b.
     bind (assert_that (b = 0x01020304)) (\<lambda>_.
     bind (reading count_faults (get_member emulated (through ddc (x + packed_c))) (ucast old :: u8)) (\<lambda>c.
     assert_that (c = 5))))))"

definition clang_hybrid_pack :: "bool \<Rightarrow> cap \<Rightarrow> u64 \<Rightarrow> u32 \<Rightarrow> unit prog" where
  "clang_hybrid_pack emulated ddc x old =
     bind (writing count_faults (put_member emulated (through ddc (x + packed_a)) (0 :: u8))) (\<lambda>_.
     bind (writing count_faults (put_member emulated (through ddc (x + packed_c)) (5 :: u8))) (\<lambda>_.
     bind (writing count_faults (put_member emulated (through ddc (x + packed_b)) (0x01020304 :: u32))) (\<lambda>_.
     bind (check_struct emulated ddc x old) (\<lambda>_.
     assert_state (\<lambda>s. faults s = 0)))))"

section \<open>Structures by value\<close>

text \<open>
  \<open>pass\<close> is the passing of the structure: from the pointer to the caller's to the pointer to
  the callee's. \<open>memset\<close> is the library's.
\<close>

type_synonym memset_fun = "cap \<Rightarrow> u8 \<Rightarrow> u64 \<Rightarrow> cap prog"

definition foo_byval :: "memset_fun \<Rightarrow> cap \<Rightarrow> unit prog" where
  "foo_byval memset f = bind (memset f 42 1024) (\<lambda>_. ret ())"

definition first_is_zero :: "cap \<Rightarrow> u8 \<Rightarrow> unit prog" where
  "first_is_zero global_foo old =
     bind (reading count_faults (get_data global_foo) old) (\<lambda>c. assert_that (c = 0))"

definition clang_purecap_byval_args :: "memset_fun \<Rightarrow> (cap \<Rightarrow> cap prog) \<Rightarrow> cap \<Rightarrow> u8 \<Rightarrow> unit prog" where
  "clang_purecap_byval_args memset pass global_foo old =
     bind (memset global_foo 0 1024) (\<lambda>_.
     bind (first_is_zero global_foo old) (\<lambda>_.
     bind (pass global_foo) (\<lambda>f.
     bind (foo_byval memset f) (\<lambda>_.
     first_is_zero global_foo old))))"

section \<open>The return address\<close>

text \<open>
  \<open>r\<close> is what \<open>__builtin_return_address(0)\<close> gives in \<open>foo\<close>, \<open>testfn\<close> the pointer to that function.
  The assertions of \<open>XFAIL\<close> are compiled if \<open>include_xfail\<close> says so.
\<close>

definition clang_purecap_capretaddr :: "bool \<Rightarrow> cap \<Rightarrow> cap \<Rightarrow> unit prog" where
  "clang_purecap_capretaddr include_xfail testfn r =
     bind (assert_that (cap_tag r)) (\<lambda>_.
     bind (assert_that (cap_perms r AND PERM_EXECUTE = PERM_EXECUTE)) (\<lambda>_.
     bind (assert_that (cap_offset r > cap_offset testfn)) (\<lambda>_.
     bind (assert_that (cap_offset r - cap_offset testfn < 100 * 4)) (\<lambda>_.
     if include_xfail then
       bind (assert_that (cap_perms r AND PERM_STORE_CAPABILITY = 0)) (\<lambda>_.
       assert_that (cap_perms r AND PERM_STORE = 0))
     else ret ()))))"

section \<open>Strings\<close>

record string_library =
  strcmp_fn :: "cap \<Rightarrow> cap \<Rightarrow> int prog"
  string_length :: "cap \<Rightarrow> u64 prog"
  strcpy :: "cap \<Rightarrow> cap \<Rightarrow> cap prog"
  memcpy :: "cap \<Rightarrow> cap \<Rightarrow> u64 \<Rightarrow> cap prog"

definition digits_string :: "u8 list" where
  "digits_string = [0x31, 0x32, 0x33, 0x34, 0x35, 0x36, 0x37, 0x38, 0x39, 0]"

definition same_string :: "string_library \<Rightarrow> cap \<Rightarrow> cap \<Rightarrow> unit prog" where
  "same_string L a b = bind (strcmp_fn L a b) (\<lambda>r. assert_that (r = 0))"

text \<open>The three arrays are on the stack; the compiler fills the first two.\<close>

definition initialise :: "cap \<Rightarrow> u8 list \<Rightarrow> unit prog" where
  "initialise c bs s = Inr ((), s\<lparr>mem := write_bytes (cap_addr c) bs (mem s)\<rparr>)"

definition libc_string :: "string_library \<Rightarrow> cap \<Rightarrow> cap \<Rightarrow> cap \<Rightarrow> unit prog" where
  "libc_string L str str2 str3 =
     bind (initialise str digits_string) (\<lambda>_.
     bind (initialise str2 digits_string) (\<lambda>_.
     bind (assert_that (cap_length str = of_nat (length digits_string))) (\<lambda>_.
     bind (same_string L str str2) (\<lambda>_.
     bind (string_length L str) (\<lambda>n.
     bind (assert_that (n = 9)) (\<lambda>_.
     bind (strcpy L str3 str2) (\<lambda>_.
     bind (same_string L str str3) (\<lambda>_.
     bind (memcpy L str3 str2 (of_nat (length digits_string))) (\<lambda>_.
     same_string L str str3)))))))))"

section \<open>Jumps\<close>

text \<open>A function ends, fails an assertion or jumps; \<open>position\<close> is the state.\<close>

datatype jump = Failed_assertion | Long_jump int int

definition position_is :: "int \<Rightarrow> (int \<Rightarrow> jump + 'a) \<Rightarrow> int \<Rightarrow> jump + 'a" where
  "position_is n p position = (if position = n then p position else Inl Failed_assertion)"

definition dolongjump :: "int \<Rightarrow> jump + int" where
  "dolongjump = position_is 3 (\<lambda>position. let position = position + 1 in Inl (Long_jump 2 position))"

text \<open>\<open>setjmp\<close> returns 0, and once more for every jump to it, with the value of the jump or 1 for 0.\<close>

partial_function (option) setjmp :: "(int \<Rightarrow> int \<Rightarrow> jump + int) \<Rightarrow> int \<Rightarrow> int \<Rightarrow> (jump + int) option" where
  "setjmp k result position =
     (case k result position of
        Inl (Long_jump v position') \<Rightarrow> setjmp k (if v = 0 then 1 else v) position'
      | r \<Rightarrow> Some r)"

definition behind_setjmp :: "int \<Rightarrow> int \<Rightarrow> jump + int" where
  "behind_setjmp result position =
     (case (if result = 0 then position_is 2 (\<lambda>position. dolongjump (position + 1)) position else Inr position) of
        Inl j \<Rightarrow> Inl j
      | Inr position \<Rightarrow> position_is 4 Inr position)"

definition dosetjump :: "int \<Rightarrow> (jump + int) option" where
  "dosetjump position =
     (case position_is 1 Inr position of
        Inl j \<Rightarrow> Some (Inl j) | Inr position \<Rightarrow> setjmp behind_setjmp 0 (position + 1))"

definition libc_setjmp :: "int \<Rightarrow> (jump + int) option" where
  "libc_setjmp position =
     (case position_is 0 Inr position of
        Inl j \<Rightarrow> Some (Inl j) | Inr position \<Rightarrow> dosetjump (position + 1))"

text \<open>
  The test of \<open>setjmp\<close> ends and passes, with both returns of \<open>setjmp\<close> taken, exactly when the counter starts at zero.
\<close>

theorem libc_setjmp_passes:
  "libc_setjmp position = Some (if position = 0 then Inr 4 else Inl Failed_assertion)"
  by (simp add: libc_setjmp_def dosetjump_def position_is_def behind_setjmp_def dolongjump_def
      setjmp.simps [of behind_setjmp 0] setjmp.simps [of behind_setjmp 2])

text \<open>
  The test of the return address passes exactly when it is an executable capability with an offset
  behind the function, by less than a hundred instructions: it says nothing of the bounds. With the
  assertions of \<open>XFAIL\<close> it must not be writable either.
\<close>

theorem purecap_capretaddr_passes:
  "clang_purecap_capretaddr include_xfail testfn r s = Inr ((), s) \<longleftrightarrow>
     cap_tag r \<and> has_perm r PERM_EXECUTE \<and> unat (cap_offset testfn) < unat (cap_offset r) \<and>
     unat (cap_offset r) < unat (cap_offset testfn) + 400 \<and>
     (include_xfail \<longrightarrow> cap_perms r AND PERM_STORE_CAPABILITY = 0 \<and> cap_perms r AND PERM_STORE = 0)"
proof -
  have "(cap_offset r - cap_offset testfn < 400 \<longleftrightarrow> unat (cap_offset r) < unat (cap_offset testfn) + 400)"
    if "cap_offset testfn < cap_offset r"
  proof -
    have "unat (cap_offset r - cap_offset testfn) = unat (cap_offset r) - unat (cap_offset testfn)"
      using that by (intro unat_sub) simp
    then show ?thesis using that by (simp add: word_less_nat_alt) linarith
  qed
  then show ?thesis
    by (auto simp: clang_purecap_capretaddr_def bind_def assert_that_def ret_def has_perm_def word_less_nat_alt
        split: if_splits)
qed


section \<open>The packed structure\<close>

lemma packed_access:
  assumes g: "global_data ddc x 1 6" and k: "unat k + n \<le> 6" and p: "p = PERM_LOAD \<or> p = PERM_STORE"
  shows "access_check (through ddc (x + k)) p e n = None" "cap_addr (through ddc (x + k)) = x + k"
    "unat (x + k) = unat x + unat k" "unat x + 6 < 2 ^ 64"
proof -
  have "unat x + 6 \<le> unat (cap_length ddc)" using g by (simp add: global_data_def)
  also have "\<dots> < 2 ^ 64" using unsigned_less [of "cap_length ddc", where ?'a = nat] by simp
  finally show lt: "unat x + 6 < 2 ^ 64" .
  show a: "cap_addr (through ddc (x + k)) = x + k" using g by (simp add: through_def cap_addr_def global_data_def)
  show u: "unat (x + k) = unat x + unat k" using lt k unat_add_of_nat [of x "unat k"] by simp
  show "access_check (through ddc (x + k)) p e n = None"
    using g p k u by (auto simp: access_check_None global_data_def through_def usable_def has_perm_def in_bounds_def cap_addr_def)
qed

lemma get_member_run:
  assumes "global_data ddc x 1 6" and "unat k + LENGTH('a::len) div 8 \<le> 6"
    and "emulated \<or> unat (x + k) mod (LENGTH('a) div 8) = 0"
  shows "reading H (get_member emulated (through ddc (x + k))) (old :: 'a word) s = Inr (word_at (mem s) (x + k), s)"
  using packed_access(1) [OF assms(1,2), of PERM_LOAD Load_fault] packed_access(2) [OF assms(1,2), of PERM_LOAD] assms(3)
  by (auto simp: reading_def get_member_def get_data_def word_at_def)

lemma put_member_run:
  assumes "global_data ddc x 1 6" and "unat k + LENGTH('a::len) div 8 \<le> 6"
    and "emulated \<or> unat (x + k) mod (LENGTH('a) div 8) = 0"
  shows "writing H (put_member emulated (through ddc (x + k)) (v :: 'a word)) s =
    Inr ((), s\<lparr>mem := set_word (x + k) v (mem s)\<rparr>)"
  using packed_access(1) [OF assms(1,2), of PERM_STORE Store_fault] packed_access(2) [OF assms(1,2), of PERM_STORE] assms(3)
  by (auto simp: writing_def put_member_def put_data_def set_word_def)

lemma put_member_stops:
  assumes "global_data ddc x 1 6" and "unat k + LENGTH('a::len) div 8 \<le> 6"
    and "unat (x + k) mod (LENGTH('a) div 8) \<noteq> 0"
  shows "writing H (put_member False (through ddc (x + k)) (v :: 'a word)) s = Inl (Killed Address_error)"
  using packed_access(1) [OF assms(1,2), of PERM_STORE Store_fault] packed_access(2) [OF assms(1,2), of PERM_STORE] assms(3)
  by (simp add: writing_def put_member_def put_data_def trap_def)

lemmas packed_places = packed_a_def packed_b_def packed_c_def

text \<open>
  The test of the packed structure passes if unaligned accesses are emulated, or if the structure is
  by chance just in front of a word; otherwise the store to the middle member ends it.
\<close>

theorem hybrid_pack_passes:
  assumes g: "global_data ddc x 1 6" and "faults s = 0"
  shows "if emulated \<or> unat x mod 4 = 3
    then \<exists>m. clang_hybrid_pack emulated ddc x old s = Inr ((), s\<lparr>mem := m\<rparr>)
    else clang_hybrid_pack emulated ddc x old s = Inl (Killed Address_error)"
proof -
  note byte = put_member_run [OF g, where 'a = 8 and k = 0] put_member_run [OF g, where 'a = 8 and k = 5]
    get_member_run [OF g, where 'a = 8 and k = 0] get_member_run [OF g, where 'a = 8 and k = 5]
  note int = put_member_run [OF g, where 'a = 32 and k = 1] get_member_run [OF g, where 'a = 32 and k = 1]
  have lt: "unat x + 6 < 2 ^ 64" using packed_access(4) [OF g, of 0 1 PERM_LOAD] by simp
  have u: "unat (x + 1) = unat x + 1" "unat (x + 5) = unat x + 5"
    using packed_access(3) [OF g, of 1 1 PERM_LOAD] packed_access(3) [OF g, of 5 1 PERM_LOAD] by simp_all
  have al: "unat (x + 1) mod 4 = 0 \<longleftrightarrow> unat x mod 4 = 3" unfolding u(1) by presburger
  define m1 where "m1 = set_word (x + 5) (5 :: u8) (set_word x (0 :: u8) (mem s))"
  define m where "m = set_word (x + 1) (0x01020304 :: u32) m1"
  have w: "word_at m x = (0 :: u8)" "word_at m (x + 1) = (0x01020304 :: u32)" "word_at m (x + 5) = (5 :: u8)"
    using lt u by (simp_all add: m_def m1_def word_at_same word_at_apart)
  show ?thesis
  proof (cases "emulated \<or> unat x mod 4 = 3")
    case True
    then have ok: "emulated \<or> unat (x + 1) mod 4 = 0" using al by metis
    have "clang_hybrid_pack emulated ddc x old s = Inr ((), s\<lparr>mem := m\<rparr>)"
      using ok byte int w assms(2)
      by (simp add: clang_hybrid_pack_def check_struct_def packed_places m_def m1_def)
    with True show ?thesis by auto
  next
    case False
    then have "unat (x + 1) mod 4 \<noteq> 0" using al by metis
    then have "clang_hybrid_pack emulated ddc x old s = Inl (Killed Address_error)"
      using False byte(1,2) put_member_stops [OF g, where 'a = 32 and k = 1]
      by (simp add: clang_hybrid_pack_def packed_places)
    with False show ?thesis by simp
  qed
qed

theorem hybrid_pack_passes_witness:
  "clang_hybrid_pack False whole_memory 8192 7 empty_machine = Inl (Killed Address_error) \<and>
   (\<exists>m. clang_hybrid_pack True whole_memory 8192 7 empty_machine = Inr ((), empty_machine\<lparr>mem := m\<rparr>))"
proof -
  have "global_data whole_memory 8192 1 6" by (simp add: cap_simps whole_memory_def global_data_def)
  then show ?thesis
    using hybrid_pack_passes [of whole_memory 8192 empty_machine False 7]
      hybrid_pack_passes [of whole_memory 8192 empty_machine True 7] by (simp add: stack_buffer_simps)
qed


section \<open>Passing by value\<close>

definition memset_ok :: "memset_fun \<Rightarrow> bool" where
  "memset_ok memset \<longleftrightarrow> (\<forall>c v n s. spans c n \<and> has_perm c PERM_STORE \<longrightarrow>
     memset c v (of_nat n) s = Inr (c, s\<lparr>mem := write_bytes (cap_base c) (replicate n v) (mem s)\<rparr>))"

text \<open>The callee's structure is at \<open>f\<close>; passing it does not touch the caller's.\<close>

definition passes_at :: "cap \<Rightarrow> cap \<Rightarrow> (cap \<Rightarrow> cap prog) \<Rightarrow> bool" where
  "passes_at g f pass \<longleftrightarrow> (\<forall>s. \<exists>s'. pass g s = Inr (f, s') \<and>
     (\<forall>i < 1024. bytes (mem s') (cap_base g + of_nat i) = bytes (mem s) (cap_base g + of_nat i)))"

lemma bytes_filled:
  "unat a + n \<le> 2 ^ 64 \<Longrightarrow> bytes (write_bytes a (replicate n v) m) x = (if in_region x a n then v else bytes m x)"
  by (simp add: bytes_write_bytes) (auto simp: in_region_def)

lemma spans_size: "spans c n \<Longrightarrow> unat (of_nat n :: u64) = n"
  using unsigned_less [of "cap_length c", where ?'a = nat]
  by (simp add: spans_def unsigned_of_nat take_bit_nat_eq_self)

text \<open>
  The test of structures by value passes exactly when the first byte of the caller's structure is
  not in the callee's: it finds a structure passed by its address, though no other overlap.
\<close>

theorem purecap_byval_args_passes:
  assumes ms: "memset_ok memset" and pass: "passes_at g f pass"
    and g: "spans g 1024" "has_perm g PERM_LOAD" "has_perm g PERM_STORE" and f: "spans f 1024" "has_perm f PERM_STORE"
  shows "if in_region (cap_base g) (cap_base f) 1024 then clang_purecap_byval_args memset pass g old s = Inl Assertion
    else \<exists>s'. clang_purecap_byval_args memset pass g old s = Inr ((), s')"
proof -
  have wf: "unat (cap_base g) + 1024 \<le> 2 ^ 64" "unat (cap_base f) + 1024 \<le> 2 ^ 64"
    using g(1) f(1) by (simp_all add: spans_def cap_wf_def)
  have m: "memset g v 1024 t = Inr (g, t\<lparr>mem := write_bytes (cap_base g) (replicate 1024 v) (mem t)\<rparr>)"
    "memset f v 1024 t = Inr (f, t\<lparr>mem := write_bytes (cap_base f) (replicate 1024 v) (mem t)\<rparr>)" for v t
    using ms [unfolded memset_ok_def, rule_format, of g 1024 v t] ms [unfolded memset_ok_def, rule_format, of f 1024 v t] g f
    by (simp_all)
  define s1 where "s1 = s\<lparr>mem := write_bytes (cap_base g) (replicate 1024 0) (mem s)\<rparr>"
  obtain s2 where s2: "pass g s1 = Inr (f, s2)"
      "\<forall>i < 1024. bytes (mem s2) (cap_base g + of_nat i) = bytes (mem s1) (cap_base g + of_nat i)"
    using pass unfolding passes_at_def by blast
  from spec [OF s2(2), of 0] have same: "bytes (mem s2) (cap_base g) = bytes (mem s1) (cap_base g)" by simp
  define s3 where "s3 = s2\<lparr>mem := write_bytes (cap_base f) (replicate 1024 42) (mem s2)\<rparr>"
  have rd: "reading count_faults (get_data g) old t = Inr (bytes (mem t) (cap_base g), t)" for t
    using get_byte [of g "mem t"] can_start [OF g(1), of 1 PERM_LOAD] g(2) spans_addr [OF g(1)] by (simp add: reading_def)
  have "in_region (cap_base g) (cap_base g) 1024" by (simp add: in_region_def)
  then have "bytes (mem s1) (cap_base g) = 0"
    using bytes_filled [OF wf(1)] by (simp add: s1_def)
  moreover have "bytes (mem s3) (cap_base g) = (if in_region (cap_base g) (cap_base f) 1024 then 42 else bytes (mem s2) (cap_base g))"
    using bytes_filled [OF wf(2)] by (simp add: s3_def)
  ultimately show ?thesis
    using s2(1) same m by (simp add: clang_purecap_byval_args_def first_is_zero_def foo_byval_def rd s1_def [symmetric] s3_def [symmetric])
      (simp add: assert_that_def)
qed

definition simple_memset :: memset_fun where
  "simple_memset c v n s = Inr (c, s\<lparr>mem := write_bytes (cap_base c) (replicate (unat n) v) (mem s)\<rparr>)"

definition global_foo_cap :: cap where "global_foo_cap = stack_buffer\<lparr>cap_base := 8192, cap_length := 1024\<rparr>"
definition frame_foo_cap :: cap where "frame_foo_cap = stack_buffer\<lparr>cap_length := 1024\<rparr>"

definition pass_copy :: "cap \<Rightarrow> cap prog" where
  "pass_copy g s = Inr (frame_foo_cap, s\<lparr>mem := write_bytes 4096 (read_bytes (mem s) (cap_base g) 1024) (mem s)\<rparr>)"

theorem purecap_byval_args_passes_witness:
  "(\<exists>s'. clang_purecap_byval_args simple_memset pass_copy global_foo_cap 7 empty_machine = Inr ((), s')) \<and>
   clang_purecap_byval_args simple_memset ret global_foo_cap 7 empty_machine = Inl Assertion"
proof -
  have ms: "memset_ok simple_memset"
    by (auto simp: memset_ok_def simple_memset_def spans_size simp del: unat_of_nat unsigned_of_nat)
  have sp: "spans global_foo_cap 1024" "spans frame_foo_cap 1024"
    "has_perm global_foo_cap PERM_LOAD" "has_perm global_foo_cap PERM_STORE" "has_perm frame_foo_cap PERM_STORE"
    by (simp_all add: cap_simps global_foo_cap_def frame_foo_cap_def stack_buffer_def)
  have b: "cap_base global_foo_cap = 8192" "cap_base frame_foo_cap = 4096"
    by (simp_all add: global_foo_cap_def frame_foo_cap_def stack_buffer_def)
  have "passes_at global_foo_cap frame_foo_cap pass_copy"
    unfolding passes_at_def pass_copy_def by (simp add: b bytes_write_bytes in_region_def unat_add_of_nat [of 8192])
  moreover have "passes_at global_foo_cap global_foo_cap ret" unfolding passes_at_def by simp
  ultimately show ?thesis
    using purecap_byval_args_passes [OF ms, of global_foo_cap frame_foo_cap pass_copy 7 empty_machine]
      purecap_byval_args_passes [OF ms, of global_foo_cap global_foo_cap ret 7 empty_machine] sp b
    by (simp add: in_region_def)
qed


section \<open>The string functions\<close>

definition holds_string :: "memory \<Rightarrow> cap \<Rightarrow> u8 list \<Rightarrow> bool" where
  "holds_string m c bs \<longleftrightarrow> 0 \<notin> set bs \<and> spans c (Suc (length bs)) \<and> has_perm c PERM_LOAD \<and>
     read_bytes m (cap_base c) (Suc (length bs)) = bs @ [0]"

definition objects_apart :: "cap \<Rightarrow> cap \<Rightarrow> bool" where
  "objects_apart a b \<longleftrightarrow> unat (cap_base a) + unat (cap_length a) \<le> unat (cap_base b) \<or>
     unat (cap_base b) + unat (cap_length b) \<le> unat (cap_base a)"

text \<open>What the library documents, for strings that fill their objects and copies between objects of one size.\<close>

definition string_library_ok :: "string_library \<Rightarrow> bool" where
  "string_library_ok L \<longleftrightarrow>
     (\<forall>s a b x y. holds_string (mem s) a x \<and> holds_string (mem s) b y \<longrightarrow>
        (\<exists>r. strcmp_fn L a b s = Inr (r, s) \<and> (r = 0 \<longleftrightarrow> x = y))) \<and>
     (\<forall>s a x. holds_string (mem s) a x \<longrightarrow> string_length L a s = Inr (of_nat (length x), s)) \<and>
     (\<forall>s a d x. holds_string (mem s) a x \<and> spans d (Suc (length x)) \<and> has_perm d PERM_STORE \<and> objects_apart d a \<longrightarrow>
        strcpy L d a s = Inr (d, s\<lparr>mem := write_bytes (cap_base d) (x @ [0]) (mem s)\<rparr>)) \<and>
     (\<forall>s a d n. n < 32 \<and> spans a n \<and> has_perm a PERM_LOAD \<and> spans d n \<and> has_perm d PERM_STORE \<and> objects_apart d a \<longrightarrow>
        memcpy L d a (of_nat n) s = Inr (d, s\<lparr>mem := write_bytes (cap_base d) (read_bytes (mem s) (cap_base a) n) (mem s)\<rparr>))"

lemma spans_no_wrap: "spans c n \<Longrightarrow> unat (cap_base c) + n \<le> 2 ^ 64"
  by (simp add: spans_def cap_wf_def)

lemma string_written:
  assumes "spans c (Suc (length bs))" and "0 \<notin> set bs" and "has_perm c PERM_LOAD"
  shows "holds_string (write_bytes (cap_base c) (bs @ [0]) m) c bs"
  using assms read_bytes_same [of "cap_base c" "bs @ [0]" m] spans_no_wrap [OF assms(1)]
  by (simp add: holds_string_def)

lemma string_kept:
  assumes "holds_string m c bs" and "spans d (length vs)" and "objects_apart d c"
  shows "holds_string (write_bytes (cap_base d) vs m) c bs"
proof -
  have c: "spans c (Suc (length bs))" using assms(1) by (simp add: holds_string_def)
  have l: "unat (cap_length c) = Suc (length bs)" "unat (cap_length d) = length vs"
    using c assms(2) by (simp_all add: spans_def)
  have "read_bytes (write_bytes (cap_base d) vs m) (cap_base c) (Suc (length bs)) = read_bytes m (cap_base c) (Suc (length bs))"
    using assms(3) l spans_no_wrap [OF c] spans_no_wrap [OF assms(2)]
    by (intro read_bytes_apart) (auto simp: objects_apart_def)
  then show ?thesis using assms(1) by (simp add: holds_string_def)
qed

lemma same_string_passes:
  assumes "string_library_ok L" and "holds_string (mem t) p x" and "holds_string (mem t) q x"
  shows "same_string L p q t = Inr ((), t)"
proof -
  have "\<forall>s a b x y. holds_string (mem s) a x \<and> holds_string (mem s) b y \<longrightarrow>
      (\<exists>r. strcmp_fn L a b s = Inr (r, s) \<and> (r = 0 \<longleftrightarrow> x = y))"
    using assms(1) unfolding string_library_ok_def by (rule conjunct1)
  from this [rule_format, of t p x q x] assms(2,3) obtain r where "strcmp_fn L p q t = Inr (r, t)" "r = 0" by auto
  then show ?thesis by (simp add: same_string_def)
qed

lemma memcpy_law:
  assumes "string_library_ok L" and "n < 32" and "spans a n" and "has_perm a PERM_LOAD" and "spans d n"
    and "has_perm d PERM_STORE" and "objects_apart d a"
  shows "memcpy L d a (of_nat n) s = Inr (d, s\<lparr>mem := write_bytes (cap_base d) (read_bytes (mem s) (cap_base a) n) (mem s)\<rparr>)"
  using assms unfolding string_library_ok_def by blast

text \<open>The test of the string functions passes with every library that does what is documented.\<close>

theorem libc_string_passes:
  assumes L: "string_library_ok L"
    and sp: "\<forall>c \<in> {a, b, d}. spans c 10 \<and> has_perm c PERM_LOAD \<and> has_perm c PERM_STORE"
    and ap: "objects_apart a b" "objects_apart b a" "objects_apart d a" "objects_apart d b"
  shows "\<exists>m. libc_string L a b d s = Inr ((), s\<lparr>mem := m\<rparr>) \<and> holds_string m d (butlast digits_string)"
proof -
  define x :: "u8 list" where "x = [0x31, 0x32, 0x33, 0x34, 0x35, 0x36, 0x37, 0x38, 0x39]"
  have x: "digits_string = x @ [0]" "length x = 9" "0 \<notin> set x" "butlast digits_string = x"
    by (simp_all add: x_def digits_string_def)
  have spans: "spans a 10" "spans b 10" "spans d 10" "has_perm a PERM_LOAD" "has_perm b PERM_LOAD" "has_perm d PERM_LOAD"
      "has_perm d PERM_STORE" using sp by simp_all
  have full: "spans c (Suc (length x))" if "spans c 10" for c using that x(2) by simp
  note same = same_string_passes [OF L]
  define m1 where "m1 = write_bytes (cap_base a) (x @ [0]) (mem s)"
  define m2 where "m2 = write_bytes (cap_base b) (x @ [0]) m1"
  define m3 where "m3 = write_bytes (cap_base d) (x @ [0]) m2"
  define m4 where "m4 = write_bytes (cap_base d) (x @ [0]) m3"
  have h1: "holds_string m1 a x" unfolding m1_def by (rule string_written [OF full [OF spans(1)] x(3) spans(4)])
  have h2: "holds_string m2 a x" "holds_string m2 b x"
    unfolding m2_def using string_kept [OF h1, of b "x @ [0]"] spans x(2) ap(2) string_written [OF full [OF spans(2)] x(3) spans(5)] by simp_all
  have h3: "holds_string m3 a x" "holds_string m3 b x" "holds_string m3 d x"
    unfolding m3_def using string_kept [OF h2(1), of d "x @ [0]"] string_kept [OF h2(2), of d "x @ [0]"] spans x(2) ap
      string_written [OF full [OF spans(3)] x(3) spans(6)] by simp_all
  have h4: "holds_string m4 a x" "holds_string m4 d x"
    unfolding m4_def using string_kept [OF h3(1), of d "x @ [0]"] spans x(2) ap
      string_written [OF full [OF spans(3)] x(3) spans(6)] by simp_all
  have len: "string_length L a t = Inr (9, t)" if "holds_string (mem t) a x" for t
    using L that x(2) unfolding string_library_ok_def by (metis of_nat_numeral)
  have "strcpy L d b (s\<lparr>mem := m2\<rparr>) = Inr (d, s\<lparr>mem := m2\<rparr>\<lparr>mem := write_bytes (cap_base d) (x @ [0]) (mem (s\<lparr>mem := m2\<rparr>))\<rparr>)"
    using L h2(2) full [OF spans(3)] spans(7) ap(4) unfolding string_library_ok_def by simp
  then have cpy: "strcpy L d b (s\<lparr>mem := m2\<rparr>) = Inr (d, s\<lparr>mem := m3\<rparr>)" by (simp add: m3_def)
  have "memcpy L d b (of_nat 10) (s\<lparr>mem := m3\<rparr>) =
      Inr (d, s\<lparr>mem := m3\<rparr>\<lparr>mem := write_bytes (cap_base d) (read_bytes (mem (s\<lparr>mem := m3\<rparr>)) (cap_base b) 10) (mem (s\<lparr>mem := m3\<rparr>))\<rparr>)"
    using memcpy_law [OF L, of 10 b d] spans ap(4) by simp
  then have mcp: "memcpy L d b 10 (s\<lparr>mem := m3\<rparr>) = Inr (d, s\<lparr>mem := m4\<rparr>)"
    using h3(2) x(2) by (simp add: m4_def holds_string_def)
  have "cap_length a = 10" using spans(1) word_eq_of_nat [of "cap_length a" 10] by (simp add: spans_def)
  then have "libc_string L a b d s = Inr ((), s\<lparr>mem := m4\<rparr>)"
    using spans same len cpy mcp h2 h3 h4 x(2)
    by (simp add: libc_string_def initialise_def x(1) spans_addr m1_def [symmetric] m2_def [symmetric])
  then show ?thesis using h4(2) x(4) by auto
qed


definition string_in :: "memory \<Rightarrow> cap \<Rightarrow> u8 list" where
  "string_in m c = takeWhile (\<lambda>b. b \<noteq> 0) (read_bytes m (cap_base c) (unat (cap_length c)))"

definition simple_strings :: string_library where
  "simple_strings =
     \<lparr>strcmp_fn = (\<lambda>a b s. Inr (if string_in (mem s) a = string_in (mem s) b then 0 else 1, s)),
      string_length = (\<lambda>a s. Inr (of_nat (length (string_in (mem s) a)), s)),
      strcpy = (\<lambda>d a s. Inr (d, s\<lparr>mem := write_bytes (cap_base d) (string_in (mem s) a @ [0]) (mem s)\<rparr>)),
      memcpy = (\<lambda>d a n s. Inr (d, s\<lparr>mem := write_bytes (cap_base d) (read_bytes (mem s) (cap_base a) (unat n)) (mem s)\<rparr>))\<rparr>"

lemma holds_string_in: "holds_string m c x \<Longrightarrow> string_in m c = x"
  by (auto simp: holds_string_def string_in_def spans_def intro: trans [OF takeWhile_append2])

definition string_cap :: "u64 \<Rightarrow> cap" where "string_cap a = stack_buffer\<lparr>cap_base := a, cap_length := 10\<rparr>"

theorem libc_string_passes_witness:
  "\<exists>m. libc_string simple_strings (string_cap 4096) (string_cap 4112) (string_cap 4128) empty_machine =
     Inr ((), empty_machine\<lparr>mem := m\<rparr>)"
proof -
  have "string_library_ok simple_strings"
    unfolding string_library_ok_def
    by (auto simp: simple_strings_def holds_string_in spans_size simp del: unat_of_nat unsigned_of_nat)
  moreover have "objects_apart (string_cap 4096) (string_cap 4112)" "objects_apart (string_cap 4112) (string_cap 4096)"
      "objects_apart (string_cap 4128) (string_cap 4096)" "objects_apart (string_cap 4128) (string_cap 4112)"
    by (simp_all add: objects_apart_def string_cap_def)
  moreover have "\<forall>c \<in> {string_cap 4096, string_cap 4112, string_cap 4128}. spans c 10 \<and> has_perm c PERM_LOAD \<and> has_perm c PERM_STORE"
    by (simp add: cap_simps string_cap_def stack_buffer_def)
  ultimately show ?thesis
    using libc_string_passes [of simple_strings "string_cap 4096" "string_cap 4112" "string_cap 4128" empty_machine] by auto
qed

end
