(* ===== verification/CallTests.thy ===== *)
theory CallTests
  imports VarArgs GlobalsTests SmallTests
begin

text \<open>
  The tests of calls: \<open>clang_hybrid_toy.c\<close>, \<open>clang_purecap_union_struct.c\<close>, \<open>clang_purecap_funptr.c\<close>,
  \<open>clang_purecap_capret.c\<close>, the part of \<open>clang_purecap_va_args.c\<close> that calls a function, and \<open>libc_printf.c\<close>, which calls a library function with a variable
  number of arguments. The code behind an address and the library functions are arguments.
\<close>

section \<open>The tests\<close>

text \<open>A call with a result; \<open>old\<close> is what the register of the result holds if the call faults.\<close>

definition call_result :: "cap \<Rightarrow> (u64 \<Rightarrow> 'a prog) \<Rightarrow> 'a \<Rightarrow> 'a prog" where
  "call_result f code old =
     (case access_check f PERM_EXECUTE Execute_fault 4 of
        Some e \<Rightarrow> trap count_faults e old
      | None \<Rightarrow> code (cap_addr f))"

definition anotherTest :: "u32 \<Rightarrow> u32" where "anotherTest spare = 53"

definition clang_hybrid_toy :: "unit prog" where
  "clang_hybrid_toy =
     (let a = 42; a = a + anotherTest a in
      bind (assert_that (a = 42 + 53)) (\<lambda>_. assert_state (\<lambda>s. faults s = 0)))"

record CallData =
  Bar_c :: cap
  Bar_i :: u32
  Bar_c2 :: cap

definition f_CallData :: "u8 \<Rightarrow> CallData \<Rightarrow> unit prog" where
  "f_CallData old foo =
     (let d = Bar_c foo; e = Bar_c2 foo; j = Bar_i foo in
      bind (reading count_faults (get_data d) old) (\<lambda>x.
      bind (assert_that (x = 0x68)) (\<lambda>_.
      bind (reading count_faults (get_data e) old) (\<lambda>y.
      bind (assert_that (y = 0x77)) (\<lambda>_.
      assert_that (j = 9))))))"

text \<open>\<open>hello\<close> and \<open>world\<close> are the addresses of the two literals.\<close>

definition clang_purecap_union_struct :: "u8 \<Rightarrow> cap \<Rightarrow> cap \<Rightarrow> unit prog" where
  "clang_purecap_union_struct old hello world =
     f_CallData old \<lparr>Bar_c = hello, Bar_i = 9, Bar_c2 = world\<rparr>"

text \<open>\<open>retsrt\<close> is the pointer to the function, \<open>code\<close> what is behind an address, \<open>literal\<close> the string compared with.\<close>

definition clang_purecap_funptr ::
  "string_library \<Rightarrow> nat \<Rightarrow> nat \<Rightarrow> cap \<Rightarrow> (u64 \<Rightarrow> cap prog) \<Rightarrow> cap \<Rightarrow> cap \<Rightarrow> unit prog" where
  "clang_purecap_funptr L size_fp size_ptr retsrt code literal old =
     bind (assert_that (size_fp = size_ptr)) (\<lambda>_.
     bind (call_result retsrt code old) (\<lambda>p.
     same_string L p literal))"

text \<open>
  The function jumps to its link register \<open>c17\<close>, and the program goes on there. It is only that
  jump: if it faults, the program runs off its end, which counts as killed.
\<close>

definition capret_foo :: "cap \<Rightarrow> unit prog" where
  "capret_foo c17 s =
     (case access_check c17 PERM_EXECUTE Execute_fault 4 of
        Some e \<Rightarrow> Inl (Killed e) | None \<Rightarrow> Inr ((), s))"

definition clang_purecap_capret :: "cap \<Rightarrow> cap \<Rightarrow> unit prog" where
  "clang_purecap_capret foo c17 = call foo (\<lambda>_. capret_foo c17)"

text \<open>\<open>sprintf\<close> with one pointer argument.\<close>

type_synonym sprintf_fun = "cap \<Rightarrow> cap \<Rightarrow> cap \<Rightarrow> int prog"

definition hello_world :: "u8 list" where
  "hello_world = [0x68, 0x65, 0x6c, 0x6c, 0x6f, 0x20, 0x77, 0x6f, 0x72, 0x6c, 0x64, 0]"

definition libc_printf :: "sprintf_fun \<Rightarrow> u8 \<Rightarrow> cap \<Rightarrow> cap \<Rightarrow> cap \<Rightarrow> cap \<Rightarrow> unit prog" where
  "libc_printf sprintf old expected out fmt world =
     bind (initialise expected hello_world) (\<lambda>_.
     bind (sprintf out fmt world) (\<lambda>len.
     bind (assert_that (len = int (length hello_world) - 1)) (\<lambda>_.
     in_order (map (\<lambda>i.
       bind (reading count_faults (get_data (plus_ptr expected (of_nat i))) old) (\<lambda>x.
       bind (reading count_faults (get_data (plus_ptr out (of_nat i))) old) (\<lambda>y.
       assert_that (x = y)))) [0..<length hello_world]))))"

text \<open>
  \<open>check_fp\<close> of \<open>clang_purecap_va_args.c\<close>, whose body is compiled with \<open>INCLUDE_XFAIL\<close> only: the
  function in the list of arguments is called \<open>intarg\<close> times.
\<close>

definition inc :: "cap \<Rightarrow> u32 \<Rightarrow> unit prog" where
  "inc gint old =
     bind (reading count_faults (get_data gint) old) (\<lambda>n. writing count_faults (put_data gint (n + 1)))"

definition check_fp :: "bool \<Rightarrow> registers \<Rightarrow> cap \<Rightarrow> (u64 \<Rightarrow> unit prog) \<Rightarrow> nat \<Rightarrow> cap \<Rightarrow> unit prog" where
  "check_fp include_xfail r gint code intarg ap =
     (if include_xfail then
        bind (assert_that (cap_length ap = 32)) (\<lambda>_.
        bind (va_pointer (r_cap r) ap) (\<lambda>(incfp, ap).
        bind (in_order (replicate intarg (call incfp code))) (\<lambda>_.
        bind (reading count_faults (get_data gint) (r_int r)) (\<lambda>n.
        assert_that (n = of_nat intarg)))))
      else ret ())"

definition va_args_and_fp ::
  "bool \<Rightarrow> va_layout \<Rightarrow> registers \<Rightarrow> cap \<Rightarrow> cap \<Rightarrow> cap \<Rightarrow> (u64 \<Rightarrow> unit prog) \<Rightarrow> cap \<Rightarrow> cap \<Rightarrow> unit prog" where
  "va_args_and_fp include_xfail va r ptrs str gint code ap ap2 =
     bind (va_args_printstuff va r ptrs str 8 ap) (\<lambda>_.
     bind (check_fp include_xfail r gint code 3 ap2) (\<lambda>_.
     assert_state (\<lambda>s. faults s = 0)))"

section \<open>Calls\<close>

theorem hybrid_toy_passes: "clang_hybrid_toy s = (if faults s = 0 then Inr ((), s) else Inl Assertion)"
  by (simp add: clang_hybrid_toy_def anotherTest_def assert_that_def)

text \<open>The structure arrives with its three members, in the places they were written to.\<close>

theorem purecap_union_struct_passes:
  assumes "can PERM_LOAD 1 hello" and "can PERM_LOAD 1 world"
  shows "clang_purecap_union_struct old hello world s =
    (if bytes (mem s) (cap_addr hello) = 0x68 \<and> bytes (mem s) (cap_addr world) = 0x77 then Inr ((), s) else Inl Assertion)"
  using assms by (simp add: clang_purecap_union_struct_def f_CallData_def reading_def get_byte assert_that_def bind_def)

lemma call_runs: "can PERM_EXECUTE 4 f \<Longrightarrow> call f code = code (cap_addr f)"
  "can PERM_EXECUTE 4 f \<Longrightarrow> call_result f code' old = code' (cap_addr f)"
  by (simp_all add: call_def call_result_def access_check_def can_def usable_def)

text \<open>
  The test of function pointers passes when the function returns its string, and fails when the
  string is another one.
\<close>

theorem purecap_funptr_passes:
  assumes L: "string_library_ok L" and f: "can PERM_EXECUTE 4 retsrt" "code (cap_addr retsrt) s = Inr (str, s)"
    and h: "holds_string (mem s) str x" "holds_string (mem s) literal y"
  shows "clang_purecap_funptr L n n retsrt code literal old s = (if x = y then Inr ((), s) else Inl Assertion)"
proof -
  have "\<forall>s a b x y. holds_string (mem s) a x \<and> holds_string (mem s) b y \<longrightarrow>
      (\<exists>r. strcmp_fn L a b s = Inr (r, s) \<and> (r = 0 \<longleftrightarrow> x = y))"
    using L unfolding string_library_ok_def by (rule conjunct1)
  from this [rule_format, of s str x literal y] h
  obtain r where "strcmp_fn L str literal s = Inr (r, s)" "r = 0 \<longleftrightarrow> x = y" by auto
  then show ?thesis
    using f call_runs(2) [OF f(1), of code] by (simp add: clang_purecap_funptr_def same_string_def assert_that_def)
qed

text \<open>The call returns exactly when the link register is a capability that may be executed.\<close>

theorem purecap_capret_passes:
  assumes "can PERM_EXECUTE 4 foo"
  shows "clang_purecap_capret foo c17 s = Inr ((), s) \<longleftrightarrow>
    usable c17 \<and> has_perm c17 PERM_EXECUTE \<and> in_bounds c17 4"
  using call_runs(1) [OF assms, of "\<lambda>_. capret_foo c17"] access_check_None [of c17 PERM_EXECUTE Execute_fault 4]
  by (cases "access_check c17 PERM_EXECUTE Execute_fault 4") (auto simp: clang_purecap_capret_def capret_foo_def)

text \<open>A function is called as often as the argument says, each call counting once.\<close>

lemma call_loop:
  assumes "can PERM_LOAD 4 gint" and "can PERM_STORE 4 gint" and "unat (cap_addr gint) + 4 \<le> 2 ^ 64"
    and "word_at (mem s) (cap_addr gint) = (v :: u32)"
  shows "\<exists>m. in_order (replicate n (inc gint old)) s = Inr ((), s\<lparr>mem := m\<rparr>) \<and> word_at m (cap_addr gint) = v + of_nat n"
  using assms(4)
proof (induction n arbitrary: s v)
  case 0
  then show ?case by (intro exI [of _ "mem s"]) simp
next
  case (Suc n)
  let ?s = "s\<lparr>mem := set_word (cap_addr gint) (v + 1) (mem s)\<rparr>"
  have i: "inc gint old s = Inr ((), ?s)"
    using assms(1,2) Suc.prems by (simp add: inc_def reading_can writing_can)
  have "word_at (mem ?s) (cap_addr gint) = v + 1" using assms(3) by (simp add: word_at_same)
  from Suc.IH [OF this] i show ?case by (auto simp: algebra_simps)
qed

theorem check_fp_passes:
  assumes ap: "spans ap 32" "unat (cap_base ap) mod 32 = 0" and f: "load_cap ap (mem s) = Inr fp" "can PERM_EXECUTE 4 fp"
    and code: "code (cap_addr fp) = inc gint old" and g: "can PERM_LOAD 4 gint" "can PERM_STORE 4 gint"
      "unat (cap_addr gint) + 4 \<le> 2 ^ 64" "word_at (mem s) (cap_addr gint) = (0 :: u32)"
  shows "\<exists>m. check_fp True r gint code n ap s = Inr ((), s\<lparr>mem := m\<rparr>)"
proof -
  obtain m where m: "in_order (replicate n (inc gint old)) s = Inr ((), s\<lparr>mem := m\<rparr>)" "word_at m (cap_addr gint) = (of_nat n :: u32)"
    using call_loop [OF g, of n old] by auto
  have "cap_length ap = 32" using ap(1) word_eq_of_nat [of "cap_length ap" 32] by (simp add: spans_def)
  moreover have "va_pointer (r_cap r) ap s = Inr ((fp, plus_ptr ap 32), s)"
    using va_pointer_at [OF ap, of 0 0 "r_cap r" s] f(1) by (simp add: reading_def)
  moreover have "call fp code = inc gint old" using call_runs(1) [OF f(2), of code] code by simp
  ultimately have "check_fp True r gint code n ap s = Inr ((), s\<lparr>mem := m\<rparr>)"
    using m g(1) by (simp add: check_fp_def reading_can)
  then show ?thesis by blast
qed

lemma va_args_without_xfail:
  "va_args_and_fp False va r ptrs str gint code ap ap2 = clang_purecap_va_args va r ptrs str ap"
  by (simp add: va_args_and_fp_def clang_purecap_va_args_def check_fp_def fun_eq_iff bind_def ret_def split: sum.split)

section \<open>Formatting\<close>

text \<open>What \<open>sprintf\<close> documents of a format with one string in it: the first \<open>%s\<close> becomes the argument.\<close>

fun with_string :: "u8 list \<Rightarrow> u8 list \<Rightarrow> u8 list" where
  "with_string (c # d # fs) arg = (if c = 0x25 \<and> d = 0x73 then arg @ fs else c # with_string (d # fs) arg)"
| "with_string fs arg = fs"

definition sprintf_ok :: "sprintf_fun \<Rightarrow> bool" where
  "sprintf_ok sprintf \<longleftrightarrow> (\<forall>s d f a x y n.
     holds_string (mem s) f x \<and> holds_string (mem s) a y \<and> spans d n \<and> has_perm d PERM_STORE \<and>
     length (with_string x y) < n \<and> objects_apart d f \<and> objects_apart d a \<longrightarrow>
     sprintf d f a s = Inr (int (length (with_string x y)),
       s\<lparr>mem := write_bytes (cap_base d) (with_string x y @ [0]) (mem s)\<rparr>))"

lemma sprintf_law:
  assumes "sprintf_ok sprintf" and "holds_string (mem s) f x" and "holds_string (mem s) a y" and "with_string x y = z"
    and "spans d n" and "has_perm d PERM_STORE" and "length z < n" and "objects_apart d f" and "objects_apart d a"
  shows "sprintf d f a s = Inr (int (length z), s\<lparr>mem := write_bytes (cap_base d) (z @ [0]) (mem s)\<rparr>)"
  using assms unfolding sprintf_ok_def by blast

lemma byte_of_read: "read_bytes m a n = bs \<Longrightarrow> i < n \<Longrightarrow> bytes m (a + of_nat i) = bs ! i"
  by (auto simp: read_bytes_nth)

lemma spans_byte:
  assumes "spans c n" and "i < n" and "has_perm c PERM_LOAD"
  shows "reading H (get_data (plus_ptr c (of_nat i))) (old :: u8) s = Inr (bytes (mem s) (cap_base c + of_nat i), s)"
proof -
  have "can PERM_LOAD 1 (plus_ptr c (of_nat i))"
    using spans_element(1) [OF assms(1), of 1 i PERM_LOAD] assms(2,3) by simp
  then show ?thesis using get_byte spans_addr [OF assms(1)] by (simp add: reading_def)
qed

text \<open>
  The test of \<open>sprintf\<close> passes with every \<open>sprintf\<close> that does what is documented, for the format
  \<open>hello %s\<close> and the string \<open>world\<close>.
\<close>

theorem libc_printf_passes:
  assumes sp: "sprintf_ok sprintf" and e: "spans expected 12" "has_perm expected PERM_LOAD"
    and out: "spans out 20" "has_perm out PERM_LOAD" "has_perm out PERM_STORE"
    and fmt: "holds_string (mem s) fmt [0x68, 0x65, 0x6c, 0x6c, 0x6f, 0x20, 0x25, 0x73]"
    and world: "holds_string (mem s) world [0x77, 0x6f, 0x72, 0x6c, 0x64]"
    and apart: "objects_apart expected fmt" "objects_apart expected world" "objects_apart out fmt"
      "objects_apart out world" "objects_apart out expected"
  shows "\<exists>m. libc_printf sprintf old expected out fmt world s = Inr ((), s\<lparr>mem := m\<rparr>)"
proof -
  define x :: "u8 list" where "x = [0x68, 0x65, 0x6c, 0x6c, 0x6f, 0x20, 0x77, 0x6f, 0x72, 0x6c, 0x64]"
  have x: "hello_world = x @ [0]" "length x = 11" "0 \<notin> set x" by (simp_all add: x_def hello_world_def)
  have f: "with_string [0x68, 0x65, 0x6c, 0x6c, 0x6f, 0x20, 0x25, 0x73] [0x77, 0x6f, 0x72, 0x6c, 0x64] = x"
    by (simp add: x_def)
  define m1 where "m1 = write_bytes (cap_base expected) (x @ [0]) (mem s)"
  define m2 where "m2 = write_bytes (cap_base out) (x @ [0]) m1"
  have sx: "spans expected (length (x @ [0]))" using e(1) x(2) by simp
  have "sprintf out fmt world (s\<lparr>mem := m1\<rparr>) = Inr (int (length x), s\<lparr>mem := m1\<rparr>\<lparr>mem := write_bytes (cap_base out) (x @ [0]) (mem (s\<lparr>mem := m1\<rparr>))\<rparr>)"
    using string_kept [OF fmt sx apart(1)] string_kept [OF world sx apart(2)] x(2)
    by (intro sprintf_law [OF sp _ _ f out(1,3) _ apart(3,4)]) (simp_all add: m1_def)
  then have call: "sprintf out fmt world (s\<lparr>mem := m1\<rparr>) = Inr (11, s\<lparr>mem := m2\<rparr>)" using x(2) by (simp add: m2_def)
  have l: "length (x @ [0]) = 12" using x(2) by simp
  have wf: "unat (cap_base out) + 12 \<le> 2 ^ 64" "unat (cap_base expected) + 12 \<le> 2 ^ 64"
    using spans_no_wrap [OF out(1)] spans_no_wrap [OF e(1)] by simp_all
  have ro: "read_bytes m2 (cap_base out) 12 = x @ [0]"
    using read_bytes_same [of "cap_base out" "x @ [0]" m1] wf(1) unfolding l m2_def by simp
  have "read_bytes m2 (cap_base expected) 12 = read_bytes m1 (cap_base expected) 12"
    unfolding m2_def using wf l e(1) out(1) apart(5)
    by (intro read_bytes_apart) (auto simp: objects_apart_def spans_def)
  also have "\<dots> = x @ [0]"
    using read_bytes_same [of "cap_base expected" "x @ [0]" "mem s"] wf(2) unfolding l m1_def by simp
  finally have re: "read_bytes m2 (cap_base expected) 12 = x @ [0]" .
  have "in_order (map (\<lambda>i. bind (reading count_faults (get_data (plus_ptr expected (of_nat i))) old) (\<lambda>v.
      bind (reading count_faults (get_data (plus_ptr out (of_nat i))) old) (\<lambda>y. assert_that (v = y)))) [0..<12])
      (s\<lparr>mem := m2\<rparr>) = Inr ((), s\<lparr>mem := m2\<rparr>)"
  proof (intro in_order_unchanged)
    fix p assume "p \<in> set (map (\<lambda>i. bind (reading count_faults (get_data (plus_ptr expected (of_nat i))) old) (\<lambda>v.
      bind (reading count_faults (get_data (plus_ptr out (of_nat i))) old) (\<lambda>y. assert_that (v = y)))) [0..<12])"
    then obtain i where i: "i < 12" and p: "p = bind (reading count_faults (get_data (plus_ptr expected (of_nat i))) old) (\<lambda>v.
      bind (reading count_faults (get_data (plus_ptr out (of_nat i))) old) (\<lambda>y. assert_that (v = y)))" by auto
    show "p (s\<lparr>mem := m2\<rparr>) = Inr ((), s\<lparr>mem := m2\<rparr>)"
      using spans_byte [OF e(1) i e(2)] spans_byte [OF out(1) _ out(2), of i] i byte_of_read [OF re i] byte_of_read [OF ro i]
      unfolding p by simp
  qed
  then have "libc_printf sprintf old expected out fmt world s = Inr ((), s\<lparr>mem := m2\<rparr>)"
    using call l x(2) spans_addr [OF e(1)]
    by (simp add: libc_printf_def initialise_def x(1) m1_def [symmetric])
  then show ?thesis by blast
qed

end
