(* ===== verification/TestFramework.thy ===== *)
theory TestFramework
  imports VarArgs HybridTests GlobalsTests SmallTests
begin

text \<open>
  What is around the body of a test: the declarations of \<open>cheri_c_testdecls.h\<close>, the \<open>main\<close> that
  \<open>cheri_c_test.h\<close> makes of a body for CheriBSD, and the \<open>test\<close> that
  \<open>tests/purecap/cheri_c_test_framework.h\<close> makes of it for bare metal. There the number of faults a
  test expects is a macro in its source, and the counting handler of \<open>init.s\<close> takes the place of the
  one in \<open>test_runtime.c\<close>.
\<close>

section \<open>Declarations\<close>

text \<open>Name, description, and whether the test is declared to need a fault handler.\<close>

definition declared_tests :: "(string \<times> string \<times> bool) list" where
  "declared_tests =
     [(''clang_purecap_array'', ''on-stack array'', True),
      (''clang_purecap_atomic'', ''C11 atomic types'', False),
      (''clang_purecap_badcall'', ''calling non-functions'', True),
      (''clang_purecap_capcmp'', ''pointer comparision'', False),
      (''clang_purecap_capret'', ''return addresses are capabilities'', False),
      (''clang_purecap_capretaddr'', ''return address'', False),
      (''clang_purecap_funptr'', ''function pointers'', False),
      (''clang_purecap_init'', ''global pointer initalization'', False),
      (''clang_purecap_input'', ''__input qualifier'', True),
      (''clang_purecap_intcap'', ''__intcap_t init, math, comparison'', False),
      (''libc_malloc'', ''malloc'', False),
      (''libc_memcpy'', ''memcpy'', False),
      (''libc_memmove'', ''memmove'', False),
      (''clang_purecap_null'', ''generate NULL pointers'', False),
      (''clang_purecap_output'', ''__output qualifier'', True),
      (''libc_printf'', ''printf'', False),
      (''libc_qsort'', ''qsort'', False),
      (''libc_setjmp'', ''setjmp, longjmp'', False),
      (''clang_purecap_smallint'', ''small integer math on pointers'', False),
      (''clang_purecap_stack_cap'', ''os-stack arrays'', False),
      (''libc_string'', ''on stack strings'', False),
      (''clang_purecap_int64math'', ''math on int64_t'', False),
      (''clang_purecap_uint64math'', ''math on uint64_t'', False),
      (''clang_purecap_intcapmath'', ''math on __intcap_t'', False),
      (''clang_purecap_uintcapmath'', ''math on __uintcap_t'', False),
      (''clang_purecap_union'', ''unions with capabilities'', False),
      (''clang_purecap_byval_args'', ''by value function parameters'', False),
      (''clang_purecap_va_args'', ''varidac functions'', True),
      (''clang_purecap_va_copy'', ''va_copy copies'', False),
      (''clang_purecap_va_die'', ''consume too many varargs'', True),
      (''clang_purecap_va_list_global'', ''store a va_list in a global'', True),
      (''clang_hybrid_bcopy'', ''bcopy'', False),
      (''clang_hybrid_cast'', ''capability to array'', False),
      (''clang_hybrid_cursor'', ''capability offset arithmetic'', False),
      (''clang_hybrid_cursor_trivial'', ''capability offset faults'', True),
      (''clang_hybrid_intcap'', ''__intcap_t to/from cast and arith'', False),
      (''clang_hybrid_load_data'', ''load data via capability'', False),
      (''clang_hybrid_load_double'', ''load doubles via capability'', False),
      (''clang_hybrid_load_float'', ''load floats via capability'', False),
      (''clang_hybrid_memcpy'', ''memcpy'', False),
      (''clang_hybrid_memmove'', ''memmove'', False),
      (''clang_hybrid_opaque'', ''seal/unseal capability'', False),
      (''clang_hybrid_pack'', ''unaligned store'', False),
      (''clang_hybrid_store_data'', ''store data via capability'', False),
      (''clang_hybrid_struct'', ''capability to static struct'', False),
      (''clang_hybrid_sub'', ''subtract capabilities'', False),
      (''clang_hybrid_toy'', ''summate return'', False)]"

definition declared :: "string \<Rightarrow> bool" where
  "declared name \<longleftrightarrow> name \<in> set (map fst declared_tests)"

definition declared_fault :: "string \<Rightarrow> bool" where
  "declared_fault name \<longleftrightarrow> list_ex (\<lambda>(n, _, f). n = name \<and> f) declared_tests"

section \<open>The two frameworks\<close>

text \<open>
  \<open>BEGIN_TEST\<close> and \<open>END_TEST\<close> for CheriBSD: a test that is not declared does not compile, which is
  \<open>None\<close>; \<open>sigaction_result\<close> is what the call of \<open>test_setup\<close> answers.
\<close>

definition cheribsd_main :: "string \<Rightarrow> int \<Rightarrow> 'a prog \<Rightarrow> int prog option" where
  "cheribsd_main name sigaction_result body =
     (if declared name
      then Some (bind (assert_that (sigaction_result = 0)) (\<lambda>_. bind body (\<lambda>_. ret 0))) else None)"

text \<open>
  And for bare metal, where \<open>expected\<close> is \<open>TEST_EXPECTED_FAULTS\<close>. \<open>BEGIN_TEST\<close> sets
  \<open>continue_after_exception\<close> to it; built with \<open>DIE_ON_EXCEPTION\<close>, the counting handler of \<open>init.s\<close> counts
  that variable down and stops the run at the first fault that finds it at 0. As the handler only ever
  counts up, a body has caused such a fault if it ends with more faults than it may. The result is the
  status and the state of a test that returns; a test that was stopped or failed an assertion, in its
  body or at its end, has none.
\<close>

definition bare_metal_test :: "bool \<Rightarrow> int \<Rightarrow> 'a prog \<Rightarrow> machine \<Rightarrow> (int \<times> machine) option" where
  "bare_metal_test die_on_exception expected body s =
     (case body s of
        Inl _ \<Rightarrow> None
      | Inr (_, s') \<Rightarrow>
          if die_on_exception \<and> expected < faults s' - faults s then None
          else if faults s' = expected then Some (0, s') else None)"

definition returned :: "stop + 'a \<Rightarrow> 'a option" where
  "returned r = (case r of Inl _ \<Rightarrow> None | Inr x \<Rightarrow> Some x)"

text \<open>
  Started with no fault counted, the test returns with the same status and in the same state on both;
  where the handler of CheriBSD could not be installed, it does not return there.
\<close>

definition agree_on :: "machine \<Rightarrow> string \<Rightarrow> int \<Rightarrow> 'a prog \<Rightarrow> bool" where
  "agree_on s name expected body \<longleftrightarrow>
     (\<forall>r die. \<exists>main. cheribsd_main name r body = Some main \<and>
        returned (main s) = (if r = 0 then bare_metal_test die expected body s else None))"

text \<open>The tests that define the macro; for the others it is 0.\<close>

definition input_faults :: int where "input_faults = 1"
definition output_faults :: int where "output_faults = 1"
definition badcall_faults :: int where "badcall_faults = 2"
definition va_die_faults :: int where "va_die_faults = 1"
definition va_list_global_faults :: int where "va_list_global_faults = 1"
definition cursor_trivial_faults :: int where "cursor_trivial_faults = 2"
definition default_faults :: int where "default_faults = 0"

lemmas expected_faults = input_faults_def output_faults_def badcall_faults_def va_die_faults_def
  va_list_global_faults_def cursor_trivial_faults_def default_faults_def

section \<open>Counting faults\<close>

text \<open>A program that, when it ends, has counted \<open>n\<close> faults in all, and one that counts none.\<close>

definition counted :: "int \<Rightarrow> 'a prog \<Rightarrow> bool" where
  "counted n p \<longleftrightarrow> (\<forall>s x s'. p s = Inr (x, s') \<longrightarrow> faults s' = n)"

definition counts_none :: "'a prog \<Rightarrow> bool" where
  "counts_none p \<longleftrightarrow> (\<forall>s x s'. p s = Inr (x, s') \<longrightarrow> faults s' = faults s)"

lemma counted_assert: "counted n (assert_state (\<lambda>s. faults s = n))"
  by (simp add: counted_def assert_state_def assert_that_def)

lemma counted_bind: "(\<And>x. counted n (f x)) \<Longrightarrow> counted n (bind p f)"
  by (auto simp: counted_def bind_def split: sum.splits)

lemma counted_then: "counted n p \<Longrightarrow> (\<And>x. counts_none (f x)) \<Longrightarrow> counted n (bind p f)"
  by (fastforce simp: counted_def counts_none_def bind_def split: sum.splits)

lemma counts_none_rules:
  "counts_none (ret x)" "counts_none (assert_that b)" "counts_none (assert_state P)"
  "counts_none p \<Longrightarrow> (\<And>x. counts_none (f x)) \<Longrightarrow> counts_none (bind p f)"
  by (fastforce simp: counts_none_def bind_def ret_def assert_that_def assert_state_def split: sum.splits if_splits)+

lemma counted_last: "counted n p \<Longrightarrow> counted n (in_order (ps @ [p]))"
proof (induction ps)
  case Nil
  then show ?case by (simp add: counted_then counts_none_rules)
next
  case (Cons q ps)
  then show ?case by (simp add: counted_bind)
qed


section \<open>The frameworks agree\<close>

lemma frameworks_agree:
  assumes "counted n body" and "declared name" and "faults s = 0"
  shows "agree_on s name n body"
proof -
  have "returned (bind (assert_that (r = 0)) (\<lambda>_. bind body (\<lambda>_. ret 0)) s) =
      (if r = 0 then bare_metal_test die n body s else None)" for r :: int and die
    using assms(1,3)
    by (cases "body s") (auto simp: bare_metal_test_def counted_def bind_def assert_that_def ret_def returned_def)
  then show ?thesis using assms(2) by (simp add: agree_on_def cheribsd_main_def)
qed

lemma declared_names:
  "declared ''clang_purecap_input'' \<and> declared ''clang_purecap_output'' \<and> declared ''clang_purecap_badcall'' \<and>
   declared ''clang_purecap_va_die'' \<and> declared ''clang_purecap_va_list_global'' \<and> declared ''clang_hybrid_cursor_trivial''"
  by (simp add: declared_def declared_tests_def)

lemmas counted_rules = counted_bind counted_assert counted_last

lemma counted_fault_tests:
  "counted 1 (clang_purecap_input ip old x)" "counted 1 (clang_purecap_output op old x)"
  "counted 2 (clang_purecap_badcall f code oldp)" "counted 1 (clang_purecap_va_die va old ap)"
  "counted 1 (clang_purecap_va_list_global r ap)" "counted 2 (clang_hybrid_cursor_trivial ddc a old)"
proof -
  show "counted 1 (clang_purecap_input ip old x)" "counted 1 (clang_purecap_output op old x)"
    "counted 2 (clang_purecap_badcall f code oldp)" "counted 1 (clang_purecap_va_die va old ap)"
    unfolding clang_purecap_input_def clang_purecap_output_def clang_purecap_badcall_def clang_purecap_va_die_def
    by (intro counted_rules)+
  have "counted 1 (print_impl r i)" for i
    unfolding print_impl_def by (intro counted_then counted_rules counts_none_rules | rule counted_bind)+
  then show "counted 1 (clang_purecap_va_list_global r ap)"
    unfolding clang_purecap_va_list_global_def by (intro counted_then counts_none_rules)
  have "counted 2 (\<lambda>s. clang_hybrid_cursor_trivial ddc a old s)"
    unfolding counted_def clang_hybrid_cursor_trivial_def Let_def
    by (auto simp: bind_def assert_state_def assert_that_def split: sum.splits if_splits)
  then show "counted 2 (clang_hybrid_cursor_trivial ddc a old)" by simp
qed


lemma counted_hybrid_data:
  "counted 0 (clang_hybrid_load_data ddc d old)" "counted 0 (clang_hybrid_store_data ddc d old)"
proof -
  have "counted 0 (in_order [p1, p2, p3, p4, p5, p6, p7, p8, assert_state (\<lambda>s. faults s = 0)])"
    for p1 p2 p3 p4 p5 p6 p7 p8
    using counted_last [OF counted_assert, of 0 "[p1, p2, p3, p4, p5, p6, p7, p8]"] by simp
  then show "counted 0 (clang_hybrid_load_data ddc d old)" "counted 0 (clang_hybrid_store_data ddc d old)"
    unfolding clang_hybrid_load_data_def clang_hybrid_store_data_def by blast+
qed

lemma counted_faultless_tests:
  "counted 0 (clang_hybrid_cursor ddc a old)" "counted 0 (clang_hybrid_opaque ddc a sealcap old)"
  "counted 0 (clang_hybrid_struct ddc a old)" "counted 0 (clang_hybrid_intcap ddc a oldb)"
  "counted 0 (clang_hybrid_cast ddc a)" "counted 0 (clang_hybrid_sub ddc a)"
  "counted 0 (clang_hybrid_pack e ddc a old)" "counted 0 (clang_hybrid_load_double config addd ddc a oldd)"
  "counted 0 (clang_hybrid_load_float config adds ddc a old)" "counted 0 (clang_purecap_va_args va r ptrs str ap)"
  unfolding clang_hybrid_cursor_def clang_hybrid_opaque_def clang_hybrid_struct_def clang_hybrid_intcap_def
    clang_hybrid_cast_def clang_hybrid_sub_def clang_hybrid_pack_def clang_hybrid_load_double_def
    clang_hybrid_load_float_def clang_purecap_va_args_def Let_def
  by (intro counted_rules)+

text \<open>The array test counts the faults of six stores and says so, but does not define the macro.\<close>

lemma array_test_bare_metal:
  "bare_metal_test die default_faults (clang_purecap_array 8 buffer) s = None"
proof -
  have "counted 6 (clang_purecap_array 8 buffer)" unfolding clang_purecap_array_def
    using counted_assert [of 6] by (intro counted_bind) simp
  then show ?thesis
    by (cases "clang_purecap_array 8 buffer s") (auto simp: bare_metal_test_def counted_def expected_faults)
qed

text \<open>
  C32. The two frameworks give the same verdict on the tests that fault, whether or not the bare metal
  one stops at a fault that is not expected: started with no fault counted, a test returns on bare metal
  exactly when it returns on CheriBSD with its handler installed, with the same status and in the same
  state. The number of faults a test asserts in its body is the one its macro announces, so neither the
  budget of the handler nor the assertion at the end stops it. The array test is the exception: it
  announces none and never returns on bare metal.
\<close>

theorem fault_tests_agree:
  assumes "faults s = 0"
  shows "agree_on s ''clang_purecap_input'' input_faults (clang_purecap_input ip old x) \<and>
    agree_on s ''clang_purecap_output'' output_faults (clang_purecap_output op old x) \<and>
    agree_on s ''clang_purecap_badcall'' badcall_faults (clang_purecap_badcall f code oldp) \<and>
    agree_on s ''clang_purecap_va_die'' va_die_faults (clang_purecap_va_die va old ap) \<and>
    agree_on s ''clang_purecap_va_list_global'' va_list_global_faults (clang_purecap_va_list_global r ap) \<and>
    agree_on s ''clang_hybrid_cursor_trivial'' cursor_trivial_faults (clang_hybrid_cursor_trivial ddc a old) \<and>
    bare_metal_test die default_faults (clang_purecap_array 8 buffer) s = None"
  using declared_names assms
  by (simp add: array_test_bare_metal [unfolded default_faults_def] expected_faults frameworks_agree counted_fault_tests)

theorem fault_tests_agree_witness:
  "agree_on empty_machine ''clang_hybrid_cursor_trivial'' cursor_trivial_faults
     (clang_hybrid_cursor_trivial whole_memory 8192 0)"
  using fault_tests_agree [of empty_machine] by (simp add: empty_machine_def)

text \<open>And on the tests that assert that nothing faulted.\<close>

theorem faultless_tests_agree:
  assumes "faults s = 0"
  shows "agree_on s ''clang_hybrid_cursor'' default_faults (clang_hybrid_cursor ddc a old) \<and>
    agree_on s ''clang_hybrid_opaque'' default_faults (clang_hybrid_opaque ddc a sealcap old) \<and>
    agree_on s ''clang_hybrid_struct'' default_faults (clang_hybrid_struct ddc a old) \<and>
    agree_on s ''clang_hybrid_intcap'' default_faults (clang_hybrid_intcap ddc a oldb) \<and>
    agree_on s ''clang_hybrid_cast'' default_faults (clang_hybrid_cast ddc a) \<and>
    agree_on s ''clang_hybrid_sub'' default_faults (clang_hybrid_sub ddc a) \<and>
    agree_on s ''clang_hybrid_pack'' default_faults (clang_hybrid_pack e ddc a old) \<and>
    agree_on s ''clang_hybrid_load_double'' default_faults (clang_hybrid_load_double config addd ddc a oldd) \<and>
    agree_on s ''clang_hybrid_load_float'' default_faults (clang_hybrid_load_float config adds ddc a old) \<and>
    agree_on s ''clang_hybrid_load_data'' default_faults (clang_hybrid_load_data ddc d old64) \<and>
    agree_on s ''clang_hybrid_store_data'' default_faults (clang_hybrid_store_data ddc d old64) \<and>
    agree_on s ''clang_purecap_va_args'' default_faults (clang_purecap_va_args va r ptrs str ap)"
proof -
  have "list_all declared [''clang_hybrid_cursor'', ''clang_hybrid_opaque'', ''clang_hybrid_struct'', ''clang_hybrid_intcap'',
      ''clang_hybrid_cast'', ''clang_hybrid_sub'', ''clang_hybrid_pack'', ''clang_hybrid_load_double'',
      ''clang_hybrid_load_float'', ''clang_hybrid_load_data'', ''clang_hybrid_store_data'', ''clang_purecap_va_args'']"
    by (simp add: declared_def declared_tests_def)
  then show ?thesis
    using assms by (simp add: default_faults_def frameworks_agree counted_faultless_tests counted_hybrid_data)
qed

theorem faultless_tests_agree_witness:
  "agree_on empty_machine ''clang_hybrid_cursor'' default_faults (clang_hybrid_cursor whole_memory 8192 0)"
  using faultless_tests_agree [of empty_machine] by (simp add: empty_machine_def)

text \<open>
  The declared names are distinct. The tests that expect faults are declared to need a handler, and so
  is one that asserts that nothing faulted. \<open>clang_purecap_union_struct.c\<close> is not declared: its
  \<open>BEGIN_TEST\<close> does not compile.
\<close>

theorem declarations:
  "distinct (map fst declared_tests) \<and>
   list_all declared_fault [''clang_purecap_input'', ''clang_purecap_output'', ''clang_purecap_badcall'',
     ''clang_purecap_va_die'', ''clang_purecap_va_list_global'', ''clang_hybrid_cursor_trivial'', ''clang_purecap_array''] \<and>
   declared_fault ''clang_purecap_va_args'' \<and>
   cheribsd_main ''clang_purecap_union_struct'' r body = None"
  by (simp add: declared_tests_def declared_fault_def declared_def cheribsd_main_def)

end
