(* ===== verification/Spec2Isabelle.thy ===== *)
theory Spec2Isabelle
  imports BuildTools LogConvert ElfHdr DmaGen DmaTest CrtInit CopyTestProps IntCapMath TestRuntimeProps FuzzFpu
    MultiThreadTest XmlCat MultiDmaProps VarArgs HybridTests GlobalsTests AtomicTest
    RuntimeMachine CopyTestGap CallTests TestFramework
begin

text \<open>
  \<^bold>\<open>The program.\<close> cheritest is the test suite of the CHERI processors. Makefiles build some thousand
  test programs, run them on a simulator or on hardware, and compare what the simulator prints with
  what the tests expect. The logic of the suite is in its C and C++ programs, in four groups:

  \<^item> small tools the makefiles call: \<open>select_init.c\<close> and \<open>max_cycles.c\<close> choose how a test is linked
    and how long it may run, \<open>elfhdr.c\<close> wraps a memory image for a loader, \<open>gxemultosim.c\<close> and
    \<open>l3tosim.c\<close> bring the output of two simulators into the form of a third, \<open>xmlcat.c\<close> joins test
    reports, \<open>fuzz_fpu.c\<close> writes a random test of the floating point unit;
  \<^item> the fuzzer of the DMA engine in \<open>fuzz_dma\<close>: \<open>dma_test_generation.c\<close> makes random programs and
    finds out what they transfer, \<open>generate_dma_test.c\<close> and \<open>generate_multithread_dma_test.cpp\<close> print
    the test of one and of several programs, \<open>multithread_test_template.c\<close> is the test itself, and
    \<open>mips_tlb.h\<close> sets up the virtual memory it runs in;
  \<^item> what every capability program is linked with: \<open>crt_init_globals.c\<close>, which makes the pointers in
    globals before \<open>main\<close>, the fault handler \<open>cheri-c-tests/test_runtime.c\<close>, which emulates the
    branch in front of a fault in its delay slot, and the copying routines
    \<open>cheri-c-tests/clang-hybrid/memcpy.c\<close>;
  \<^item> the tests of \<open>cheri-c-tests\<close>, which use all of these.

  \<^bold>\<open>The theories.\<close> Definitions have the names of the functions they model; a loop, a case of a switch
  or a block of statements that is a definition of its own is named after what it does.

  \<^item> \<open>CPrelude\<close>: C types as words, C strings and the library functions on them (\<open>strstr\<close>, \<open>strtoull\<close>,
    \<open>printf\<close> conversions, \<open>fgets\<close>), the output streams and the exit status of a process.
  \<^item> \<open>ByteOrder\<close>: words as bytes of either order.
  \<^item> \<open>BuildTools\<close>: \<open>select_init\<close> against a table from classes of tests to linker lines, \<open>max_cycles\<close>.
  \<^item> \<open>LogConvert\<close>: the two filters, line by line with their buffers, against the report the framework
    reads. \<open>ElfHdr\<close>: \<open>elfhdr\<close> with the structures of \<open>elf.h\<close>, against a loader. \<open>XmlCat\<close>: \<open>xmlcat\<close>
    over any XML library, with the sums it computes. \<open>FuzzFpu\<close>: \<open>fuzz_fpu\<close>.
  \<^item> \<open>DmaGen\<close>: the pseudo random numbers, the tree of program nodes in a heap, filled level by level
    until the queue of open places is empty, its release, and the program written for it. The
    locale \<open>random_source\<close> is what the generator asks of its numbers; it is interpreted with
    \<open>myrand\<close>. \<open>DmaTest\<close>: the list of transfers of a run and the printed test. \<open>MultiDmaGen\<close>: the
    generator for several threads. \<open>TestText\<close> and \<open>MultiDmaText\<close> read the C text of a printed test
    back, in terms of which \<open>DmaTest\<close> and \<open>MultiDmaProps\<close> say what a test does: its assignments,
    comparisons, pointers and TLB entries, in a TLB of a fixed size whose entries are written at
    random indices.
    \<open>MultiThreadTest\<close>: the test as a state with the array of active threads.
  \<^item> \<open>CheriCap\<close>, \<open>CheriMem\<close>: capabilities of 256 bits, the operations on them with the faults they
    raise, and memory with a tag for every 32 bytes. \<open>CrtInit\<close>: the start-up code.
    \<open>TestRuntime\<close>, \<open>TestRuntimeProps\<close>: the fault handler. \<open>MemCopy\<close>: the copying routines with their
    loops for bytes, words and capabilities; \<open>MemCopyCorrect\<close> (forwards), \<open>MemCopyBack\<close>
    (backwards) and \<open>MemCopyProps\<close> have the proofs.
  \<^item> \<open>CopyTest\<close>, \<open>CopyTestProps\<close>: the tests of the copying routines. The locales \<open>pointer_abi\<close>,
    \<open>tested_copy\<close> and \<open>overlap_copy\<close> are what they use of pointers and of a routine; they are
    interpreted with the two ABIs and with every routine of \<open>MemCopy\<close>. \<open>CopyTestGap\<close>: the wrong
    routine that \<open>libc_memcpy\<close> does not notice.
  \<^item> \<open>IntCapMath\<close>: the arithmetic test as a program over a type given by its operators, those of the
    capability types being an argument.
  \<^item> \<open>TestMachine\<close>: a memory with a fault counter, in which a faulting load or store calls the
    handler of the test and goes on, as \<open>RuntimeMachine\<close> derives from the handler;
    \<open>FaultTests\<close>, \<open>VarArgs\<close>, \<open>HybridTests\<close>, \<open>GlobalsTests\<close>,
    \<open>PurecapTests\<close>, \<open>AtomicTest\<close>, \<open>LibcTests\<close>, \<open>FloatTests\<close>, \<open>SmallTests\<close> and \<open>CallTests\<close> are tests
    that run on it, the ones in \<open>GlobalsTests\<close> on the memory \<open>crt_init_globals\<close> leaves.
    \<open>TestFramework\<close>: the declarations of the tests, and the two frameworks they are built into, for
    CheriBSD and for bare metal.

  \<^bold>\<open>What is shown.\<close> The tools print what their users read, for all inputs they are meant for, and the
  errors are characterised (a null pointer, an exit status, an overflow). A random DMA program is a tree
  of at most 25 nodes for every seed, because the multiplier of the generator allows no long run of
  zeros; it fills its buffer, respects its loops, and is freed once. The printed tests, read
  back from their lines, pass when the engine copies what the list of transfers says; for several threads
  this is shown of programs that stay within 8K, to which the pages and TLB entries give memory of their
  own, and beyond 8K pages may overlap. The copying routines move bytes and whole capabilities between any regions, and change
  nothing else. The fault handler emulates conditional branches like the architecture, up to
  three whose assertions are wrong, and fails for the others. Start-up gives every pointer its bounds and no more rights than it needs. The tests pass
  under stated conditions on what the compiler and the C library leave to them; where they pass by
  accident or can never pass the theorem says so.

  \<^bold>\<open>Loops and bounds.\<close> A loop that ends by its data is a \<open>fun\<close>. Loops that may not end are
  \<open>partial_function (option)\<close>, so that \<open>None\<close> is a run that goes on for ever, and there is a theorem
  that a result is returned, or, for the test with several threads, that none is. Only
  the walks over the list of transfers, \<open>records_from\<close> and \<open>free_transfer_list\<close>, take a bound, the number
  of records ever allocated, as the list could be a cycle; the theorem on them shows that it suffices.
  Machine integers are words of their size; a counter, a sum or a shift that leaves its type (the copying loop
  of \<open>elfhdr\<close> from 2 GB on, the sums of \<open>xmlcat\<close>, the fields of no bits of the branch emulation) is an
  error value.

  \<^bold>\<open>Parameters.\<close> Code outside the repository is an argument: the DMA engine and the encoders of its
  instructions, the XML library, \<open>random()\<close> and the engines of the C++ library, the system calls
  \<open>sysarch\<close> and \<open>sigaction\<close>, what \<open>new\<close> leaves in an array, the indices \<open>tlbwr\<close> draws, the C library
  routines the tests call, the addition of the floating point unit, the code behind a function pointer,
  and what the compiler does to qualified pointers, to the layout of variable arguments, to structures
  passed by value and to numbers in pointers. Properties state what they need of these.

  \<^bold>\<open>Not modelled.\<close> Capabilities of 128 bits, whose bounds are rounded (the tests are modelled for
  \<open>sizeof(void *)\<close> of 32, where \<open>test_runtime.c\<close> and \<open>memcpy.c\<close> depend on it the size is an argument
  or the branch is named). The variant of \<open>crt_init_globals.c\<close> for a capability table, which
  only calls a function of a header that is not in the repository; the code for it behind the \<open>#else\<close>
  is never compiled. Most statements under \<open>INCLUDE_XFAIL\<close>, those under \<open>SLOW_TESTS\<close>,
  \<open>DISASSEMBLE_DMA\<close>, \<open>TEST_DMA_TEST_GENERATION\<close> (which calls functions that do not exist) and the like,
  and debugging macros. The counting handler of the bare metal framework, which is assembly: it is taken
  to count as the handler of \<open>test_runtime.c\<close> does and, built with \<open>DIE_ON_EXCEPTION\<close>, to stop a test at
  the first fault it does not expect. The test programs under \<open>tests\<close>, which are inputs
  of the simulators, most of them in assembly. The makefiles, linker scripts, Python and awk scripts.
\<close>

end
